(* ===== verification/Prelude.thy ===== *)
theory Prelude
  imports Complex_Main "HOL-Library.Word"
begin

text \<open>
  Shared vocabulary of the development: the machine integers of the armeabi-v7a
  ABI the repository is built for (Application.mk: 32-bit \<open>long\<close> and
  \<open>size_t\<close>, little endian), byte codecs, memory slices, C strings and
  \<open>memcmp\<close>. Nothing in this theory models a file of the repository.
\<close>

unbundle bit_operations_syntax

named_theorems codec_simps \<open>length and round-trip facts of the byte codecs\<close>
named_theorems mem_simps \<open>facts about slices and overwrites of memory\<close>

section \<open>Machine integers\<close>

type_synonym u8 = "8 word"
type_synonym u16 = "16 word"
type_synonym u32 = "32 word"
type_synonym u64 = "64 word"
type_synonym ulong = "32 word"

text \<open>Words read as natural numbers.\<close>

lemma unat_ucast: "unat (ucast (x :: 'a::len word) :: 'b::len word) = unat x mod 2 ^ LENGTH('b)"
  by (simp add: unsigned_ucast_eq take_bit_eq_mod)

lemma unat_word_of_nat: "unat (of_nat n :: 'a::len word) = n mod 2 ^ LENGTH('a)"
  by (simp add: unat_of_nat take_bit_eq_mod)

lemma unat_bound: "unat (w :: 'a::len word) < 2 ^ LENGTH('a)"
  by (rule unsigned_less)

lemma unat_word_of_int:
  "0 \<le> i \<Longrightarrow> unat (word_of_int i :: 'a::len word) = nat i mod 2 ^ LENGTH('a)"
  using unat_word_of_nat [of "nat i", where ?'a = 'a] by simp

section \<open>Little-endian and big-endian byte codecs\<close>

fun le_bytes :: "nat \<Rightarrow> 'a::len word \<Rightarrow> u8 list" where
  "le_bytes 0 w = []"
| "le_bytes (Suc n) w = ucast w # le_bytes n (drop_bit 8 w)"

fun le_word :: "u8 list \<Rightarrow> 'a::len word" where
  "le_word [] = 0"
| "le_word (b # bs) = ucast b OR push_bit 8 (le_word bs)"

definition be_bytes :: "nat \<Rightarrow> 'a::len word \<Rightarrow> u8 list" where
  "be_bytes n w = rev (le_bytes n w)"

definition be_word :: "u8 list \<Rightarrow> 'a::len word" where
  "be_word bs = le_word (rev bs)"

lemma le_bytes_numeral:
  "le_bytes (numeral k) w = ucast w # le_bytes (pred_numeral k) (drop_bit 8 w)"
  by (simp add: numeral_eq_Suc)

lemma length_le_bytes [simp, codec_simps]: "length (le_bytes n w) = n"
  by (induction n arbitrary: w) auto

lemma length_be_bytes [simp, codec_simps]: "length (be_bytes n w) = n"
  by (simp add: be_bytes_def)

lemma bit_le_word:
  "bit (le_word bs :: 'a::len word) i \<longleftrightarrow>
     i < LENGTH('a) \<and> i div 8 < length bs \<and> bit (bs ! (i div 8)) (i mod 8)"
proof (induction bs arbitrary: i)
  case Nil
  then show ?case by simp
next
  case (Cons b bs)
  show ?case
  proof (cases "i < 8")
    case True
    then show ?thesis
      by (auto simp: bit_simps)
  next
    case False
    then have "i div 8 = Suc ((i - 8) div 8)" and "i mod 8 = (i - 8) mod 8"
      by (simp_all add: le_div_geq le_mod_geq)
    with False show ?thesis
      by (auto simp: bit_simps Cons.IH dest: bit_imp_le_length)
  qed
qed

lemma nth_le_bytes: "k < n \<Longrightarrow> le_bytes n w ! k = ucast (drop_bit (8 * k) w)"
proof (induction n arbitrary: w k)
  case 0
  then show ?case by simp
next
  case (Suc n)
  then show ?case
    by (cases k) (simp_all add: drop_bit_drop_bit add.commute)
qed

lemma le_word_le_bytes [codec_simps]:
  "le_word (le_bytes n w) = (take_bit (8 * n) w :: 'a::len word)"
proof (rule bit_word_eqI)
  fix i assume "i < LENGTH('a)"
  have "i div 8 < n \<longleftrightarrow> i < 8 * n" by (simp add: div_less_iff_less_mult mult.commute)
  moreover have "8 * (i div 8) + i mod 8 = i" by simp
  ultimately show "bit (le_word (le_bytes n w) :: 'a word) i = bit (take_bit (8 * n) w) i"
    using \<open>i < LENGTH('a)\<close>
    by (auto simp: bit_le_word nth_le_bytes bit_simps)
qed

lemma le_bytes_le_word [codec_simps]:
  assumes "8 * length bs \<le> LENGTH('a::len)"
  shows "le_bytes (length bs) (le_word bs :: 'a word) = bs"
proof (rule nth_equalityI)
  fix k assume "k < length (le_bytes (length bs) (le_word bs :: 'a word))"
  then have k: "k < length bs" by simp
  have "ucast (drop_bit (8 * k) (le_word bs :: 'a word)) = bs ! k"
  proof (rule bit_word_eqI)
    fix i assume i: "i < LENGTH(8)"
    then have "(8 * k + i) div 8 = k" and "(8 * k + i) mod 8 = i" by auto
    moreover have "8 * k + i < LENGTH('a)" using i k assms by simp
    ultimately show "bit (ucast (drop_bit (8 * k) (le_word bs :: 'a word)) :: u8) i = bit (bs ! k) i"
      using i k by (simp add: bit_simps bit_le_word)
  qed
  with k show "le_bytes (length bs) (le_word bs :: 'a word) ! k = bs ! k"
    by (simp add: nth_le_bytes)
qed simp

lemma le_word_full [simp, codec_simps]:
  "LENGTH('a::len) \<le> 8 * n \<Longrightarrow> le_word (le_bytes n w) = (w :: 'a word)"
  by (simp add: le_word_le_bytes take_bit_word_eq_self)

lemma be_word_full [simp, codec_simps]:
  "LENGTH('a::len) \<le> 8 * n \<Longrightarrow> be_word (be_bytes n w) = (w :: 'a word)"
  by (simp add: be_word_def be_bytes_def)

lemma codec_16_32_64 [simp]:
  fixes a :: u16 and b :: u32 and c :: u64
  shows "le_word (le_bytes 2 a) = a" and "le_word (le_bytes 4 b) = b"
    and "le_word (le_bytes 8 c) = c"
    and "be_word (be_bytes 2 a) = a" and "be_word (be_bytes 4 b) = b"
  by simp_all

lemma le_bytes_0 [simp]: "le_bytes n 0 = replicate n 0"
  by (induction n) auto

section \<open>Slices and overwrites of memory\<close>

definition slice :: "'a list \<Rightarrow> nat \<Rightarrow> nat \<Rightarrow> 'a list" where
  "slice xs off n = take n (drop off xs)"

definition overwrite :: "'a list \<Rightarrow> nat \<Rightarrow> 'a list \<Rightarrow> 'a list" where
  "overwrite xs off ys = take off xs @ ys @ drop (off + length ys) xs"

lemma length_slice [simp, mem_simps]: "length (slice xs off n) = min n (length xs - off)"
  by (auto simp: slice_def)

lemma length_overwrite [simp, mem_simps]:
  "off + length ys \<le> length xs \<Longrightarrow> length (overwrite xs off ys) = length xs"
  by (simp add: overwrite_def)

lemma slice_all [mem_simps]: "slice xs 0 (length xs) = xs"
  by (simp add: slice_def)

lemma slice_slice [mem_simps]:
  "a + n \<le> m \<Longrightarrow> slice (slice xs b m) a n = slice xs (b + a) n"
  by (simp add: slice_def drop_take add.commute min_def)

lemma slice_append_skip [mem_simps]:
  "length xs \<le> off \<Longrightarrow> slice (xs @ ys) off n = slice ys (off - length xs) n"
  by (simp add: slice_def)

lemma slice_append_here [mem_simps]:
  "off + n \<le> length xs \<Longrightarrow> slice (xs @ ys) off n = slice xs off n"
  by (simp add: slice_def)

lemma slice_overwrite_same [mem_simps]:
  "off + length ys \<le> length xs \<Longrightarrow> slice (overwrite xs off ys) off (length ys) = ys"
  by (simp add: slice_def overwrite_def)

lemma nth_overwrite [mem_simps]:
  assumes "off + length ys \<le> length xs" and "k < length xs"
  shows "overwrite xs off ys ! k =
    (if off \<le> k \<and> k < off + length ys then ys ! (k - off) else xs ! k)"
  using assms by (auto simp: overwrite_def nth_append min_def)

lemma slice_overwrite_other [mem_simps]:
  assumes "off + length ys \<le> length xs" and "a + n \<le> off \<or> off + length ys \<le> a"
  shows "slice (overwrite xs off ys) a n = slice xs a n"
proof (rule nth_equalityI)
  fix i assume "i < length (slice (overwrite xs off ys) a n)"
  then have "i < n" and "a + i < length xs" using assms(1) by auto
  with assms show "slice (overwrite xs off ys) a n ! i = slice xs a n ! i"
    by (auto simp: slice_def nth_overwrite)
qed (use assms in simp)

lemma drop_overwrite [mem_simps]:
  assumes "off + length ys \<le> k" and "off + length ys \<le> length xs"
  shows "drop k (overwrite xs off ys) = drop k xs"
  using assms by (intro nth_equalityI) (simp_all add: nth_overwrite)

lemma take_overwrite [mem_simps]:
  assumes "k \<le> off" and "off + length ys \<le> length xs"
  shows "take k (overwrite xs off ys) = take k xs"
  using assms by (simp add: overwrite_def min_def)

lemma overwrite_append [mem_simps]:
  assumes "off + length ys + length zs \<le> length xs"
  shows "overwrite (overwrite xs off ys) (off + length ys) zs = overwrite xs off (ys @ zs)"
  using assms by (intro nth_equalityI) (auto simp: nth_overwrite nth_append)

lemma take_overwrite_prefix [mem_simps]:
  "length ys \<le> length xs \<Longrightarrow> take (length ys) (overwrite xs 0 ys) = ys"
  by (simp add: overwrite_def)

lemma slice_cons [mem_simps]:
  "off < length xs \<Longrightarrow> slice xs off (Suc n) = xs ! off # slice xs (Suc off) n"
  by (simp add: slice_def Cons_nth_drop_Suc [symmetric])

lemma slice_one [simp]: "Suc off \<le> length xs \<Longrightarrow> slice xs off (Suc 0) = [xs ! off]"
  by (simp add: slice_cons) (simp add: slice_def)

lemma slice_add [mem_simps]: "slice xs off (m + n) = slice xs off m @ slice xs (off + m) n"
  by (simp add: slice_def take_add add.commute)

section \<open>C strings and memcmp\<close>

text \<open>The part of a character array a string function sees: up to the first NUL.\<close>

definition cstr :: "u8 list \<Rightarrow> u8 list" where
  "cstr bs = takeWhile (\<lambda>b. b \<noteq> 0) bs"

lemma length_cstr_le: "length (cstr bs) \<le> length bs"
  by (simp add: cstr_def length_takeWhile_le)

lemma cstr_no_nul: "0 \<notin> set (cstr bs)"
  by (auto simp: cstr_def dest: set_takeWhileD)

lemma cstr_eq_self: "0 \<notin> set bs \<Longrightarrow> cstr bs = bs"
  by (auto simp: cstr_def intro!: takeWhile_eq_all_conv [THEN iffD2])

lemma cstr_terminated: "0 \<notin> set bs \<Longrightarrow> cstr (bs @ 0 # xs) = bs"
  unfolding cstr_def by (subst takeWhile_append2) auto

definition bytes_of :: "string \<Rightarrow> u8 list" where
  "bytes_of s = map of_char s"

text \<open>The sign of \<open>memcmp\<close> on two blocks of equal length.\<close>

fun memcmp :: "u8 list \<Rightarrow> u8 list \<Rightarrow> int" where
  "memcmp (x # xs) (y # ys) = (if x < y then -1 else if y < x then 1 else memcmp xs ys)"
| "memcmp _ _ = 0"

lemma memcmp_eq_0: "length xs = length ys \<Longrightarrow> memcmp xs ys = 0 \<longleftrightarrow> xs = ys"
  by (induction xs ys rule: list_induct2) auto

lemma memcmp_swap: "length xs = length ys \<Longrightarrow> memcmp ys xs = - memcmp xs ys"
  by (induction xs ys rule: list_induct2) auto

lemma memcmp_trans:
  "length xs = length ys \<Longrightarrow> length ys = length zs \<Longrightarrow>
   memcmp xs ys \<le> 0 \<Longrightarrow> memcmp ys zs \<le> 0 \<Longrightarrow> memcmp xs zs \<le> 0"
proof (induction xs ys zs rule: list_induct3)
  case (Cons x xs y ys z zs)
  then show ?case by (auto split: if_splits)
qed simp

section \<open>Tables and their iteration\<close>

text \<open>
  What a client may assume of a table it iterates over: the listing has every entry of the
  abstract map once. Provided by the hash map and by the peer table.
\<close>

locale finite_table =
  fixes invar :: "'t \<Rightarrow> bool"
    and abs :: "'t \<Rightarrow> 'k \<Rightarrow> 'v option"
    and listing :: "'t \<Rightarrow> ('k \<times> 'v) list"
  assumes listing_abs: "invar t \<Longrightarrow> abs t = map_of (listing t)"
    and listing_distinct: "invar t \<Longrightarrow> distinct (map fst (listing t))"
begin

lemma listing_mem: "invar t \<Longrightarrow> (k, v) \<in> set (listing t) \<longleftrightarrow> abs t k = Some v"
  by (simp add: listing_abs listing_distinct)

lemma finite_dom: "invar t \<Longrightarrow> finite (dom (abs t))"
  by (simp add: listing_abs finite_dom_map_of)

lemma length_listing: "invar t \<Longrightarrow> length (listing t) = card (dom (abs t))"
  using distinct_card [OF listing_distinct] by (simp add: listing_abs dom_map_of_conv_image_fst)

lemma selected_distinct: "invar t \<Longrightarrow> distinct (map fst (filter P (listing t)))"
  by (simp add: listing_distinct distinct_map_filter)

lemma selected_mem: "invar t \<Longrightarrow> (k, v) \<in> set (filter P (listing t)) \<longleftrightarrow> abs t k = Some v \<and> P (k, v)"
  using listing_mem by auto

end

text \<open>A table whose stored values can be replaced in place, through a pointer to them.\<close>

locale updatable_table = finite_table invar abs listing
  for invar :: "'t \<Rightarrow> bool" and abs :: "'t \<Rightarrow> 'k \<Rightarrow> 'v option" and listing :: "'t \<Rightarrow> ('k \<times> 'v) list" +
  fixes replace :: "'t \<Rightarrow> 'k \<Rightarrow> 'v \<Rightarrow> 't"
    and belongs :: "'k \<Rightarrow> 'v \<Rightarrow> bool"
  assumes belongs: "invar t \<Longrightarrow> abs t k = Some v \<Longrightarrow> belongs k v"
    and replace_invar: "invar t \<Longrightarrow> abs t k = Some v \<Longrightarrow> belongs k v' \<Longrightarrow> invar (replace t k v')"
    and replace_abs: "invar t \<Longrightarrow> abs t k = Some v \<Longrightarrow> belongs k v' \<Longrightarrow>
      abs (replace t k v') = (abs t)(k \<mapsto> v')"
begin

lemma replace_same: "invar t \<Longrightarrow> abs t k = Some v \<Longrightarrow> abs (replace t k v) = abs t"
  by (simp add: replace_abs belongs fun_upd_idem)

lemma replace_twice:
  assumes "invar t" and "abs t k = Some v" and "belongs k v'" and "belongs k v''"
  shows "invar (replace (replace t k v') k v'')" and "abs (replace (replace t k v') k v'') = (abs t)(k \<mapsto> v'')"
  using assms replace_invar [of "replace t k v'" k v' v''] replace_abs [of "replace t k v'" k v' v'']
  by (simp_all add: replace_invar [OF assms(1,2)] replace_abs [OF assms(1,2)])

lemma replace_size:
  assumes "invar t" and "abs t k = Some v" and "belongs k v'"
  shows "length (listing (replace t k v')) = length (listing t)"
  using assms by (simp add: length_listing replace_invar replace_abs insert_absorb domI)

end

end
