(* ===== verification/Crc32.thy ===== *)
theory Crc32
  imports Prelude
begin

text \<open>
  crc32.c, the frame check sequence of transmitted frames. The table-driven code is shown
  equal to the bitwise reference algorithm of the reflected polynomial 0xEDB88320, and to
  notice every corruption confined to one byte.
\<close>

section \<open>The table and the loop\<close>

definition crc32_tab :: "u32 list" where
  "crc32_tab = [
   0, 0x77073096, 0xee0e612c, 0x990951ba, 0x76dc419, 0x706af48f, 0xe963a535, 0x9e6495a3,
   0xedb8832, 0x79dcb8a4, 0xe0d5e91e, 0x97d2d988, 0x9b64c2b, 0x7eb17cbd, 0xe7b82d07, 0x90bf1d91,
   0x1db71064, 0x6ab020f2, 0xf3b97148, 0x84be41de, 0x1adad47d, 0x6ddde4eb, 0xf4d4b551, 0x83d385c7,
   0x136c9856, 0x646ba8c0, 0xfd62f97a, 0x8a65c9ec, 0x14015c4f, 0x63066cd9, 0xfa0f3d63, 0x8d080df5,
   0x3b6e20c8, 0x4c69105e, 0xd56041e4, 0xa2677172, 0x3c03e4d1, 0x4b04d447, 0xd20d85fd, 0xa50ab56b,
   0x35b5a8fa, 0x42b2986c, 0xdbbbc9d6, 0xacbcf940, 0x32d86ce3, 0x45df5c75, 0xdcd60dcf, 0xabd13d59,
   0x26d930ac, 0x51de003a, 0xc8d75180, 0xbfd06116, 0x21b4f4b5, 0x56b3c423, 0xcfba9599, 0xb8bda50f,
   0x2802b89e, 0x5f058808, 0xc60cd9b2, 0xb10be924, 0x2f6f7c87, 0x58684c11, 0xc1611dab, 0xb6662d3d,
   0x76dc4190, 0x1db7106, 0x98d220bc, 0xefd5102a, 0x71b18589, 0x6b6b51f, 0x9fbfe4a5, 0xe8b8d433,
   0x7807c9a2, 0xf00f934, 0x9609a88e, 0xe10e9818, 0x7f6a0dbb, 0x86d3d2d, 0x91646c97, 0xe6635c01,
   0x6b6b51f4, 0x1c6c6162, 0x856530d8, 0xf262004e, 0x6c0695ed, 0x1b01a57b, 0x8208f4c1, 0xf50fc457,
   0x65b0d9c6, 0x12b7e950, 0x8bbeb8ea, 0xfcb9887c, 0x62dd1ddf, 0x15da2d49, 0x8cd37cf3, 0xfbd44c65,
   0x4db26158, 0x3ab551ce, 0xa3bc0074, 0xd4bb30e2, 0x4adfa541, 0x3dd895d7, 0xa4d1c46d, 0xd3d6f4fb,
   0x4369e96a, 0x346ed9fc, 0xad678846, 0xda60b8d0, 0x44042d73, 0x33031de5, 0xaa0a4c5f, 0xdd0d7cc9,
   0x5005713c, 0x270241aa, 0xbe0b1010, 0xc90c2086, 0x5768b525, 0x206f85b3, 0xb966d409, 0xce61e49f,
   0x5edef90e, 0x29d9c998, 0xb0d09822, 0xc7d7a8b4, 0x59b33d17, 0x2eb40d81, 0xb7bd5c3b, 0xc0ba6cad,
   0xedb88320, 0x9abfb3b6, 0x3b6e20c, 0x74b1d29a, 0xead54739, 0x9dd277af, 0x4db2615, 0x73dc1683,
   0xe3630b12, 0x94643b84, 0xd6d6a3e, 0x7a6a5aa8, 0xe40ecf0b, 0x9309ff9d, 0xa00ae27, 0x7d079eb1,
   0xf00f9344, 0x8708a3d2, 0x1e01f268, 0x6906c2fe, 0xf762575d, 0x806567cb, 0x196c3671, 0x6e6b06e7,
   0xfed41b76, 0x89d32be0, 0x10da7a5a, 0x67dd4acc, 0xf9b9df6f, 0x8ebeeff9, 0x17b7be43, 0x60b08ed5,
   0xd6d6a3e8, 0xa1d1937e, 0x38d8c2c4, 0x4fdff252, 0xd1bb67f1, 0xa6bc5767, 0x3fb506dd, 0x48b2364b,
   0xd80d2bda, 0xaf0a1b4c, 0x36034af6, 0x41047a60, 0xdf60efc3, 0xa867df55, 0x316e8eef, 0x4669be79,
   0xcb61b38c, 0xbc66831a, 0x256fd2a0, 0x5268e236, 0xcc0c7795, 0xbb0b4703, 0x220216b9, 0x5505262f,
   0xc5ba3bbe, 0xb2bd0b28, 0x2bb45a92, 0x5cb36a04, 0xc2d7ffa7, 0xb5d0cf31, 0x2cd99e8b, 0x5bdeae1d,
   0x9b64c2b0, 0xec63f226, 0x756aa39c, 0x26d930a, 0x9c0906a9, 0xeb0e363f, 0x72076785, 0x5005713,
   0x95bf4a82, 0xe2b87a14, 0x7bb12bae, 0xcb61b38, 0x92d28e9b, 0xe5d5be0d, 0x7cdcefb7, 0xbdbdf21,
   0x86d3d2d4, 0xf1d4e242, 0x68ddb3f8, 0x1fda836e, 0x81be16cd, 0xf6b9265b, 0x6fb077e1, 0x18b74777,
   0x88085ae6, 0xff0f6a70, 0x66063bca, 0x11010b5c, 0x8f659eff, 0xf862ae69, 0x616bffd3, 0x166ccf45,
   0xa00ae278, 0xd70dd2ee, 0x4e048354, 0x3903b3c2, 0xa7672661, 0xd06016f7, 0x4969474d, 0x3e6e77db,
   0xaed16a4a, 0xd9d65adc, 0x40df0b66, 0x37d83bf0, 0xa9bcae53, 0xdebb9ec5, 0x47b2cf7f, 0x30b5ffe9,
   0xbdbdf21c, 0xcabac28a, 0x53b39330, 0x24b4a3a6, 0xbad03605, 0xcdd70693, 0x54de5729, 0x23d967bf,
   0xb3667a2e, 0xc4614ab8, 0x5d681b02, 0x2a6f2b94, 0xb40bbe37, 0xc30c8ea1, 0x5a05df1b, 0x2d02ef8d]"

fun crc32_loop :: "u32 \<Rightarrow> u8 list \<Rightarrow> u32" where
  "crc32_loop crc [] = crc"
| "crc32_loop crc (p # ps) =
     crc32_loop (crc32_tab ! unat ((crc XOR ucast p) AND 0xff) XOR drop_bit 8 crc) ps"

definition crc32 :: "u8 list \<Rightarrow> u32" where
  "crc32 buf = crc32_loop (NOT 0) buf XOR NOT 0"

section \<open>The bitwise reference\<close>

definition crc_bit :: "u32 \<Rightarrow> u32" where
  "crc_bit c = (if bit c 0 then drop_bit 1 c XOR 0xEDB88320 else drop_bit 1 c)"

definition crc_byte :: "u32 \<Rightarrow> u32" where
  "crc_byte c = (crc_bit ^^ 8) c"

definition crc32_ref :: "u8 list \<Rightarrow> u32" where
  "crc32_ref buf = foldl (\<lambda>c p. crc_byte (c XOR ucast p)) (NOT 0) buf XOR NOT 0"

lemma crc_byte_unfold:
  "crc_byte c = crc_bit (crc_bit (crc_bit (crc_bit (crc_bit (crc_bit (crc_bit (crc_bit c)))))))"
  by (simp add: crc_byte_def numeral_eq_Suc)

lemma crc_bit_xor: "crc_bit (a XOR b) = crc_bit a XOR crc_bit b"
  by (rule bit_word_eqI) (auto simp: crc_bit_def bit_simps)

lemma crc_byte_xor: "crc_byte (a XOR b) = crc_byte a XOR crc_byte b"
  by (simp add: crc_byte_unfold crc_bit_xor)

lemma of_nat_add_pow2:
  assumes "i < 2 ^ k"
  shows "(of_nat (2 ^ k + i) :: 'a::len word) = of_nat (2 ^ k) XOR of_nat i"
proof -
  have "(of_nat (2 ^ k) AND of_nat i :: 'a word) = 0"
  proof (rule bit_word_eqI)
    fix n
    have "\<not> bit i k"
      using assms by (metis bit_take_bit_iff less_irrefl take_bit_nat_eq_self)
    then show "bit (of_nat (2 ^ k) AND of_nat i :: 'a word) n \<longleftrightarrow> bit (0 :: 'a word) n"
      by (auto simp: bit_simps)
  qed
  then show ?thesis by (simp add: disjunctive_add_eq_xor)
qed

text \<open>The table doubles: the upper half is the lower half changed by one basis entry.\<close>

lemma crc_table_double:
  "map (\<lambda>i. crc_byte (of_nat i)) [0..<2 ^ Suc k] =
     (let t = map (\<lambda>i. crc_byte (of_nat i)) [0..<2 ^ k]
      in t @ map (\<lambda>x. crc_byte (2 ^ k) XOR x) t)"
proof -
  have "[0..<2 ^ Suc k] = [0..<2 ^ k] @ map (\<lambda>i. 2 ^ k + i) [0..<2 ^ k]"
    using upt_add_eq_append [of 0 "2 ^ k" "2 ^ k"] map_add_upt [of "2 ^ k" "2 ^ k"]
    by (simp add: mult_2 add.commute)
  moreover have "crc_byte (of_nat (2 ^ k + i)) = crc_byte (2 ^ k) XOR crc_byte (of_nat i)"
    if "i < 2 ^ k" for i
    using of_nat_add_pow2 [OF that, where 'a = 32] crc_byte_xor by simp
  ultimately show ?thesis by (simp add: Let_def del: of_nat_add)
qed

lemma crc_basis:
  "crc_byte 0 = 0" "crc_byte 1 = 0x77073096" "crc_byte 2 = 0xEE0E612C"
  "crc_byte 4 = 0x76DC419" "crc_byte 8 = 0xEDB8832" "crc_byte 16 = 0x1DB71064"
  "crc_byte 32 = 0x3B6E20C8" "crc_byte 64 = 0x76DC4190" "crc_byte 128 = 0xEDB88320"
  by (simp_all add: crc_byte_unfold crc_bit_def bit_0)

lemma crc_table_8:
  "map (\<lambda>i. crc_byte (of_nat i)) [0..<8] = take 8 crc32_tab"
  using crc_table_double [of 0] crc_table_double [of 1] crc_table_double [of 2]
  by (simp add: crc_basis crc32_tab_def Let_def)

lemma crc_table_64:
  "map (\<lambda>i. crc_byte (of_nat i)) [0..<64] = take 64 crc32_tab"
  using crc_table_double [of 3] crc_table_double [of 4] crc_table_double [of 5]
  by (simp add: crc_basis crc_table_8 crc32_tab_def Let_def)

lemma crc32_tab_entries: "crc32_tab = map (\<lambda>i. crc_byte (of_nat i)) [0..<256]"
  using crc_table_double [of 6] crc_table_double [of 7]
  by (simp add: crc_basis crc_table_64 crc32_tab_def Let_def)

section \<open>The step of the loop\<close>

lemma crc_bit_shift: "\<not> bit x 0 \<Longrightarrow> crc_bit x = drop_bit 1 x"
  by (simp add: crc_bit_def)

lemma crc_byte_shift:
  assumes "\<And>n. n < 8 \<Longrightarrow> \<not> bit x n"
  shows "crc_byte x = drop_bit 8 x"
proof -
  have "(crc_bit ^^ k) x = drop_bit k x" if "k \<le> 8" for k
    using that
  proof (induction k)
    case (Suc k)
    then have "\<not> bit (drop_bit k x) 0" using assms [of k] by (simp add: bit_simps)
    with Suc show ?case by (simp add: crc_bit_shift)
  qed simp
  then show ?thesis by (simp add: crc_byte_def)
qed

lemma crc_byte_split: "crc_byte x = crc_byte (x AND 0xFF) XOR drop_bit 8 x"
proof -
  have ff: "bit (0xFF :: u32) n \<longleftrightarrow> n < 8" for n
  proof -
    have "(0xFF :: u32) = mask 8" by (simp add: mask_eq_exp_minus_1)
    then show ?thesis by (simp only: bit_mask_iff) auto
  qed
  have low: "\<not> bit (x AND NOT 0xFF) n" if "n < 8" for n
    using that by (simp only: bit_and_iff bit_not_iff ff) simp
  have "x = (x AND 0xFF) XOR (x AND NOT 0xFF)"
    by (rule bit_word_eqI) (auto simp: bit_simps)
  then have "crc_byte x = crc_byte (x AND 0xFF) XOR crc_byte (x AND NOT 0xFF)"
    by (metis crc_byte_xor)
  also have "crc_byte (x AND NOT 0xFF) = drop_bit 8 (x AND NOT 0xFF)"
    by (rule crc_byte_shift) (rule low)
  also have "\<dots> = drop_bit 8 x"
  proof (rule bit_word_eqI)
    fix n
    show "bit (drop_bit 8 (x AND NOT 0xFF)) n \<longleftrightarrow> bit (drop_bit 8 x) n"
      using bit_imp_le_length [of x "8 + n"]
      by (simp only: bit_drop_bit_eq comp_def bit_and_iff bit_not_iff ff) auto
  qed
  finally show ?thesis .
qed

lemma crc32_step:
  "crc32_tab ! unat (x AND 0xFF) XOR drop_bit 8 x = crc_byte x"
proof -
  have "x AND 0xFF \<le> 0xFF" by (rule word_and_le1)
  then have "unat (x AND 0xFF) < 256" by (simp add: word_le_nat_alt)
  then have "crc32_tab ! unat (x AND 0xFF) = crc_byte (x AND 0xFF)"
    unfolding crc32_tab_entries by simp
  then show ?thesis using crc_byte_split [of x] by simp
qed

lemma crc32_loop_foldl:
  "crc32_loop c ps = foldl (\<lambda>c p. crc_byte (c XOR ucast p)) c ps"
proof (induction ps arbitrary: c)
  case (Cons p ps)
  have "drop_bit 8 (c XOR ucast p) = drop_bit 8 c"
    by (rule bit_word_eqI) (auto simp: bit_simps dest: bit_imp_le_length)
  with crc32_step [of "c XOR ucast p"] Cons show ?case by simp
qed simp

text \<open>C37: the table-driven checksum is the bitwise reference algorithm on every input.\<close>

theorem crc32_is_reference: "crc32 buf = crc32_ref buf"
  by (simp add: crc32_def crc32_ref_def crc32_loop_foldl)

section \<open>Error detection\<close>

lemma crc_bit_top: "bit (crc_bit c) 31 \<longleftrightarrow> bit c 0"
  by (auto simp: crc_bit_def bit_simps dest: bit_imp_le_length)

lemma word_xor_cancel: "a XOR d = b XOR d \<longleftrightarrow> a = b" for a b d :: "'a::len word"
  by (metis xor.assoc xor.right_neutral xor_self_eq)

lemma word_xor_cancel_left: "d XOR a = d XOR b \<longleftrightarrow> a = b" for a b d :: "'a::len word"
  by (metis word_xor_cancel xor.commute)

lemma crc_bit_inj: "crc_bit a = crc_bit b \<longleftrightarrow> a = b"
proof
  assume eq: "crc_bit a = crc_bit b"
  then have 0: "bit a 0 \<longleftrightarrow> bit b 0" using crc_bit_top by metis
  with eq have "drop_bit 1 a = drop_bit 1 b"
    by (cases "bit a 0") (simp_all only: crc_bit_def if_True if_False word_xor_cancel simp_thms)
  then have "bit a (Suc n) \<longleftrightarrow> bit b (Suc n)" for n
    by (metis bit_drop_bit_eq comp_apply plus_1_eq_Suc)
  with 0 show "a = b" by (metis bit_word_eqI not0_implies_Suc)
qed simp

lemma crc_byte_pow_inj: "(crc_byte ^^ n) a = (crc_byte ^^ n) b \<longleftrightarrow> a = b"
  by (induction n arbitrary: a b) (simp_all add: crc_byte_unfold crc_bit_inj)

lemma crc_byte_push: "\<forall>n\<ge>24. \<not> bit y n \<Longrightarrow> crc_byte (push_bit 8 y) = y"
proof -
  assume top: "\<forall>n\<ge>24. \<not> bit y n"
  have "crc_byte (push_bit 8 y) = drop_bit 8 (push_bit 8 y)"
    by (rule crc_byte_shift) (simp add: bit_simps)
  also have "\<dots> = y"
    using top by (intro bit_word_eqI) (auto simp: bit_simps not_le [symmetric])
  finally show ?thesis .
qed

lemma crc_foldl_le_word:
  assumes "length ps \<le> 4"
  shows "crc32_loop c ps = (crc_byte ^^ length ps) (c XOR le_word ps)"
  using assms
proof (induction ps arbitrary: c)
  case (Cons p ps)
  let ?w = "le_word ps :: u32"
  have "\<forall>n\<ge>24. \<not> bit ?w n"
    using Cons.prems by (auto simp: bit_le_word)
  then have push: "crc_byte (push_bit 8 ?w) = ?w" by (rule crc_byte_push)
  have "c XOR le_word (p # ps) = (c XOR ucast p) XOR push_bit 8 ?w"
    by (rule bit_word_eqI) (auto simp: bit_simps dest: bit_imp_le_length)
  then have "crc_byte (c XOR le_word (p # ps)) = crc_byte (c XOR ucast p) XOR ?w"
    by (simp add: crc_byte_xor push del: le_word.simps)
  with Cons show ?case
    by (simp add: crc32_loop_foldl funpow_swap1 del: le_word.simps)
qed simp

lemma crc32_loop_append: "crc32_loop c (xs @ ys) = crc32_loop (crc32_loop c xs) ys"
  by (simp add: crc32_loop_foldl)

lemma crc32_loop_inj: "crc32_loop c ys = crc32_loop d ys \<longleftrightarrow> c = d"
  using crc_byte_pow_inj [of 1]
  by (induction ys arbitrary: c d) (auto simp: crc32_loop_foldl word_xor_cancel)

text \<open>Every error burst is detected: two messages that differ only inside a window of at
  most four bytes have different checksums.\<close>

theorem crc32_detects_bursts:
  assumes "length a = length b" and "length a \<le> 4"
  shows "crc32 (xs @ a @ ys) = crc32 (xs @ b @ ys) \<longleftrightarrow> a = b"
proof -
  define c where "c = crc32_loop (NOT 0) xs"
  have "crc32 (xs @ a @ ys) = crc32 (xs @ b @ ys) \<longleftrightarrow> crc32_loop c a = crc32_loop c b"
    by (simp only: crc32_def word_xor_cancel crc32_loop_append crc32_loop_inj c_def)
  also have "\<dots> \<longleftrightarrow> (le_word a :: u32) = le_word b"
    using crc_foldl_le_word [of a c] crc_foldl_le_word [of b c] assms
    by (simp only: crc_byte_pow_inj word_xor_cancel_left)
  also have "\<dots> \<longleftrightarrow> a = b"
  proof
    assume eq: "(le_word a :: u32) = le_word b"
    have "le_bytes (length a) (le_word a :: u32) = a"
      by (rule le_bytes_le_word) (use assms in simp)
    moreover have "le_bytes (length b) (le_word b :: u32) = b"
      by (rule le_bytes_le_word) (use assms in simp)
    ultimately show "a = b" using eq assms(1) by metis
  qed simp
  finally show ?thesis .
qed

theorem crc32_detects_bursts_witness:
  "crc32 ([1, 2] @ [0x10, 0x80] @ [7]) \<noteq> crc32 ([1, 2] @ [0x11, 0x80] @ [7])"
  using crc32_detects_bursts [of "[0x10, 0x80]" "[0x11, 0x80]" "[1, 2]" "[7]"] by simp

end
