(* ===== verification/Circular_Buffer.thy ===== *)
theory Circular_Buffer
  imports Prelude
begin

text \<open>
  circular\_buffer.c, the ring that holds multicast frames waiting for their slot. The
  contract its clients rely on is the locale \<open>bounded_fifo\<close> (a list of at most
  \<open>capacity\<close> elements, oldest first); the ring is shown to implement it, with an
  abstraction that reads the elements from \<open>tail\<close> up to \<open>head\<close>.
\<close>

named_theorems ring_defs \<open>definitions of the ring operations\<close>

section \<open>The ring\<close>

record 'a circular_buf =
  buffer :: "'a list"
  head :: nat
  tail :: nat
  max_size :: nat
  full :: bool

definition advance_pointer :: "'a circular_buf \<Rightarrow> 'a circular_buf" where
  [ring_defs]: "advance_pointer c =
    (let c1 = (if full c then c\<lparr>tail := (tail c + 1) mod max_size c\<rparr> else c);
         c2 = c1\<lparr>head := (head c1 + 1) mod max_size c1\<rparr>
     in c2\<lparr>full := (head c2 = tail c2)\<rparr>)"

definition retreat_pointer :: "'a circular_buf \<Rightarrow> 'a circular_buf" where
  [ring_defs]: "retreat_pointer c =
     c\<lparr>full := False, tail := (tail c + 1) mod max_size c\<rparr>"

definition circular_buf_reset :: "'a circular_buf \<Rightarrow> 'a circular_buf" where
  [ring_defs]: "circular_buf_reset c = c\<lparr>head := 0, tail := 0, full := False\<rparr>"

definition circular_buf_size :: "'a circular_buf \<Rightarrow> nat" where
  [ring_defs]: "circular_buf_size c =
     (if \<not> full c then
        (if head c \<ge> tail c then head c - tail c else max_size c + head c - tail c)
      else max_size c)"

definition circular_buf_capacity :: "'a circular_buf \<Rightarrow> nat" where
  [ring_defs]: "circular_buf_capacity c = max_size c"

definition circular_buf_empty :: "'a circular_buf \<Rightarrow> bool" where
  [ring_defs]: "circular_buf_empty c \<longleftrightarrow> \<not> full c \<and> head c = tail c"

definition circular_buf_full :: "'a circular_buf \<Rightarrow> bool" where
  [ring_defs]: "circular_buf_full c \<longleftrightarrow> full c"

text \<open>
  \<open>None\<close> is the failed assertion \<open>assert(size)\<close>; \<open>heap\<close> gives the uninitialised array
  \<open>malloc\<close> returns.
\<close>

definition circular_buf_init :: "(nat \<Rightarrow> 'a) \<Rightarrow> nat \<Rightarrow> 'a circular_buf option" where
  [ring_defs]: "circular_buf_init heap n =
     (if n = 0 then None
      else let c = circular_buf_reset
                 \<lparr>buffer = map heap [0..<n], head = 0, tail = 0, max_size = n, full = False\<rparr>
           in if circular_buf_empty c then Some c else None)"

definition circular_buf_put :: "'a circular_buf \<Rightarrow> 'a \<Rightarrow> 'a circular_buf" where
  [ring_defs]: "circular_buf_put c x =
     advance_pointer (c\<lparr>buffer := (buffer c)[head c := x]\<rparr>)"

definition circular_buf_put2 :: "'a circular_buf \<Rightarrow> 'a \<Rightarrow> int \<times> 'a circular_buf" where
  [ring_defs]: "circular_buf_put2 c x =
     (if \<not> circular_buf_full c
      then (0, advance_pointer (c\<lparr>buffer := (buffer c)[head c := x]\<rparr>))
      else (-1, c))"

text \<open>The value stored through \<open>data\<close> is the second component, \<open>None\<close> when nothing is.\<close>

definition circular_buf_get ::
  "'a circular_buf \<Rightarrow> bool \<Rightarrow> int \<times> 'a option \<times> 'a circular_buf" where
  [ring_defs]: "circular_buf_get c peek =
     (if \<not> circular_buf_empty c
      then (0, Some (buffer c ! tail c), if \<not> peek then retreat_pointer c else c)
      else (-1, None, c))"

section \<open>The contract: a bounded first-in first-out list\<close>

locale bounded_fifo =
  fixes put :: "'q \<Rightarrow> 'a \<Rightarrow> 'q"
    and get :: "'q \<Rightarrow> 'a option \<times> 'q"
    and is_empty :: "'q \<Rightarrow> bool"
    and is_full :: "'q \<Rightarrow> bool"
    and capacity :: "'q \<Rightarrow> nat"
    and contents :: "'q \<Rightarrow> 'a list"
    and invar :: "'q \<Rightarrow> bool"
  assumes put_invar: "invar q \<Longrightarrow> invar (put q x)"
    and put_capacity: "invar q \<Longrightarrow> capacity (put q x) = capacity q"
    and put_contents: "invar q \<Longrightarrow> contents (put q x) =
      (if length (contents q) < capacity q then contents q @ [x] else tl (contents q) @ [x])"
    and get_invar: "invar q \<Longrightarrow> invar (snd (get q))"
    and get_capacity: "invar q \<Longrightarrow> capacity (snd (get q)) = capacity q"
    and get_none: "invar q \<Longrightarrow> contents q = [] \<Longrightarrow> get q = (None, q)"
    and get_some: "invar q \<Longrightarrow> contents q = x # xs \<Longrightarrow>
      fst (get q) = Some x \<and> contents (snd (get q)) = xs"
    and empty_iff: "invar q \<Longrightarrow> is_empty q \<longleftrightarrow> contents q = []"
    and full_iff: "invar q \<Longrightarrow> is_full q \<longleftrightarrow> length (contents q) = capacity q"
    and bound: "invar q \<Longrightarrow> length (contents q) \<le> capacity q"
    and capacity_pos: "invar q \<Longrightarrow> 0 < capacity q"
begin

lemma put_all_invar: "invar q \<Longrightarrow> invar (foldl put q xs) \<and> capacity (foldl put q xs) = capacity q"
  by (induction xs arbitrary: q) (auto simp: put_invar put_capacity)

lemma put_drop:
  "invar q \<Longrightarrow> contents (put q x) =
     drop (length (contents q) + 1 - capacity q) (contents q @ [x])"
  using bound [of q] capacity_pos [of q]
  by (cases "contents q") (auto simp: put_contents)

text \<open>However many elements are put, the newest \<open>capacity\<close> ones are kept, in order.\<close>

lemma put_all_contents:
  "invar q \<Longrightarrow> contents (foldl put q xs) =
     drop (length (contents q) + length xs - capacity q) (contents q @ xs)"
proof (induction xs rule: rev_induct)
  case Nil
  then show ?case using bound [of q] by simp
next
  case (snoc x xs)
  let ?q = "foldl put q xs" and ?l = "contents q"
  have inv: "invar ?q" "capacity ?q = capacity q" using put_all_invar [OF snoc.prems] by auto
  have IH: "contents ?q = drop (length ?l + length xs - capacity q) (?l @ xs)"
    by (rule snoc.IH [OF snoc.prems])
  let ?n = "length ?l + length xs" and ?c = "capacity q"
  have "contents (put ?q x) = drop (length (contents ?q) + 1 - ?c) (contents ?q @ [x])"
    using put_drop [OF inv(1)] inv(2) by simp
  also have "\<dots> = drop (?n + 1 - ?c) (?l @ xs @ [x])"
  proof (cases "?n < ?c")
    case True
    then show ?thesis by (simp add: IH)
  next
    case False
    then have "length (contents ?q) = ?c" by (simp add: IH)
    moreover have "contents ?q @ [x] = drop (?n - ?c) (?l @ xs @ [x])"
      using False capacity_pos [OF snoc.prems] by (simp add: IH)
    moreover have "1 + (?n - ?c) = ?n + 1 - ?c" using False by simp
    ultimately show ?thesis by (simp only: drop_drop) (simp del: drop_append)
  qed
  finally show ?case by simp
qed

primrec drain :: "nat \<Rightarrow> 'q \<Rightarrow> 'a list" where
  "drain 0 q = []"
| "drain (Suc n) q = (case get q of (None, q') \<Rightarrow> [] | (Some x, q') \<Rightarrow> x # drain n q')"

lemma drain_contents: "invar q \<Longrightarrow> drain n q = take n (contents q)"
proof (induction n arbitrary: q)
  case (Suc n)
  show ?case
  proof (cases "contents q")
    case Nil
    with Suc.prems show ?thesis by (simp add: get_none)
  next
    case (Cons x xs)
    obtain q' where q': "get q = (Some x, q')" "contents q' = xs" "invar q'"
      using get_some [OF Suc.prems Cons] get_invar [OF Suc.prems]
      by (metis prod.collapse snd_conv)
    then show ?thesis using Suc.IH [of q'] Cons by simp
  qed
qed simp

text \<open>Elements leave in the order they came in.\<close>

lemma fifo_order:
  "invar q \<Longrightarrow> contents q = [] \<Longrightarrow> length xs \<le> capacity q \<Longrightarrow>
   drain (length xs) (foldl put q xs) = xs"
  using drain_contents put_all_invar [of q xs] put_all_contents [of q xs] by simp

end

section \<open>The ring implements the contract\<close>

definition ring_inv :: "'a circular_buf \<Rightarrow> bool" where
  "ring_inv c \<longleftrightarrow> 0 < max_size c \<and> length (buffer c) = max_size c \<and>
     head c < max_size c \<and> tail c < max_size c \<and> (full c \<longrightarrow> head c = tail c)"

definition ring_list :: "'a circular_buf \<Rightarrow> 'a list" where
  "ring_list c =
     map (\<lambda>i. buffer c ! ((tail c + i) mod max_size c)) [0..<circular_buf_size c]"

definition ring_get :: "'a circular_buf \<Rightarrow> 'a option \<times> 'a circular_buf" where
  "ring_get c = (case circular_buf_get c False of (r, x, c') \<Rightarrow> (x, c'))"

lemma length_ring_list [simp]: "length (ring_list c) = circular_buf_size c"
  by (simp add: ring_list_def)

lemma ring_size:
  assumes "ring_inv c"
  shows "head c = (tail c + circular_buf_size c) mod max_size c"
    and "circular_buf_size c \<le> max_size c"
    and "full c \<longleftrightarrow> circular_buf_size c = max_size c"
  using assms
  by (auto simp: ring_inv_def circular_buf_size_def mod_add_self2 le_mod_geq)

lemma ring_size_eqI:
  assumes "0 < max_size c" and "tail c < max_size c" and "\<not> full c" and "n < max_size c"
    and "head c = (tail c + n) mod max_size c"
  shows "circular_buf_size c = n"
proof (cases "tail c + n < max_size c")
  case True
  with assms show ?thesis by (simp add: circular_buf_size_def)
next
  case False
  with assms have h: "head c = tail c + n - max_size c" by (simp add: le_mod_geq)
  show ?thesis using False assms(1-4) unfolding circular_buf_size_def h by auto
qed

lemma mod_index_inj:
  assumes "(t + i) mod m = (t + j) mod m" and "i < m" and "j < (m::nat)"
  shows "i = j"
proof -
  have "i mod m = j mod m" using assms(1) by (simp add: nat_mod_eq_iff)
  with assms show ?thesis by simp
qed

lemma put_inv: "ring_inv c \<Longrightarrow> ring_inv (circular_buf_put c x)"
  by (auto simp: ring_inv_def circular_buf_put_def advance_pointer_def Let_def)

lemma put_max [simp]: "max_size (circular_buf_put c x) = max_size c"
  by (simp add: circular_buf_put_def advance_pointer_def Let_def)

lemma put_not_full:
  assumes "ring_inv c" and "\<not> full c"
  shows "ring_list (circular_buf_put c x) = ring_list c @ [x]"
proof -
  let ?c = "circular_buf_put c x" and ?m = "max_size c" and ?n = "circular_buf_size c"
  note sz = ring_size [OF assms(1)]
  from sz assms(2) have n: "?n < ?m" by linarith
  have fields: "buffer ?c = (buffer c)[head c := x]" "tail ?c = tail c"
    "head ?c = (head c + 1) mod ?m" "full ?c \<longleftrightarrow> (head c + 1) mod ?m = tail c"
    using assms(2) by (auto simp: circular_buf_put_def advance_pointer_def Let_def)
  have h: "head ?c = (tail c + (?n + 1)) mod ?m"
    using sz(1) by (simp add: fields mod_Suc_eq)
  have size: "circular_buf_size ?c = ?n + 1"
  proof (cases "?n + 1 = ?m")
    case True
    then have "head ?c = tail c" using h assms(1) by (simp add: ring_inv_def)
    then have "full ?c" using fields by simp
    then show ?thesis using True by (simp add: circular_buf_size_def)
  next
    case False
    have "\<not> full ?c"
    proof
      assume "full ?c"
      then have "(tail c + (?n + 1)) mod ?m = (tail c + 0) mod ?m"
        using fields h assms(1) by (simp add: ring_inv_def)
      from mod_index_inj [OF this] n False show False by simp
    qed
    with False n h assms show ?thesis
      by (intro ring_size_eqI) (auto simp: fields ring_inv_def)
  qed
  have "buffer ?c ! ((tail c + i) mod ?m) = buffer c ! ((tail c + i) mod ?m)" if "i < ?n" for i
  proof -
    have "(tail c + i) mod ?m \<noteq> head c"
      using mod_index_inj [of "tail c" i ?m ?n] sz(1) that n by auto
    then show ?thesis by (simp add: fields)
  qed
  moreover have "buffer ?c ! ((tail c + ?n) mod ?m) = x"
    using sz(1) assms(1) by (simp add: fields ring_inv_def)
  ultimately show ?thesis
    unfolding ring_list_def size by (simp add: fields)
qed

lemma put_full:
  assumes "ring_inv c" and "full c"
  shows "ring_list (circular_buf_put c x) = tl (ring_list c) @ [x]"
proof -
  let ?c = "circular_buf_put c x" and ?m = "max_size c"
  from assms have m: "0 < ?m" "head c = tail c" "tail c < ?m" by (auto simp: ring_inv_def)
  have fields: "buffer ?c = (buffer c)[tail c := x]" "tail ?c = (tail c + 1) mod ?m" "full ?c"
    using assms m by (auto simp: circular_buf_put_def advance_pointer_def Let_def)
  then have size: "circular_buf_size ?c = ?m" "circular_buf_size c = ?m"
    using assms by (simp_all add: circular_buf_size_def)
  have idx: "((tail c + 1) mod ?m + i) mod ?m = (tail c + Suc i) mod ?m" for i
    by (simp add: mod_simps)
  have "buffer ?c ! ((tail c + Suc i) mod ?m) = buffer c ! ((tail c + Suc i) mod ?m)"
    if "Suc i < ?m" for i
  proof -
    have "(tail c + Suc i) mod ?m \<noteq> tail c"
      using mod_index_inj [of "tail c" "Suc i" ?m 0] that m by auto
    then show ?thesis by (simp add: fields)
  qed
  note old = this
  have new: "buffer ?c ! ((tail c + Suc (?m - 1)) mod ?m) = x"
    using m assms(1) by (simp add: fields ring_inv_def)
  have elem: "buffer ?c ! ((tail c + Suc i) mod ?m) =
      (if Suc i < ?m then buffer c ! ((tail c + Suc i) mod ?m) else x)" if "i < ?m" for i
  proof (cases "Suc i < ?m")
    case False
    with that m(1) have "i = ?m - 1" by linarith
    with new False show ?thesis by simp
  qed (simp only: if_True old)
  show ?thesis
  proof (rule nth_equalityI)
    show "length (ring_list ?c) = length (tl (ring_list c) @ [x])" using size m by simp
  next
    fix i assume "i < length (ring_list ?c)"
    then have i: "i < ?m" using size by simp
    then have "ring_list ?c ! i = buffer ?c ! ((tail c + Suc i) mod ?m)"
      unfolding ring_list_def size fields by (simp add: idx [simplified])
    also have "\<dots> = (tl (ring_list c) @ [x]) ! i"
    proof -
      have "i < ?m - 1 \<longleftrightarrow> Suc i < ?m" by linarith
      then show ?thesis
        unfolding elem [OF i] using i size(2) by (auto simp: ring_list_def nth_append nth_tl)
    qed
    finally show "ring_list ?c ! i = (tl (ring_list c) @ [x]) ! i" .
  qed
qed

lemma get_empty: "ring_inv c \<Longrightarrow> circular_buf_empty c \<longleftrightarrow> ring_list c = []"
  unfolding length_0_conv [symmetric, of "ring_list c"] length_ring_list
  by (auto simp: circular_buf_empty_def circular_buf_size_def ring_inv_def)

lemma get_inv: "ring_inv c \<Longrightarrow> ring_inv (snd (ring_get c))"
  by (auto simp: ring_get_def circular_buf_get_def retreat_pointer_def ring_inv_def)

lemma get_max [simp]: "max_size (snd (ring_get c)) = max_size c"
  by (simp add: ring_get_def circular_buf_get_def retreat_pointer_def)

lemma get_cons:
  assumes "ring_inv c" and "ring_list c = x # xs"
  shows "fst (ring_get c) = Some x \<and> ring_list (snd (ring_get c)) = xs"
proof -
  let ?m = "max_size c" and ?n = "circular_buf_size c" and ?c = "retreat_pointer c"
  from assms have ne: "\<not> circular_buf_empty c" by (simp add: get_empty)
  have n: "0 < ?n" "?n \<le> ?m"
    using assms(2) length_ring_list [of c] ring_size(2) [OF assms(1)] by simp_all
  have fields: "buffer ?c = buffer c" "tail ?c = (tail c + 1) mod ?m" "\<not> full ?c"
    "head ?c = head c" "max_size ?c = ?m" by (simp_all add: retreat_pointer_def)
  obtain k where k: "?n = Suc k" using n(1) gr0_conv_Suc by blast
  have "head ?c = ((tail c + 1) mod ?m + (?n - 1)) mod ?m"
    using ring_size(1) [OF assms(1)] unfolding k fields by (simp add: mod_simps)
  then have size: "circular_buf_size ?c = ?n - 1"
    using assms(1) n by (intro ring_size_eqI) (auto simp: fields ring_inv_def)
  have "ring_list ?c = tl (ring_list c)"
  proof (rule nth_equalityI)
    show "length (ring_list ?c) = length (tl (ring_list c))" by (simp add: size)
  next
    fix i assume "i < length (ring_list ?c)"
    then have "i < ?n - 1" and "Suc i < ?n" by (simp_all add: size)
    then show "ring_list ?c ! i = tl (ring_list c) ! i"
      by (simp add: ring_list_def size fields nth_tl mod_simps)
  qed
  moreover have "ring_list c ! 0 = buffer c ! tail c"
    using assms(1) n(1) by (simp add: ring_list_def ring_inv_def)
  ultimately show ?thesis
    using ne assms(2) by (simp add: ring_get_def circular_buf_get_def)
qed

interpretation ring: bounded_fifo circular_buf_put ring_get circular_buf_empty
  circular_buf_full circular_buf_capacity ring_list ring_inv
proof
  fix q :: "'a circular_buf" and x xs
  assume q: "ring_inv q"
  note sz = ring_size [OF q]
  show "ring_inv (circular_buf_put q x)" by (rule put_inv [OF q])
  show "circular_buf_capacity (circular_buf_put q x) = circular_buf_capacity q"
    by (simp add: circular_buf_capacity_def)
  show "ring_list (circular_buf_put q x) =
    (if length (ring_list q) < circular_buf_capacity q then ring_list q @ [x]
     else tl (ring_list q) @ [x])"
    using put_full [OF q] put_not_full [OF q] sz by (auto simp: circular_buf_capacity_def)
  show "ring_inv (snd (ring_get q))" by (rule get_inv [OF q])
  show "circular_buf_capacity (snd (ring_get q)) = circular_buf_capacity q"
    by (simp add: circular_buf_capacity_def)
  show "ring_list q = [] \<Longrightarrow> ring_get q = (None, q)"
    using get_empty [OF q] by (simp add: ring_get_def circular_buf_get_def)
  show "ring_list q = x # xs \<Longrightarrow> fst (ring_get q) = Some x \<and> ring_list (snd (ring_get q)) = xs"
    by (rule get_cons [OF q])
  show "circular_buf_empty q = (ring_list q = [])" by (rule get_empty [OF q])
  show "circular_buf_full q = (length (ring_list q) = circular_buf_capacity q)"
    using sz by (simp add: circular_buf_full_def circular_buf_capacity_def)
  show "length (ring_list q) \<le> circular_buf_capacity q"
    using sz by (simp add: circular_buf_capacity_def)
  show "0 < circular_buf_capacity q"
    using q by (simp add: ring_inv_def circular_buf_capacity_def)
qed

lemma circular_buf_init_inv:
  "circular_buf_init heap n = Some c \<Longrightarrow> ring_inv c \<and> ring_list c = [] \<and> max_size c = n"
  by (auto simp: circular_buf_init_def circular_buf_reset_def ring_inv_def ring_list_def
      circular_buf_size_def circular_buf_empty_def split: if_splits)

section \<open>The correctness of the ring\<close>

text \<open>C40: after any sequence of puts into a fresh ring of size \<open>n\<close>, the ring holds the
  last \<open>n\<close> elements put, oldest first, and reading them out returns them in that order:
  overwriting drops exactly the oldest elements.\<close>

theorem ring_keeps_newest:
  assumes "circular_buf_init heap n = Some c"
  shows "ring_list (foldl circular_buf_put c xs) = drop (length xs - n) xs \<and>
    circular_buf_size (foldl circular_buf_put c xs) = min (length xs) n \<and>
    ring.drain n (foldl circular_buf_put c xs) = drop (length xs - n) xs"
proof -
  from circular_buf_init_inv [OF assms]
  have c: "ring_inv c" "ring_list c = []" "circular_buf_capacity c = n"
    by (auto simp: circular_buf_capacity_def)
  have l: "ring_list (foldl circular_buf_put c xs) = drop (length xs - n) xs"
    using ring.put_all_contents [OF c(1), of xs] c by simp
  then have "circular_buf_size (foldl circular_buf_put c xs) = min (length xs) n"
    unfolding length_ring_list [symmetric] l by simp
  then show ?thesis
    using l ring.drain_contents [OF ring.put_all_invar [THEN conjunct1, OF c(1)], of n xs] by simp
qed

theorem ring_keeps_newest_witness:
  "ring_list (foldl circular_buf_put (the (circular_buf_init (\<lambda>_. 0) 2)) [1, 2, 3::nat]) = [2, 3]"
proof -
  have i: "circular_buf_init (\<lambda>_. 0::nat) 2 = Some (the (circular_buf_init (\<lambda>_. 0) 2))"
    by (simp add: ring_defs)
  show ?thesis using ring_keeps_newest [OF i, of "[1, 2, 3]"] by simp
qed

text \<open>\<open>circular_buf_put2\<close> rejects an element exactly when the ring holds \<open>max\<close>
  elements, and then changes nothing; otherwise it appends it. \<open>circular_buf_get\<close> fails
  exactly on an empty ring; a peek returns the oldest element without removing it.\<close>

theorem ring_put2_get_spec:
  assumes "ring_inv c"
  shows "circular_buf_put2 c x =
      (if length (ring_list c) = max_size c then (-1, c) else (0, circular_buf_put c x)) \<and>
    (length (ring_list c) \<noteq> max_size c \<longrightarrow>
       ring_list (snd (circular_buf_put2 c x)) = ring_list c @ [x]) \<and>
    circular_buf_get c True =
      (case ring_list c of [] \<Rightarrow> (-1, None, c) | y # ys \<Rightarrow> (0, Some y, c)) \<and>
    (fst (circular_buf_get c False) = 0 \<longleftrightarrow> ring_list c \<noteq> [])"
proof -
  have full: "circular_buf_full c \<longleftrightarrow> length (ring_list c) = max_size c"
    using ring.full_iff [OF assms] by (simp add: circular_buf_capacity_def)
  have put: "circular_buf_put2 c x =
      (if length (ring_list c) = max_size c then (-1, c) else (0, circular_buf_put c x))"
    unfolding circular_buf_put2_def circular_buf_put_def full by simp
  have peek: "circular_buf_get c True =
      (case ring_list c of [] \<Rightarrow> (-1, None, c) | y # ys \<Rightarrow> (0, Some y, c))"
  proof (cases "ring_list c")
    case Nil
    with ring.empty_iff [OF assms] show ?thesis by (simp add: circular_buf_get_def)
  next
    case (Cons y ys)
    with ring.empty_iff [OF assms] get_cons [OF assms Cons] show ?thesis
      by (simp add: circular_buf_get_def ring_get_def)
  qed
  have "fst (circular_buf_get c False) = 0 \<longleftrightarrow> ring_list c \<noteq> []"
    using ring.empty_iff [OF assms] by (simp add: circular_buf_get_def)
  with put peek put_not_full [OF assms] full show ?thesis
    by (simp add: circular_buf_full_def)
qed

theorem ring_put2_get_spec_witness:
  "let c = circular_buf_put (the (circular_buf_init (\<lambda>_. 0) 1)) (7::nat)
   in circular_buf_put2 c 8 = (-1, c) \<and> circular_buf_get c True = (0, Some 7, c)"
proof -
  let ?c = "circular_buf_put (the (circular_buf_init (\<lambda>_. 0) 1)) (7::nat)"
  have "ring_inv ?c" and l: "ring_list ?c = [7]" and m: "max_size ?c = 1"
    by (simp_all add: ring_defs ring_inv_def ring_list_def)
  from ring_put2_get_spec [OF this(1), of 8] show ?thesis
    unfolding l m Let_def by (simp del: One_nat_def)
qed

end
