(* ===== verification/Hashmap.thy ===== *)
theory Hashmap
  imports Siphash
begin

text \<open>
  hashmap.c: open addressing with linear probing over at most \<open>MAX_CHAIN_LENGTH\<close> slots,
  SipHash as the hash, doubling and rehashing when the table is half full or a chain is too
  long. A key pointer is modelled by the bytes it points to (the clients never change them
  while the entry is in the map), a value pointer by an optional value (\<open>None\<close> for NULL).
  \<open>calloc_ok n\<close> tells whether an allocation of \<open>n\<close> elements succeeds. The mutual
  recursion of put and rehash is bounded by a fuel argument, shown sufficient below.
\<close>

section \<open>The data structure\<close>

datatype map_status = MAP_OK | MAP_OMEM | MAP_FULL | MAP_MISSING

fun map_status_code :: "map_status \<Rightarrow> int" where
  "map_status_code MAP_OK = 0"
| "map_status_code MAP_OMEM = -1"
| "map_status_code MAP_FULL = -2"
| "map_status_code MAP_MISSING = -3"

abbreviation INITIAL_SIZE :: nat where "INITIAL_SIZE \<equiv> 256"
abbreviation MAX_CHAIN_LENGTH :: nat where "MAX_CHAIN_LENGTH \<equiv> 8"
abbreviation siphash24_KEYBYTES :: nat where "siphash24_KEYBYTES \<equiv> 16"

record 'v hashmap_element =
  he_key :: "u8 list"
  he_in_use :: bool
  he_data :: "'v option"

record 'v hashmap =
  hm_table_size :: nat
  hm_size :: int
  hm_key_size :: nat
  hm_data :: "'v hashmap_element list"
  hm_seed :: "u8 list"

text \<open>An element as \<open>calloc\<close> or a removal leaves it.\<close>

definition blank :: "'v hashmap_element" where
  "blank = \<lparr>he_key = [], he_in_use = False, he_data = None\<rparr>"

definition hashmap_new :: "(nat \<Rightarrow> bool) \<Rightarrow> nat \<Rightarrow> 'v hashmap option" where
  "hashmap_new calloc_ok key_size =
     (if \<not> calloc_ok INITIAL_SIZE then None
      else Some \<lparr>hm_table_size = INITIAL_SIZE, hm_size = 0, hm_key_size = key_size,
                 hm_data = replicate INITIAL_SIZE blank,
                 hm_seed = replicate siphash24_KEYBYTES 0\<rparr>)"

section \<open>Hashing and probing\<close>

definition hashmap_hash_int :: "'v hashmap \<Rightarrow> u8 list \<Rightarrow> nat" where
  "hashmap_hash_int m key =
     (let hash = le_word (siphash24 (take (hm_key_size m) key) (hm_seed m)) :: u64
      in unat hash mod hm_table_size m)"

definition key_matches :: "'v hashmap \<Rightarrow> nat \<Rightarrow> u8 list \<Rightarrow> bool" where
  "key_matches m cur key \<longleftrightarrow>
     memcmp (take (hm_key_size m) (he_key (hm_data m ! cur))) (take (hm_key_size m) key) = 0"

text \<open>\<open>None\<close> stands for the result \<open>MAP_FULL\<close>.\<close>

fun hash_probe :: "nat \<Rightarrow> 'v hashmap \<Rightarrow> u8 list \<Rightarrow> nat \<Rightarrow> nat option" where
  "hash_probe 0 m key cur = None"
| "hash_probe (Suc n) m key cur =
     (if \<not> he_in_use (hm_data m ! cur) then Some cur
      else if he_in_use (hm_data m ! cur) \<and> key_matches m cur key then Some cur
      else hash_probe n m key ((cur + 1) mod hm_table_size m))"

definition hashmap_hash :: "'v hashmap \<Rightarrow> u8 list \<Rightarrow> nat option" where
  "hashmap_hash m key =
     (if hm_size m \<ge> int (hm_table_size m div 2) then None
      else hash_probe MAX_CHAIN_LENGTH m key (hashmap_hash_int m key))"

section \<open>Put and rehash\<close>

definition set_slot :: "'v hashmap \<Rightarrow> nat \<Rightarrow> u8 list \<Rightarrow> 'v option \<Rightarrow> 'v hashmap" where
  "set_slot m index key val =
     m\<lparr>hm_data := (hm_data m)[index := \<lparr>he_key = key, he_in_use = True, he_data = val\<rparr>],
       hm_size := hm_size m + 1\<rparr>"

definition new_table :: "'v hashmap \<Rightarrow> 'v hashmap" where
  "new_table m =
     m\<lparr>hm_data := replicate (2 * hm_table_size m) blank,
       hm_table_size := 2 * hm_table_size m, hm_size := 0\<rparr>"

text \<open>\<open>None\<close> as a result means that the fuel was not enough.\<close>

function (sequential)
  hashmap_put :: "nat \<Rightarrow> (nat \<Rightarrow> bool) \<Rightarrow> 'v hashmap \<Rightarrow> u8 list \<Rightarrow> 'v option \<Rightarrow>
    (map_status \<times> 'v hashmap) option" and
  hashmap_rehash :: "nat \<Rightarrow> (nat \<Rightarrow> bool) \<Rightarrow> 'v hashmap \<Rightarrow> (map_status \<times> 'v hashmap) option" and
  rehash_loop :: "nat \<Rightarrow> (nat \<Rightarrow> bool) \<Rightarrow> 'v hashmap_element list \<Rightarrow> 'v hashmap \<Rightarrow>
    (map_status \<times> 'v hashmap) option"
where
  "hashmap_put 0 calloc_ok m key val =
     (case hashmap_hash m key of
        Some index \<Rightarrow> Some (MAP_OK, set_slot m index key val)
      | None \<Rightarrow> None)"
| "hashmap_put (Suc fuel) calloc_ok m key val =
     (case hashmap_hash m key of
        Some index \<Rightarrow> Some (MAP_OK, set_slot m index key val)
      | None \<Rightarrow>
          (case hashmap_rehash fuel calloc_ok m of
             None \<Rightarrow> None
           | Some (status, m') \<Rightarrow>
               if status = MAP_OMEM then Some (MAP_OMEM, m')
               else hashmap_put fuel calloc_ok m' key val))"
| "hashmap_rehash fuel calloc_ok m =
     (if \<not> calloc_ok (2 * hm_table_size m) then Some (MAP_OMEM, m)
      else rehash_loop fuel calloc_ok (hm_data m) (new_table m))"
| "rehash_loop fuel calloc_ok [] m = Some (MAP_OK, m)"
| "rehash_loop fuel calloc_ok (e # es) m =
     (if \<not> he_in_use e then rehash_loop fuel calloc_ok es m
      else case hashmap_put fuel calloc_ok m (he_key e) (he_data e) of
             None \<Rightarrow> None
           | Some (status, m') \<Rightarrow>
               if status \<noteq> MAP_OK then Some (status, m')
               else rehash_loop fuel calloc_ok es m')"
  by pat_completeness auto
termination
  by (relation "inv_image (less_than <*lex*> less_than)
      (\<lambda>x. case x of Inl (f, _, _, _, _) \<Rightarrow> (f, 0)
        | Inr (Inl (f, _, m)) \<Rightarrow> (f, length (hm_data m) + 2)
        | Inr (Inr (f, _, es, _)) \<Rightarrow> (f, length es + 1))") auto

section \<open>Get, remove and the iterator\<close>

definition blank_slot :: "'v hashmap \<Rightarrow> nat \<Rightarrow> 'v hashmap" where
  "blank_slot m i = m\<lparr>hm_data := (hm_data m)[i := blank], hm_size := hm_size m - 1\<rparr>"

text \<open>The index of the element the probing of \<open>hashmap_get\<close> stops at.\<close>

fun get_probe :: "nat \<Rightarrow> 'v hashmap \<Rightarrow> u8 list \<Rightarrow> nat \<Rightarrow> nat option" where
  "get_probe 0 m key cur = None"
| "get_probe (Suc n) m key cur =
     (if he_in_use (hm_data m ! cur) \<and> key_matches m cur key then Some cur
      else get_probe n m key ((cur + 1) mod hm_table_size m))"

text \<open>The status, the value stored through \<open>arg\<close> and the map.\<close>

definition hashmap_get ::
  "'v hashmap \<Rightarrow> u8 list \<Rightarrow> bool \<Rightarrow> map_status \<times> 'v option \<times> 'v hashmap" where
  "hashmap_get m key remove =
     (case get_probe MAX_CHAIN_LENGTH m key (hashmap_hash_int m key) of
        Some cur \<Rightarrow>
          (MAP_OK, he_data (hm_data m ! cur), if remove then blank_slot m cur else m)
      | None \<Rightarrow> (MAP_MISSING, None, m))"

definition hashmap_length :: "'v hashmap option \<Rightarrow> int" where
  "hashmap_length opt = (case opt of Some m \<Rightarrow> hm_size m | None \<Rightarrow> 0)"

text \<open>An iterator is the map together with a current index, initially \<open>-1\<close>.\<close>

definition hashmap_it_new :: int where
  "hashmap_it_new = -1"

function it_scan :: "'v hashmap \<Rightarrow> int \<Rightarrow> int" where
  "it_scan m i =
     (if i < int (hm_table_size m) \<and> \<not> he_in_use (hm_data m ! nat i) then it_scan m (i + 1) else i)"
  by pat_completeness auto
termination
  by (relation "measure (\<lambda>(m, i). nat (int (hm_table_size m) - i))") auto

declare it_scan.simps [simp del]

definition hashmap_it_next ::
  "'v hashmap \<Rightarrow> int \<Rightarrow> map_status \<times> int \<times> (u8 list \<times> 'v option) option" where
  "hashmap_it_next m it =
     (let i = it_scan m (it + 1) in
      if i < int (hm_table_size m) then
        (MAP_OK, i, Some (he_key (hm_data m ! nat i), he_data (hm_data m ! nat i)))
      else (MAP_MISSING, i, None))"

definition hashmap_it_remove :: "'v hashmap \<Rightarrow> int \<Rightarrow> map_status \<times> 'v hashmap" where
  "hashmap_it_remove m it =
     (if it < 0 \<or> it \<ge> int (hm_table_size m) then (MAP_MISSING, m)
      else if \<not> he_in_use (hm_data m ! nat it) then (MAP_MISSING, m)
      else (MAP_OK, blank_slot m (nat it)))"

section \<open>Invariant and abstraction\<close>

definition entries :: "'v hashmap_element list \<Rightarrow> (u8 list \<times> 'v option) list" where
  "entries es = map (\<lambda>e. (he_key e, he_data e)) (filter he_in_use es)"

definition hm_map :: "'v hashmap \<Rightarrow> u8 list \<Rightarrow> 'v option option" where
  "hm_map m = map_of (entries (hm_data m))"

definition in_reach :: "'v hashmap \<Rightarrow> u8 list \<Rightarrow> nat \<Rightarrow> bool" where
  "in_reach m key i \<longleftrightarrow>
     (\<exists>j<MAX_CHAIN_LENGTH. i = (hashmap_hash_int m key + j) mod hm_table_size m)"

text \<open>
  The invariant: the array has the recorded size, keys have the key size, a used slot lies
  within the probing distance of its key's hash, no key occurs twice, and \<open>size\<close> counts the
  used slots.
\<close>

definition hm_inv :: "'v hashmap \<Rightarrow> bool" where
  "hm_inv m \<longleftrightarrow>
     0 < hm_table_size m \<and> length (hm_data m) = hm_table_size m \<and>
     (\<forall>i<hm_table_size m. he_in_use (hm_data m ! i) \<longrightarrow>
        length (he_key (hm_data m ! i)) = hm_key_size m \<and> in_reach m (he_key (hm_data m ! i)) i) \<and>
     distinct (map fst (entries (hm_data m))) \<and>
     hm_size m = int (length (entries (hm_data m)))"

lemma entries_simps [simp]:
  "entries [] = []"
  "entries (e # es) = (if he_in_use e then [(he_key e, he_data e)] else []) @ entries es"
  "entries (es @ es') = entries es @ entries es'"
  by (auto simp: entries_def)

lemma blank_unused [simp]: "\<not> he_in_use blank"
  by (simp add: blank_def)

lemma entries_replicate_blank [simp]: "entries (replicate n blank) = []"
  by (induction n) (auto simp: blank_def)

lemma entries_at:
  assumes "i < length es"
  shows "entries es = entries (take i es)
      @ (if he_in_use (es ! i) then [(he_key (es ! i), he_data (es ! i))] else [])
      @ entries (drop (Suc i) es)"
    and "entries (es[i := e]) = entries (take i es)
      @ (if he_in_use e then [(he_key e, he_data e)] else []) @ entries (drop (Suc i) es)"
  using id_take_nth_drop [OF assms] upd_conv_take_nth_drop [OF assms, of e]
  by (metis entries_simps(2,3))+

lemma in_entries: "(k, v) \<in> set (entries es) \<longleftrightarrow>
    (\<exists>i<length es. he_in_use (es ! i) \<and> he_key (es ! i) = k \<and> he_data (es ! i) = v)"
  by (auto simp: entries_def in_set_conv_nth image_iff)

lemma hm_inv_data: "hm_inv m \<Longrightarrow> length (hm_data m) = hm_table_size m \<and> 0 < hm_table_size m"
  by (simp add: hm_inv_def)

lemma hm_inv_key:
  "hm_inv m \<Longrightarrow> i < hm_table_size m \<Longrightarrow> he_in_use (hm_data m ! i) \<Longrightarrow>
     length (he_key (hm_data m ! i)) = hm_key_size m \<and> in_reach m (he_key (hm_data m ! i)) i"
  by (simp add: hm_inv_def)

lemma entries_key_length:
  assumes "hm_inv m" and "x \<in> set (entries (hm_data m))"
  shows "length (fst x) = hm_key_size m"
proof -
  obtain k v where x: "x = (k, v)" by force
  then show ?thesis
    using assms hm_inv_data [OF assms(1)] by (auto simp: in_entries dest: hm_inv_key)
qed

interpretation hash: finite_table hm_inv hm_map "\<lambda>m. entries (hm_data m)"
  by unfold_locales (simp_all add: hm_map_def hm_inv_def)

lemma hm_map_slot:
  assumes "hm_inv m" and "i < hm_table_size m" and "he_in_use (hm_data m ! i)"
  shows "hm_map m (he_key (hm_data m ! i)) = Some (he_data (hm_data m ! i))"
proof -
  have "(he_key (hm_data m ! i), he_data (hm_data m ! i)) \<in> set (entries (hm_data m))"
    unfolding in_entries using assms hm_inv_data [OF assms(1)] by (intro exI [of _ i]) simp
  then show ?thesis using hash.listing_mem [OF assms(1)] by simp
qed

lemma hm_map_SomeE:
  assumes "hm_map m k = Some v" and "hm_inv m"
  obtains i where "i < hm_table_size m" and "he_in_use (hm_data m ! i)"
    and "he_key (hm_data m ! i) = k" and "he_data (hm_data m ! i) = v" and "in_reach m k i"
proof -
  from assms have "(k, v) \<in> set (entries (hm_data m))" by (simp add: hash.listing_mem)
  then obtain i where i: "i < hm_table_size m" "he_in_use (hm_data m ! i)"
    "he_key (hm_data m ! i) = k" "he_data (hm_data m ! i) = v"
    unfolding in_entries using hm_inv_data [OF assms(2)] by auto
  then show thesis using that hm_inv_key [OF assms(2) i(1,2)] by blast
qed

lemma key_matches_iff:
  assumes "hm_inv m" and "i < hm_table_size m" and "he_in_use (hm_data m ! i)"
    and "length key = hm_key_size m"
  shows "key_matches m i key \<longleftrightarrow> he_key (hm_data m ! i) = key"
  using hm_inv_key [OF assms(1-3)] assms(4) by (simp add: key_matches_def memcmp_eq_0)

section \<open>Probing\<close>

lemma mod_step: "((c + 1) mod s + j) mod s = (c + Suc j) mod (s :: nat)"
  by (simp add: mod_simps)

lemma hash_probe_Some:
  assumes "hash_probe n m key c = Some i" and "c < hm_table_size m"
  shows "i < hm_table_size m \<and> (\<exists>j<n. i = (c + j) mod hm_table_size m) \<and>
    (he_in_use (hm_data m ! i) \<longrightarrow> key_matches m i key)"
  using assms
proof (induction n arbitrary: c)
  case (Suc n)
  show ?case
  proof (cases "i = c \<and> (he_in_use (hm_data m ! c) \<longrightarrow> key_matches m c key)")
    case True
    then show ?thesis using Suc.prems(2) by (auto intro!: exI [of _ 0])
  next
    case False
    then have "hash_probe n m key ((c + 1) mod hm_table_size m) = Some i"
      using Suc.prems(1) by (auto split: if_splits)
    moreover have "(c + 1) mod hm_table_size m < hm_table_size m"
      using Suc.prems(2) by (intro mod_less_divisor) simp
    ultimately show ?thesis using Suc.IH mod_step by (metis Suc_less_eq)
  qed
qed simp

lemma get_probe_Some:
  assumes "get_probe n m key c = Some i" and "c < hm_table_size m"
  shows "i < hm_table_size m \<and> he_in_use (hm_data m ! i) \<and> key_matches m i key"
  using assms
proof (induction n arbitrary: c)
  case (Suc n)
  have "(c + 1) mod hm_table_size m < hm_table_size m"
    using Suc.prems(2) by (intro mod_less_divisor) simp
  then show ?case using Suc by (auto split: if_splits)
qed simp

lemma get_probe_None:
  assumes "get_probe n m key c = None" and "c < hm_table_size m" and "j < n"
  shows "\<not> (he_in_use (hm_data m ! ((c + j) mod hm_table_size m)) \<and>
    key_matches m ((c + j) mod hm_table_size m) key)"
  using assms
proof (induction n arbitrary: c j)
  case (Suc n)
  have lt: "(c + 1) mod hm_table_size m < hm_table_size m"
    using Suc.prems(2) by (intro mod_less_divisor) simp
  show ?case
  proof (cases j)
    case 0
    then show ?thesis using Suc.prems by (auto split: if_splits)
  next
    case (Suc j')
    then show ?thesis
      using Suc.IH [OF _ lt, of j'] Suc.prems mod_step [of c "hm_table_size m" j']
      by (auto split: if_splits)
  qed
qed simp

lemma hash_int_less: "hm_inv m \<Longrightarrow> hashmap_hash_int m key < hm_table_size m"
  by (simp add: hashmap_hash_int_def hm_inv_def)

lemma get_probe_map:
  assumes "hm_inv m" and "length key = hm_key_size m"
  shows "case get_probe MAX_CHAIN_LENGTH m key (hashmap_hash_int m key) of
      None \<Rightarrow> hm_map m key = None
    | Some i \<Rightarrow> i < hm_table_size m \<and> he_in_use (hm_data m ! i) \<and> he_key (hm_data m ! i) = key \<and>
        hm_map m key = Some (he_data (hm_data m ! i))"
proof (cases "get_probe MAX_CHAIN_LENGTH m key (hashmap_hash_int m key)")
  case None
  have "hm_map m key \<noteq> Some v" for v
  proof
    assume "hm_map m key = Some v"
    then obtain i where i: "i < hm_table_size m" "he_in_use (hm_data m ! i)"
      "he_key (hm_data m ! i) = key" "in_reach m key i"
      using assms(1) by (rule hm_map_SomeE)
    then obtain j where "j < MAX_CHAIN_LENGTH"
      and "i = (hashmap_hash_int m key + j) mod hm_table_size m"
      unfolding in_reach_def by blast
    then show False
      using get_probe_None [OF None hash_int_less [OF assms(1)]] i key_matches_iff [OF assms(1) i(1,2) assms(2)]
      by blast
  qed
  then show ?thesis unfolding None by simp (cases "hm_map m key", auto)
next
  case (Some i)
  have i: "i < hm_table_size m" "he_in_use (hm_data m ! i)" "key_matches m i key"
    using get_probe_Some [OF Some hash_int_less [OF assms(1)]] by auto
  then have "he_key (hm_data m ! i) = key" using key_matches_iff [OF assms(1) i(1,2) assms(2)] by blast
  then show ?thesis unfolding Some using i hm_map_slot [OF assms(1) i(1,2)] by simp
qed

section \<open>Filling and clearing one slot\<close>

lemma hash_int_set_slot [simp]:
  "hashmap_hash_int (set_slot m i k v) = hashmap_hash_int m"
  "hashmap_hash_int (blank_slot m i) = hashmap_hash_int m"
  by (simp_all add: hashmap_hash_int_def set_slot_def blank_slot_def fun_eq_iff)

lemma slot_fields [simp]:
  "hm_table_size (set_slot m i k v) = hm_table_size m"
  "hm_key_size (set_slot m i k v) = hm_key_size m"
  "hm_size (set_slot m i k v) = hm_size m + 1"
  "hm_table_size (blank_slot m i) = hm_table_size m"
  "hm_key_size (blank_slot m i) = hm_key_size m"
  "hm_size (blank_slot m i) = hm_size m - 1"
  by (simp_all add: set_slot_def blank_slot_def)

lemma in_reach_slot [simp]:
  "in_reach (set_slot m i k v) = in_reach m" "in_reach (blank_slot m i) = in_reach m"
  by (simp_all add: in_reach_def fun_eq_iff)

lemma map_of_insert:
  "k \<notin> fst ` set xs \<Longrightarrow> map_of (xs @ (k, v) # ys) = (map_of (xs @ ys))(k \<mapsto> v)"
  by (induction xs) (auto simp: fun_upd_twist)

lemma map_of_delete:
  "distinct (map fst (xs @ (k, v) # ys)) \<Longrightarrow>
     map_of (xs @ ys) = (map_of (xs @ (k, v) # ys))(k := None)"
  by (induction xs) (auto simp: fun_upd_twist fun_upd_idem map_of_eq_None_iff image_iff)

lemma set_slot_inv:
  assumes inv: "hm_inv m" and i: "i < hm_table_size m" and free: "\<not> he_in_use (hm_data m ! i)"
    and key: "length k = hm_key_size m" and reach: "in_reach m k i" and new: "hm_map m k = None"
  shows "hm_inv (set_slot m i k v)" and "hm_map (set_slot m i k v) = (hm_map m)(k \<mapsto> v)"
proof -
  let ?e = "\<lparr>he_key = k, he_in_use = True, he_data = v\<rparr>"
  let ?A = "entries (take i (hm_data m))" and ?B = "entries (drop (Suc i) (hm_data m))"
  have len: "i < length (hm_data m)" using hm_inv_data [OF inv] i by simp
  have old: "entries (hm_data m) = ?A @ ?B"
    using entries_at(1) [OF len] free by simp
  have new': "entries (hm_data (set_slot m i k v)) = ?A @ (k, v) # ?B"
    using entries_at(2) [OF len, of ?e] by (simp add: set_slot_def)
  have absent: "k \<notin> fst ` set (?A @ ?B)"
    using new unfolding hm_map_def old by (auto simp: map_of_eq_None_iff)
  then show "hm_map (set_slot m i k v) = (hm_map m)(k \<mapsto> v)"
    unfolding hm_map_def new' old by (intro map_of_insert) auto
  have nth: "hm_data (set_slot m i k v) ! n = (if n = i then ?e else hm_data m ! n)"
    if "n < hm_table_size m" for n
    using that len by (simp add: set_slot_def nth_list_update)
  show "hm_inv (set_slot m i k v)"
    unfolding hm_inv_def new'
  proof (intro conjI)
    show "0 < hm_table_size (set_slot m i k v)"
      and "length (hm_data (set_slot m i k v)) = hm_table_size (set_slot m i k v)"
      using hm_inv_data [OF inv] by (simp_all add: set_slot_def)
    show "\<forall>n<hm_table_size (set_slot m i k v). he_in_use (hm_data (set_slot m i k v) ! n) \<longrightarrow>
        length (he_key (hm_data (set_slot m i k v) ! n)) = hm_key_size (set_slot m i k v) \<and>
        in_reach (set_slot m i k v) (he_key (hm_data (set_slot m i k v) ! n)) n"
      using hm_inv_key [OF inv] key reach by (auto simp: nth)
    show "distinct (map fst (?A @ (k, v) # ?B))"
      using inv absent unfolding hm_inv_def old by auto
    show "hm_size (set_slot m i k v) = int (length (?A @ (k, v) # ?B))"
      using inv unfolding hm_inv_def old by simp
  qed
qed

lemma blank_slot_inv:
  assumes inv: "hm_inv m" and i: "i < hm_table_size m" and used: "he_in_use (hm_data m ! i)"
  shows "hm_inv (blank_slot m i)"
    and "hm_map (blank_slot m i) = (hm_map m)(he_key (hm_data m ! i) := None)"
proof -
  let ?k = "he_key (hm_data m ! i)" and ?v = "he_data (hm_data m ! i)"
  let ?A = "entries (take i (hm_data m))" and ?B = "entries (drop (Suc i) (hm_data m))"
  have len: "i < length (hm_data m)" using hm_inv_data [OF inv] i by simp
  have old: "entries (hm_data m) = ?A @ (?k, ?v) # ?B"
    using entries_at(1) [OF len] used by simp
  have new: "entries (hm_data (blank_slot m i)) = ?A @ ?B"
    using entries_at(2) [OF len, of blank] by (simp add: blank_slot_def blank_def)
  have dist: "distinct (map fst (?A @ (?k, ?v) # ?B))"
    using inv unfolding hm_inv_def old by blast
  then show "hm_map (blank_slot m i) = (hm_map m)(?k := None)"
    unfolding hm_map_def new old by (rule map_of_delete)
  have nth: "hm_data (blank_slot m i) ! n = (if n = i then blank else hm_data m ! n)"
    if "n < hm_table_size m" for n
    using that len by (simp add: blank_slot_def nth_list_update)
  show "hm_inv (blank_slot m i)"
    unfolding hm_inv_def new
  proof (intro conjI)
    show "0 < hm_table_size (blank_slot m i)"
      and "length (hm_data (blank_slot m i)) = hm_table_size (blank_slot m i)"
      using hm_inv_data [OF inv] by (simp_all add: blank_slot_def)
    show "\<forall>n<hm_table_size (blank_slot m i). he_in_use (hm_data (blank_slot m i) ! n) \<longrightarrow>
        length (he_key (hm_data (blank_slot m i) ! n)) = hm_key_size (blank_slot m i) \<and>
        in_reach (blank_slot m i) (he_key (hm_data (blank_slot m i) ! n)) n"
      using hm_inv_key [OF inv] by (auto simp: nth blank_def)
    show "distinct (map fst (?A @ ?B))" using dist by auto
    show "hm_size (blank_slot m i) = int (length (?A @ ?B))"
      using inv unfolding hm_inv_def old by simp
  qed
qed

text \<open>A write through the value pointer of a used slot.\<close>

lemma slot_write_inv:
  fixes m :: "'v hashmap" and v :: "'v option"
  assumes inv: "hm_inv m" and i: "i < hm_table_size m" and used: "he_in_use (hm_data m ! i)"
  defines "m' \<equiv> m\<lparr>hm_data := (hm_data m)[i := (hm_data m ! i)\<lparr>he_data := v\<rparr>]\<rparr>"
  shows "hm_inv m'" and "hm_map m' = (hm_map m)(he_key (hm_data m ! i) \<mapsto> v)"
proof -
  let ?k = "he_key (hm_data m ! i)" and ?v = "he_data (hm_data m ! i)"
  let ?A = "entries (take i (hm_data m))" and ?B = "entries (drop (Suc i) (hm_data m))"
  have len: "i < length (hm_data m)" using hm_inv_data [OF inv] i by simp
  have old: "entries (hm_data m) = ?A @ (?k, ?v) # ?B"
    using entries_at(1) [OF len] used by simp
  have new: "entries (hm_data m') = ?A @ (?k, v) # ?B"
    using entries_at(2) [OF len, of "(hm_data m ! i)\<lparr>he_data := v\<rparr>"] used by (simp add: m'_def)
  have dist: "distinct (map fst (?A @ (?k, ?v) # ?B))"
    using inv unfolding hm_inv_def old by blast
  then have "?k \<notin> fst ` set ?A" by auto
  from map_of_insert [OF this, of v ?B] map_of_insert [OF this, of ?v ?B]
  show "hm_map m' = (hm_map m)(?k \<mapsto> v)"
    unfolding hm_map_def new old by (simp only: fun_upd_upd)
  have nth: "hm_data m' ! n = (if n = i then (hm_data m ! i)\<lparr>he_data := v\<rparr> else hm_data m ! n)"
    if "n < hm_table_size m" for n
    using that len by (simp add: m'_def nth_list_update)
  have fields: "hm_table_size m' = hm_table_size m" "hm_key_size m' = hm_key_size m"
    "hm_size m' = hm_size m" "length (hm_data m') = length (hm_data m)" "in_reach m' = in_reach m"
    by (simp_all add: m'_def in_reach_def hashmap_hash_int_def fun_eq_iff)
  show "hm_inv m'"
    unfolding hm_inv_def new fields
  proof (intro conjI)
    show "0 < hm_table_size m" and "length (hm_data m) = hm_table_size m"
      using hm_inv_data [OF inv] by simp_all
    show "\<forall>n<hm_table_size m. he_in_use (hm_data m' ! n) \<longrightarrow>
        length (he_key (hm_data m' ! n)) = hm_key_size m \<and> in_reach m (he_key (hm_data m' ! n)) n"
      using hm_inv_key [OF inv] used by (auto simp: nth)
    show "distinct (map fst (?A @ (?k, v) # ?B))" using dist by auto
    show "hm_size m = int (length (?A @ (?k, v) # ?B))"
      using inv unfolding hm_inv_def old by simp
  qed
qed

lemma new_table_inv:
  assumes "hm_inv m"
  shows "hm_inv (new_table m)" and "hm_map (new_table m) = Map.empty"
  using assms by (auto simp: hm_inv_def new_table_def hm_map_def)

lemma hashmap_hash_free:
  assumes inv: "hm_inv m" and key: "length k = hm_key_size m" and new: "hm_map m k = None"
    and hash: "hashmap_hash m k = Some i"
  shows "i < hm_table_size m" and "\<not> he_in_use (hm_data m ! i)" and "in_reach m k i"
proof -
  have "hash_probe MAX_CHAIN_LENGTH m k (hashmap_hash_int m k) = Some i"
    using hash by (auto simp: hashmap_hash_def split: if_splits)
  from hash_probe_Some [OF this hash_int_less [OF inv]]
  show i: "i < hm_table_size m" and "in_reach m k i"
    and "\<not> he_in_use (hm_data m ! i)"
    using key_matches_iff [OF inv _ _ key, of i] hm_map_slot [OF inv, of i] new
    unfolding in_reach_def by auto
qed

section \<open>Put, rehash and enough fuel\<close>

definition grown :: "'v hashmap \<Rightarrow> 'v hashmap \<Rightarrow> bool" where
  "grown m m' \<longleftrightarrow> hm_key_size m' = hm_key_size m \<and> hm_table_size m \<le> hm_table_size m'"

lemma put_status:
  "hashmap_put fuel ok m k v = Some (st, m') \<Longrightarrow> st = MAP_OK \<or> st = MAP_OMEM"
  "hashmap_rehash fuel ok m = Some (st, m') \<Longrightarrow> st = MAP_OK \<or> st = MAP_OMEM"
  "rehash_loop fuel ok es m = Some (st, m') \<Longrightarrow> st = MAP_OK \<or> st = MAP_OMEM"
  by (induction fuel ok m k v and fuel ok m and fuel ok es m arbitrary: m' st and m' st and m' st
      rule: hashmap_put_hashmap_rehash_rehash_loop.induct)
    (auto split: option.splits if_splits)

lemma put_rehash_correct:
  "hashmap_put fuel ok m k v = Some (MAP_OK, m') \<Longrightarrow> hm_inv m \<Longrightarrow>
     length k = hm_key_size m \<Longrightarrow> hm_map m k = None \<Longrightarrow>
     hm_inv m' \<and> hm_map m' = (hm_map m)(k \<mapsto> v) \<and> grown m m'"
  "hashmap_rehash fuel ok m = Some (MAP_OK, m') \<Longrightarrow> hm_inv m \<Longrightarrow>
     hm_inv m' \<and> hm_map m' = hm_map m \<and> grown m m'"
  "rehash_loop fuel ok es m = Some (MAP_OK, m') \<Longrightarrow> hm_inv m \<Longrightarrow>
     distinct (map fst (entries es)) \<Longrightarrow>
     (\<forall>x\<in>set (entries es). length (fst x) = hm_key_size m \<and> hm_map m (fst x) = None) \<Longrightarrow>
     hm_inv m' \<and> hm_map m' = hm_map m ++ map_of (entries es) \<and> grown m m'"
proof (induction fuel ok m k v and fuel ok m and fuel ok es m arbitrary: m' and m' and m'
    rule: hashmap_put_hashmap_rehash_rehash_loop.induct)
  case (1 ok m k v)
  then obtain i where i: "hashmap_hash m k = Some i" and m': "m' = set_slot m i k v"
    by (auto split: option.splits)
  note f = hashmap_hash_free [OF 1(2,3,4) i]
  show ?case
    using set_slot_inv [OF 1(2) f(1,2) 1(3) f(3) 1(4)] by (simp add: m' grown_def)
next
  case (2 fuel ok m k v)
  show ?case
  proof (cases "hashmap_hash m k")
    case (Some i)
    then have m': "m' = set_slot m i k v" using 2(3) by simp
    note f = hashmap_hash_free [OF 2(4,5,6) Some]
    show ?thesis
      using set_slot_inv [OF 2(4) f(1,2) 2(5) f(3) 2(6)] by (simp add: m' grown_def)
  next
    case None
    then obtain st m1 where r: "hashmap_rehash fuel ok m = Some (st, m1)" and st: "st \<noteq> MAP_OMEM"
      and p: "hashmap_put fuel ok m1 k v = Some (MAP_OK, m')"
      using 2(3) by (auto split: option.splits prod.splits if_splits)
    from st put_status(2) [OF r] have "hashmap_rehash fuel ok m = Some (MAP_OK, m1)" using r by auto
    from 2(1) [OF None this 2(4)] have m1: "hm_inv m1" "hm_map m1 = hm_map m" "grown m m1" by auto
    then show ?thesis
      using 2(2) [OF None r refl st p m1(1)] 2(5,6) by (auto simp: grown_def)
  qed
next
  case (3 fuel ok m)
  then have ok: "ok (2 * hm_table_size m)"
    and loop: "rehash_loop fuel ok (hm_data m) (new_table m) = Some (MAP_OK, m')"
    by (auto split: if_splits)
  note new = new_table_inv [OF 3(3)]
  have "length (fst x) = hm_key_size (new_table m)" if "x \<in> set (entries (hm_data m))" for x
    using entries_key_length [OF 3(3) that] by (simp add: new_table_def)
  then show ?case
    using 3(1) [OF _ loop new(1)] ok 3(3) new(2)
    by (auto simp: hm_inv_def hm_map_def grown_def new_table_def)
next
  case (4 fuel ok m)
  then show ?case by (simp add: grown_def)
next
  case (5 fuel ok e es m)
  show ?case
  proof (cases "he_in_use e")
    case False
    then show ?thesis using 5(1,4-7) by simp
  next
    case True
    let ?k = "he_key e" and ?v = "he_data e"
    obtain m1 where p: "hashmap_put fuel ok m ?k ?v = Some (MAP_OK, m1)"
      and loop: "rehash_loop fuel ok es m1 = Some (MAP_OK, m')"
      using 5(4) True by (auto split: option.splits prod.splits if_splits)
    have k: "length ?k = hm_key_size m" "hm_map m ?k = None"
      and rest: "distinct (map fst (entries es))" "?k \<notin> fst ` set (entries es)"
      using 5(6,7) True by auto
    have m1: "hm_inv m1" "hm_map m1 = (hm_map m)(?k \<mapsto> ?v)" "grown m m1"
      using 5(2) True p 5(5) k by auto
    have "\<forall>x\<in>set (entries es). length (fst x) = hm_key_size m1 \<and> hm_map m1 (fst x) = None"
      using 5(7) True rest(2) m1(2,3) by (auto simp: grown_def) (metis fst_conv image_eqI)
    then have m': "hm_inv m'" "hm_map m' = hm_map m1 ++ map_of (entries es)" "grown m1 m'"
      using 5(3) True p loop m1(1) rest(1) by auto
    have "?k \<notin> dom (map_of (entries es))" using rest(2) by (simp add: dom_map_of_conv_image_fst)
    then have "hm_map m' = hm_map m ++ map_of (entries (e # es))"
      unfolding m'(2) m1(2) using True by (simp add: map_add_upd_left)
    then show ?thesis using m' m1 by (auto simp: grown_def)
  qed
qed

text \<open>When an allocation fails on the way, elements may be lost, but the table stays valid and
  holds nothing that was not there before.\<close>

lemma put_rehash_omem:
  "hashmap_put fuel ok m k v = Some (MAP_OMEM, m') \<Longrightarrow> hm_inv m \<Longrightarrow>
     length k = hm_key_size m \<Longrightarrow> hm_map m k = None \<Longrightarrow>
     hm_inv m' \<and> hm_map m' \<subseteq>\<^sub>m hm_map m \<and> hm_key_size m' = hm_key_size m"
  "hashmap_rehash fuel ok m = Some (MAP_OMEM, m') \<Longrightarrow> hm_inv m \<Longrightarrow>
     hm_inv m' \<and> hm_map m' \<subseteq>\<^sub>m hm_map m \<and> hm_key_size m' = hm_key_size m"
  "rehash_loop fuel ok es m = Some (MAP_OMEM, m') \<Longrightarrow> hm_inv m \<Longrightarrow>
     distinct (map fst (entries es)) \<Longrightarrow>
     (\<forall>x\<in>set (entries es). length (fst x) = hm_key_size m \<and> hm_map m (fst x) = None) \<Longrightarrow>
     hm_inv m' \<and> hm_map m' \<subseteq>\<^sub>m hm_map m ++ map_of (entries es) \<and> hm_key_size m' = hm_key_size m"
proof (induction fuel ok m k v and fuel ok m and fuel ok es m arbitrary: m' and m' and m'
    rule: hashmap_put_hashmap_rehash_rehash_loop.induct)
  case (1 ok m k v)
  then show ?case by (auto split: option.splits)
next
  case (2 fuel ok m k v)
  from 2(3) obtain st m1 where hash: "hashmap_hash m k = None"
    and r: "hashmap_rehash fuel ok m = Some (st, m1)"
    by (auto split: option.splits)
  show ?case
  proof (cases "st = MAP_OMEM")
    case True
    then have "m' = m1" using 2(3) hash r by simp
    then show ?thesis using 2(1) [OF hash _ 2(4)] r True by simp
  next
    case False
    then have p: "hashmap_put fuel ok m1 k v = Some (MAP_OMEM, m')" using 2(3) hash r by simp
    have "hashmap_rehash fuel ok m = Some (MAP_OK, m1)" using False put_status(2) [OF r] r by auto
    from put_rehash_correct(2) [OF this 2(4)]
    have m1: "hm_inv m1" "hm_map m1 = hm_map m" "grown m m1" by auto
    then show ?thesis
      using 2(2) [OF hash r refl False p m1(1)] 2(5,6) by (auto simp: grown_def)
  qed
next
  case (3 fuel ok m)
  show ?case
  proof (cases "ok (2 * hm_table_size m)")
    case True
    then have loop: "rehash_loop fuel ok (hm_data m) (new_table m) = Some (MAP_OMEM, m')" using 3(2) by simp
    note new = new_table_inv [OF 3(3)]
    have "length (fst x) = hm_key_size (new_table m)" if "x \<in> set (entries (hm_data m))" for x
      using entries_key_length [OF 3(3) that] by (simp add: new_table_def)
    then show ?thesis
      using 3(1) [OF _ loop new(1)] True 3(3) new(2)
      by (auto simp: hm_inv_def hm_map_def new_table_def)
  qed (use 3 in simp)
next
  case (4 fuel ok m)
  then show ?case by simp
next
  case (5 fuel ok e es m)
  show ?case
  proof (cases "he_in_use e")
    case False
    then show ?thesis using 5(1,4-7) by simp
  next
    case True
    let ?k = "he_key e" and ?v = "he_data e"
    have k: "length ?k = hm_key_size m" "hm_map m ?k = None"
      and rest: "distinct (map fst (entries es))" "?k \<notin> fst ` set (entries es)"
      using 5(6,7) True by auto
    have keys: "hm_map m ++ map_of (entries (e # es)) = (hm_map m)(?k \<mapsto> ?v) ++ map_of (entries es)"
      using rest(2) True by (simp add: map_add_upd_left dom_map_of_conv_image_fst)
    have "dom (hm_map m) \<inter> dom (map_of (entries (e # es))) = {}"
      using 5(7) unfolding dom_map_of_conv_image_fst by fastforce
    then have more: "hm_map m \<subseteq>\<^sub>m hm_map m ++ map_of (entries (e # es))"
      by (metis map_add_comm map_le_map_add)
    obtain st m1 where p: "hashmap_put fuel ok m ?k ?v = Some (st, m1)"
      using 5(4) True by (auto split: option.splits)
    show ?thesis
    proof (cases "st = MAP_OK")
      case False
      then have "st = MAP_OMEM" "m' = m1" using put_status(1) [OF p] 5(4) True p by auto
      then show ?thesis using 5(2) True p 5(5) k map_le_trans [OF _ more] by blast
    next
      case ok: True
      then have loop: "rehash_loop fuel ok es m1 = Some (MAP_OMEM, m')" using 5(4) True p by simp
      from put_rehash_correct(1) [OF _ 5(5) k] p ok
      have m1: "hm_inv m1" "hm_map m1 = (hm_map m)(?k \<mapsto> ?v)" "grown m m1" by blast+
      have "\<forall>x\<in>set (entries es). length (fst x) = hm_key_size m1 \<and> hm_map m1 (fst x) = None"
        using 5(7) True rest(2) m1(2,3) by (auto simp: grown_def) (metis fst_conv image_eqI)
      then show ?thesis
        using 5(3) [OF _ p refl _ loop m1(1) rest(1)] True ok m1(3) unfolding keys m1(2) [symmetric]
        by (simp add: grown_def)
    qed
  qed
qed

text \<open>Fuel: every level of the recursion doubles the table, so the allocation limit bounds
  the depth.\<close>

definition enough_fuel :: "nat \<Rightarrow> nat \<Rightarrow> 'v hashmap \<Rightarrow> bool" where
  "enough_fuel fuel limit m \<longleftrightarrow> 0 < fuel \<and> 0 < hm_table_size m \<and> 2 * limit < 2 ^ fuel * hm_table_size m"

lemma enough_fuel_grown: "enough_fuel fuel limit m \<Longrightarrow> hm_table_size m \<le> hm_table_size m' \<Longrightarrow>
    enough_fuel fuel limit m'"
  unfolding enough_fuel_def by (meson less_le_trans mult_le_mono2)

lemma table_size_new [simp]: "hm_table_size (new_table m) = 2 * hm_table_size m"
  by (simp add: new_table_def)

lemma table_size_grows:
  "hashmap_put fuel ok m k v = Some (st, m') \<Longrightarrow> hm_table_size m \<le> hm_table_size m'"
  "hashmap_rehash fuel ok m = Some (st, m') \<Longrightarrow> hm_table_size m \<le> hm_table_size m'"
  "rehash_loop fuel ok es m = Some (st, m') \<Longrightarrow> hm_table_size m \<le> hm_table_size m'"
  by (induction fuel ok m k v and fuel ok m and fuel ok es m arbitrary: m' st and m' st and m' st
      rule: hashmap_put_hashmap_rehash_rehash_loop.induct)
    (fastforce split: option.splits if_splits)+

lemma fuel_suffices:
  "(\<And>n. ok n \<Longrightarrow> n \<le> limit) \<Longrightarrow> enough_fuel fuel limit m \<Longrightarrow> hashmap_put fuel ok m k v \<noteq> None"
  "(\<And>n. ok n \<Longrightarrow> n \<le> limit) \<Longrightarrow> enough_fuel (Suc fuel) limit m \<Longrightarrow> hashmap_rehash fuel ok m \<noteq> None"
  "(\<And>n. ok n \<Longrightarrow> n \<le> limit) \<Longrightarrow> enough_fuel fuel limit m \<Longrightarrow> rehash_loop fuel ok es m \<noteq> None"
proof (induction fuel ok m k v and fuel ok m and fuel ok es m
    rule: hashmap_put_hashmap_rehash_rehash_loop.induct)
  case (1 ok m k v)
  then show ?case by (simp add: enough_fuel_def)
next
  case (2 fuel ok m k v)
  show ?case
  proof (cases "hashmap_hash m k")
    case None
    from 2(1) [OF None 2(3,4)] obtain st m1 where r: "hashmap_rehash fuel ok m = Some (st, m1)"
      by auto
    show ?thesis
    proof (cases "st = MAP_OMEM")
      case False
      then have grow: "2 * hm_table_size m \<le> hm_table_size m1" and "ok (2 * hm_table_size m)"
        using r table_size_grows(3) [of fuel ok "hm_data m" "new_table m" st m1]
        by (auto split: if_splits)
      then have "enough_fuel fuel limit m1"
        using 2(3,4) by (intro enough_fuel_grown [OF _ grow [folded table_size_new]])
          (fastforce simp: enough_fuel_def intro: gr0I)
      then show ?thesis using None r False 2(2) 2(3) by simp
    qed (simp add: None r del: hashmap_rehash.simps)
  qed simp
next
  case (3 fuel ok m)
  show ?case
  proof (cases "ok (2 * hm_table_size m)")
    case True
    then have "2 * hm_table_size m \<le> limit" by (rule 3(2))
    then have "enough_fuel fuel limit (new_table m)"
      using 3(3) by (cases fuel) (auto simp: enough_fuel_def)
    then show ?thesis using True 3 by simp
  qed simp
next
  case (4 fuel ok m)
  then show ?case by simp
next
  case (5 fuel ok e es m)
  show ?case
  proof (cases "he_in_use e")
    case True
    from 5(2) [OF _ 5(4,5)] True obtain st m1
      where p: "hashmap_put fuel ok m (he_key e) (he_data e) = Some (st, m1)" by auto
    then have "enough_fuel fuel limit m1"
      using 5(5) table_size_grows(1) enough_fuel_grown by blast
    then show ?thesis using True p 5(3) 5(4) by auto
  qed (use 5 in simp)
qed

lemma hm_size_card: "hm_inv m \<Longrightarrow> hm_size m = int (card (dom (hm_map m)))"
  using hash.length_listing [of m] by (simp add: hm_inv_def)

section \<open>The contract of the map\<close>

lemma hashmap_new_inv:
  "hashmap_new ok n = Some m \<Longrightarrow>
     hm_inv m \<and> hm_map m = Map.empty \<and> hm_key_size m = n \<and> hm_table_size m = INITIAL_SIZE"
  by (auto simp: hashmap_new_def hm_inv_def hm_map_def entries_simps split: if_splits)

lemma hashmap_new_table: "hashmap_new (\<lambda>n. n \<le> 4096) k = Some
    \<lparr>hm_table_size = INITIAL_SIZE, hm_size = 0, hm_key_size = k,
     hm_data = replicate INITIAL_SIZE blank, hm_seed = replicate siphash24_KEYBYTES 0\<rparr>"
  by (simp add: hashmap_new_def)

lemma hashmap_put_correct:
  assumes "hm_inv m" and "length k = hm_key_size m" and "hm_map m k = None"
    and "\<And>n. ok n \<Longrightarrow> n \<le> limit" and "0 < fuel" and "2 * limit < 2 ^ fuel * hm_table_size m"
  shows "\<exists>st m'. hashmap_put fuel ok m k v = Some (st, m') \<and>
    hm_inv m' \<and> hm_key_size m' = hm_key_size m \<and>
    (st = MAP_OMEM \<and> hm_map m' \<subseteq>\<^sub>m hm_map m \<or>
     st = MAP_OK \<and> hm_map m' = (hm_map m)(k \<mapsto> v) \<and> hm_size m' = hm_size m + 1)"
proof -
  have "enough_fuel fuel limit m" using assms by (simp add: enough_fuel_def hm_inv_def)
  then have "hashmap_put fuel ok m k v \<noteq> None"
    by (intro fuel_suffices(1) [of ok limit fuel m k v] assms(4))
  then obtain st m' where p: "hashmap_put fuel ok m k v = Some (st, m')" by auto
  show ?thesis
  proof (cases "st = MAP_OK")
    case True
    then have m': "hm_inv m'" "hm_map m' = (hm_map m)(k \<mapsto> v)" "hm_key_size m' = hm_key_size m"
      using put_rehash_correct(1) p assms(1-3) unfolding grown_def by blast+
    have "finite (dom (hm_map m))" by (simp add: hm_map_def finite_dom_map_of)
    then have "hm_size m' = hm_size m + 1"
      using hm_size_card [OF m'(1)] hm_size_card [OF assms(1)] m'(2) assms(3)
      by (simp add: card_insert_disjoint domIff)
    then show ?thesis using p True m' by blast
  qed (use p put_status(1) [OF p] put_rehash_omem(1) [OF _ assms(1-3)] in blast)
qed



lemma hashmap_get_correct:
  assumes "hm_inv m" and "length k = hm_key_size m"
  shows "case hm_map m k of
      None \<Rightarrow> hashmap_get m k remove = (MAP_MISSING, None, m)
    | Some v \<Rightarrow> \<exists>m'. hashmap_get m k remove = (MAP_OK, v, m') \<and> hm_inv m' \<and> hm_key_size m' = hm_key_size m \<and>
        hm_map m' = (if remove then (hm_map m)(k := None) else hm_map m)"
  using get_probe_map [OF assms] assms blank_slot_inv [OF assms(1)]
  by (auto simp: hashmap_get_def split: option.splits)

text \<open>C32: the lookup finds a key exactly when it is in the map, returns the value stored
  last, removes the entry when asked to and otherwise leaves the map alone.\<close>

theorem hashmap_get_spec:
  assumes "hm_inv m" and "length k = hm_key_size m"
  shows "case hm_map m k of
      None \<Rightarrow> hashmap_get m k remove = (MAP_MISSING, None, m)
    | Some v \<Rightarrow> \<exists>m'. hashmap_get m k remove = (MAP_OK, v, m') \<and> hm_inv m' \<and>
        hm_map m' = (if remove then (hm_map m)(k := None) else hm_map m)"
  using hashmap_get_correct [OF assms, of remove] by (auto split: option.splits)

theorem hashmap_get_spec_witness:
  "\<exists>m. hashmap_new (\<lambda>n. n \<le> 4096) 6 = Some (m :: nat hashmap) \<and>
     hashmap_get m [1, 2, 3, 4, 5, 6] True = (MAP_MISSING, None, m)"
proof -
  obtain m :: "nat hashmap" where m: "hashmap_new (\<lambda>n. n \<le> 4096) 6 = Some m"
    using hashmap_new_table by blast
  then show ?thesis
    using hashmap_new_inv [OF m] hashmap_get_spec [of m "[1, 2, 3, 4, 5, 6]" True] by auto
qed

section \<open>Iteration\<close>

text \<open>The loop \<open>while (hashmap_it_next(it, &key, &value) == MAP_OK)\<close> without changes.\<close>

lemma it_scan_ge: "i \<le> it_scan m i"
  by (induction m i rule: it_scan.induct) (subst it_scan.simps, auto)

lemma it_next_progress:
  "hashmap_it_next m it = (MAP_OK, it', kv) \<Longrightarrow> it < it' \<and> it' < int (hm_table_size m)"
  using it_scan_ge [of "it + 1" m] by (auto simp: hashmap_it_next_def Let_def split: if_splits)

function it_all :: "'v hashmap \<Rightarrow> int \<Rightarrow> (u8 list \<times> 'v option) list" where
  "it_all m it =
     (case hashmap_it_next m it of
        (MAP_OK, it', Some kv) \<Rightarrow> kv # it_all m it'
      | _ \<Rightarrow> [])"
  by pat_completeness auto
termination
  by (relation "measure (\<lambda>(m, it). nat (int (hm_table_size m) - it))")
    (auto dest: it_next_progress [OF sym])

declare it_all.simps [simp del]

lemma it_scan_entries:
  assumes "length (hm_data m) = hm_table_size m" and "0 \<le> i"
  shows "entries (drop (nat i) (hm_data m)) =
    (let j = it_scan m i in if j < int (hm_table_size m) then
       (he_key (hm_data m ! nat j), he_data (hm_data m ! nat j)) # entries (drop (nat (j + 1)) (hm_data m))
     else [])"
  using assms
proof (induction m i rule: it_scan.induct)
  case (1 m i)
  show ?case
  proof (cases "i < int (hm_table_size m)")
    case True
    then have "nat i < length (hm_data m)" using 1(2,3) by linarith
    then have "drop (nat i) (hm_data m) = hm_data m ! nat i # drop (nat (i + 1)) (hm_data m)"
      using 1(3) by (simp add: Cons_nth_drop_Suc [symmetric] nat_add_distrib)
    then show ?thesis using True 1 by (subst it_scan.simps) (auto simp: Let_def)
  next
    case False
    then show ?thesis using 1(2) by (subst it_scan.simps) (auto simp: Let_def)
  qed
qed

lemma it_all_entries:
  assumes "length (hm_data m) = hm_table_size m" and "-1 \<le> it"
  shows "it_all m it = entries (drop (nat (it + 1)) (hm_data m))"
  using assms
proof (induction m it rule: it_all.induct)
  case (1 m it)
  have "-1 \<le> it_scan m (it + 1)" using it_scan_ge [of "it + 1" m] 1(3) by linarith
  then show ?case
    using 1 it_scan_entries [of m "it + 1"]
    by (subst it_all.simps) (auto simp: hashmap_it_next_def Let_def)
qed

text \<open>Iterating over an unchanged map visits every entry exactly once, and nothing
  else.\<close>

theorem hashmap_iteration_complete:
  assumes "hm_inv m"
  shows "map_of (it_all m hashmap_it_new) = hm_map m \<and> distinct (map fst (it_all m hashmap_it_new)) \<and>
    int (length (it_all m hashmap_it_new)) = hm_size m"
  using assms it_all_entries [of m hashmap_it_new]
  by (simp add: hashmap_it_new_def hm_inv_def hm_map_def)

theorem hashmap_iteration_complete_witness:
  "\<exists>m. hashmap_new (\<lambda>n. n \<le> 4096) 6 = Some (m :: nat hashmap) \<and> it_all m hashmap_it_new = []"
proof -
  obtain m :: "nat hashmap" where m: "hashmap_new (\<lambda>n. n \<le> 4096) 6 = Some m"
    using hashmap_new_table by blast
  then have "hm_size m = 0" by (auto simp: hashmap_new_def)
  then show ?thesis using m hashmap_new_inv [OF m] hashmap_iteration_complete [of m] by auto
qed

lemma it_remove_inv:
  assumes "hm_inv m" and "hashmap_it_remove m it = (MAP_OK, m')"
  shows "hm_inv m' \<and> hm_map m' = (hm_map m)(he_key (hm_data m ! nat it) := None)"
  using assms blank_slot_inv [OF assms(1), of "nat it"]
  by (auto simp: hashmap_it_remove_def nat_less_iff split: if_splits)

section \<open>Overwriting\<close>

text \<open>Storing a key that is already in the map replaces the value but still counts one
  element more, so from then on the recorded size is not the number of entries and the
  invariant is lost. The clients look a key up before they store it.\<close>

theorem hashmap_put_overwrite_drifts:
  assumes "hm_inv m" and "length k = hm_key_size m"
    and "hashmap_hash m k = Some i" and "he_in_use (hm_data m ! i)"
  shows "\<exists>m'. hashmap_put fuel ok m k v = Some (MAP_OK, m') \<and> dom (hm_map m') = dom (hm_map m) \<and>
    hm_map m' k = Some v \<and> hm_size m' = hm_size m + 1 \<and> \<not> hm_inv m'"
proof -
  have put: "hashmap_put fuel ok m k v = Some (MAP_OK, set_slot m i k v)"
    using assms(3) by (cases fuel) auto
  have "hash_probe MAX_CHAIN_LENGTH m k (hashmap_hash_int m k) = Some i"
    using assms(3) by (auto simp: hashmap_hash_def split: if_splits)
  from hash_probe_Some [OF this hash_int_less [OF assms(1)]]
  have i: "i < hm_table_size m" and key: "he_key (hm_data m ! i) = k"
    using key_matches_iff [OF assms(1) _ assms(4,2)] assms(4) by auto
  then have len: "i < length (hm_data m)" using hm_inv_data [OF assms(1)] by simp
  let ?A = "entries (take i (hm_data m))" and ?B = "entries (drop (Suc i) (hm_data m))"
  have old: "entries (hm_data m) = ?A @ (k, he_data (hm_data m ! i)) # ?B"
    using entries_at(1) [OF len] assms(4) key by simp
  have new: "entries (hm_data (set_slot m i k v)) = ?A @ (k, v) # ?B"
    using entries_at(2) [OF len] by (simp add: set_slot_def)
  have "distinct (map fst (?A @ (k, v) # ?B))"
    using assms(1) unfolding hm_inv_def old by auto
  then have "map_of (?A @ (k, v) # ?B) k = Some v" by (rule map_of_is_SomeI) simp
  moreover have "dom (hm_map (set_slot m i k v)) = dom (hm_map m)"
    unfolding hm_map_def old new by (auto simp: dom_map_of_conv_image_fst)
  moreover have "\<not> hm_inv (set_slot m i k v)"
    using assms(1) unfolding hm_inv_def old new by simp
  ultimately show ?thesis using put unfolding hm_map_def new [symmetric] by auto
qed

theorem hashmap_put_overwrite_drifts_witness:
  "\<exists>m m' :: nat hashmap. hm_inv m \<and> hm_size m = 1 \<and>
     hashmap_put 32 (\<lambda>n. n \<le> 4096) m [1, 2, 3, 4, 5, 6] (Some 8) = Some (MAP_OK, m') \<and>
     hm_size m' = 2 \<and> dom (hm_map m') = {[1, 2, 3, 4, 5, 6]} \<and> \<not> hm_inv m'"
proof -
  let ?k = "[1, 2, 3, 4, 5, 6]"
  obtain m0 :: "nat hashmap" where m0: "hashmap_new (\<lambda>n. n \<le> 4096) 6 = Some m0"
    using hashmap_new_table by blast
  note n = hashmap_new_inv [OF m0]
  let ?h = "hashmap_hash_int m0 ?k"
  let ?m = "set_slot m0 ?h ?k (Some 7)"
  have h: "?h < hm_table_size m0" using n hash_int_less by blast
  have free: "\<not> he_in_use (hm_data m0 ! ?h)" and size: "hm_size m0 = 0"
    using m0 h by (auto simp: hashmap_new_def)
  have reach: "in_reach m0 ?k ?h" using h by (auto simp: in_reach_def intro: exI [of _ 0])
  have inv: "hm_inv ?m" and map: "hm_map ?m = [?k \<mapsto> Some 7]"
    using set_slot_inv [of m0 ?h ?k "Some 7"] n h free reach by auto
  have slot: "hm_data ?m ! ?h = \<lparr>he_key = ?k, he_in_use = True, he_data = Some 7\<rparr>"
    using h hm_inv_data [of m0] n by (simp add: set_slot_def)
  then have "key_matches ?m ?h ?k" by (simp add: key_matches_def memcmp_eq_0)
  then have "hash_probe MAX_CHAIN_LENGTH ?m ?k ?h = Some ?h"
    using slot by (simp add: numeral_eq_Suc)
  then have "hashmap_hash ?m ?k = Some ?h" using n size by (simp add: hashmap_hash_def)
  from hashmap_put_overwrite_drifts [OF inv _ this, of 32 "\<lambda>n. n \<le> 4096" "Some 8"]
  obtain m' where "hashmap_put 32 (\<lambda>n. n \<le> 4096) ?m ?k (Some 8) = Some (MAP_OK, m')"
    and "dom (hm_map m') = dom (hm_map ?m)" and "hm_size m' = hm_size ?m + 1" and "\<not> hm_inv m'"
    using n slot by auto
  then show ?thesis using inv size map by (intro exI [of _ ?m] exI [of _ m']) simp
qed

end
