(* ===== verification/Ether.thy ===== *)
theory Ether
  imports Prelude
begin

text \<open>
  Ethernet addresses (\<open>struct ether_addr\<close> of the C library, six octets) and the
  comparison \<open>compare_ether_addr\<close> of election.c. The address type is an instance of
  \<open>linorder\<close>; the comparison function decides exactly that order.
\<close>

section \<open>Addresses as six octets\<close>

datatype ether_addr = EtherAddr u8 u8 u8 u8 u8 u8

fun octets :: "ether_addr \<Rightarrow> u8 list" where
  "octets (EtherAddr a b c d e f) = [a, b, c, d, e, f]"

fun ether_of :: "u8 list \<Rightarrow> ether_addr" where
  "ether_of (a # b # c # d # e # f # _) = EtherAddr a b c d e f"
| "ether_of _ = EtherAddr 0 0 0 0 0 0"

abbreviation ETHER_ADDR_LEN :: nat where
  "ETHER_ADDR_LEN \<equiv> 6"

lemma length_octets [simp]: "length (octets a) = 6"
  by (cases a) simp

lemma ether_of_octets [simp]: "ether_of (octets a) = a"
  by (cases a) simp

lemma ether_of_append [simp]: "ether_of (octets a @ xs) = a"
  by (cases a) simp

lemma octets_ether_of: "length xs = 6 \<Longrightarrow> octets (ether_of xs) = xs"
  by (cases xs rule: ether_of.cases) auto

lemma octets_inj [simp]: "octets a = octets b \<longleftrightarrow> a = b"
  by (metis ether_of_octets)

lemma octets_nth: "octets a = map ((!) (octets a)) [0, 1, 2, 3, 4, 5]"
  by (cases a) simp

section \<open>compare\_ether\_addr and the order it decides\<close>

definition compare_ether_addr :: "ether_addr \<Rightarrow> ether_addr \<Rightarrow> int" where
  "compare_ether_addr a b = memcmp (octets a) (octets b)"

instantiation ether_addr :: linorder
begin

definition less_eq_ether_addr :: "ether_addr \<Rightarrow> ether_addr \<Rightarrow> bool" where
  "a \<le> b \<longleftrightarrow> memcmp (octets a) (octets b) \<le> 0"

definition less_ether_addr :: "ether_addr \<Rightarrow> ether_addr \<Rightarrow> bool" where
  "a < b \<longleftrightarrow> memcmp (octets a) (octets b) < 0"

instance
proof
  fix x y z :: ether_addr
  have swap: "memcmp (octets y) (octets x) = - memcmp (octets x) (octets y)"
    by (rule memcmp_swap) simp
  show "(x < y) = (x \<le> y \<and> \<not> y \<le> x)"
    using swap by (auto simp: less_eq_ether_addr_def less_ether_addr_def)
  show "x \<le> x"
    using memcmp_eq_0 [of "octets x" "octets x"] by (simp add: less_eq_ether_addr_def)
  show "x \<le> y \<Longrightarrow> y \<le> z \<Longrightarrow> x \<le> z"
    unfolding less_eq_ether_addr_def by (rule memcmp_trans [where ys = "octets y"]) auto
  show "x \<le> y \<Longrightarrow> y \<le> x \<Longrightarrow> x = y"
    using swap memcmp_eq_0 [of "octets x" "octets y"]
    by (simp add: less_eq_ether_addr_def)
  show "x \<le> y \<or> y \<le> x"
    using swap by (auto simp: less_eq_ether_addr_def)
qed

end

lemma compare_ether_addr_eq [simp]: "compare_ether_addr a b = 0 \<longleftrightarrow> a = b"
  by (simp add: compare_ether_addr_def memcmp_eq_0)

lemma compare_ether_addr_le [simp]: "compare_ether_addr a b \<le> 0 \<longleftrightarrow> a \<le> b"
  by (simp add: compare_ether_addr_def less_eq_ether_addr_def)

lemma compare_ether_addr_less [simp]: "compare_ether_addr a b < 0 \<longleftrightarrow> a < b"
  by (simp add: compare_ether_addr_def less_ether_addr_def)

end
