(* ===== verification/Printing.thy ===== *)
theory Printing
  imports Prelude
begin

text \<open>
  The string building the C code does with \<open>cur += snprintf(cur, cur < end ? end - cur : 0,
  ...)\<close>: a buffer, the position \<open>cur\<close> in it and its end. \<open>snprintf\<close> stores at most
  \<open>n - 1\<close> bytes and a terminator and returns the length of the whole text, so \<open>cur\<close> may
  run past the end while the buffer keeps the truncated text.
\<close>

section \<open>Formatting of numbers\<close>

fun dec_digits :: "nat \<Rightarrow> u8 list" where
  "dec_digits n = (if n < 10 then [of_nat (48 + n)] else dec_digits (n div 10) @ [of_nat (48 + n mod 10)])"

declare dec_digits.simps [simp del]

definition fmt_u :: "u32 \<Rightarrow> u8 list" where
  "fmt_u w = dec_digits (unat w)"

definition fmt_d :: "int \<Rightarrow> u8 list" where
  "fmt_d i = (if i < 0 then 45 # dec_digits (nat (- i)) else dec_digits (nat i))"

section \<open>snprintf into a buffer\<close>

definition snprintf_at :: "u8 list \<Rightarrow> nat \<Rightarrow> nat \<Rightarrow> u8 list \<Rightarrow> u8 list" where
  "snprintf_at buf cur' n str =
     (if n = 0 then buf else overwrite buf cur' (take (n - 1) str @ [0]))"

text \<open>One line \<open>cur += snprintf(cur, cur < end ? end - cur : 0, ...)\<close>.\<close>

definition print_step :: "nat \<Rightarrow> u8 list \<times> nat \<Rightarrow> u8 list \<Rightarrow> u8 list \<times> nat" where
  "print_step fin st str =
     (let (buf, cur') = st
      in (snprintf_at buf cur' (if cur' < fin then fin - cur' else 0) str, cur' + length str))"

text \<open>
  What a sequence of prints establishes: after the texts \<open>str\<close> the buffer from \<open>start\<close> on
  holds as much of them as fits, terminated.
\<close>

definition printed :: "u8 list \<Rightarrow> nat \<Rightarrow> nat \<Rightarrow> u8 list \<Rightarrow> u8 list \<times> nat \<Rightarrow> bool" where
  "printed buf0 start fin str st \<longleftrightarrow>
     snd st = start + length str \<and> length (fst st) = length buf0 \<and>
     take start (fst st) = take start buf0 \<and> drop fin (fst st) = drop fin buf0 \<and>
     (start < fin \<and> str \<noteq> [] \<longrightarrow>
        slice (fst st) start (min (length str) (fin - start - 1) + 1)
          = take (fin - start - 1) str @ [0])"

lemma printed_init: "printed buf0 start fin [] (buf0, start)"
  by (simp add: printed_def)

lemma take_append_overwrite:
  assumes "slice buf s k = a" and "s + k + length b \<le> length buf"
  shows "slice (overwrite buf (s + k) b) s (k + length b) = a @ b"
proof -
  have "length a = k" using assms by auto
  then show ?thesis
    using assms by (auto simp: slice_add slice_overwrite_same slice_overwrite_other)
qed

lemma print_step_simps:
  "fst (print_step fin st str) =
     snprintf_at (fst st) (snd st) (if snd st < fin then fin - snd st else 0) str"
  "snd (print_step fin st str) = snd st + length str"
  by (simp_all add: print_step_def split_beta)

lemma print_step_printed:
  assumes st: "printed buf0 start fin str st" and fin: "fin \<le> length buf0" "start \<le> fin"
  shows "printed buf0 start fin (str @ new) (print_step fin st new)"
proof (cases "snd st < fin")
  case False
  then have "fst (print_step fin st new) = fst st"
    by (simp add: print_step_simps snprintf_at_def)
  moreover have "snd (print_step fin st new) = snd st + length new"
    by (simp add: print_step_simps)
  moreover have "fin - start \<le> length str" using False st by (auto simp: printed_def)
  ultimately show ?thesis
    using st fin by (cases "start < fin") (auto simp: printed_def)
next
  case True
  let ?c = "snd st" and ?n = "fin - snd st"
  let ?w = "take (?n - 1) new @ [0]"
  have c: "?c = start + length str" and len: "length (fst st) = length buf0"
    and pre: "take start (fst st) = take start buf0" and post: "drop fin (fst st) = drop fin buf0"
    using st by (auto simp: printed_def)
  have buf: "fst (print_step fin st new) = overwrite (fst st) ?c ?w"
    and cur': "snd (print_step fin st new) = ?c + length new"
    using True by (simp_all add: print_step_simps snprintf_at_def)
  have w: "length ?w \<le> ?n" and fits: "?c + length ?w \<le> length (fst st)" "?c + length ?w \<le> fin"
    using True fin len by auto
  have old: "slice (fst st) start (length str) = str"
  proof (cases "str = []")
    case False
    moreover have "min (length str) (fin - start - 1) = length str" using True c by simp
    ultimately have "slice (fst st) start (length str + 1) = take (fin - start - 1) str @ [0]"
      using st True c unfolding printed_def by simp
    moreover have "take (fin - start - 1) str = str" using True c by simp
    ultimately have "take (length str) (slice (fst st) start (length str + 1)) = str" by simp
    then show ?thesis by (simp add: slice_def min_def)
  qed (simp add: slice_def)
  have "slice (overwrite (fst st) ?c ?w) start (length str + length ?w) = str @ ?w"
    using take_append_overwrite [OF old, of ?w] fits c by simp
  moreover have "length str + length ?w = min (length (str @ new)) (fin - start - 1) + 1"
    and "str @ ?w = take (fin - start - 1) (str @ new) @ [0]"
    using True c by auto
  moreover have "take start (overwrite (fst st) ?c ?w) = take start buf0"
    using pre c fits by (subst take_overwrite) auto
  moreover have "drop fin (overwrite (fst st) ?c ?w) = drop fin buf0"
    using post fits by (subst drop_overwrite) auto
  ultimately show ?thesis
    using c len fits unfolding printed_def buf cur' by simp
qed

end
