(* ===== verification/Election_State.thy ===== *)
theory Election_State
  imports Ether Printing
begin

text \<open>
  The election state of a node (election.h) and the operations of election.c that concern one
  state: initialisation, the comparison of masters and the printed tree. The election itself
  is in theory Election.
\<close>

abbreviation APPLE_P2P_ELECTION_TREE_MAX_HEIGHT :: u32 where
  "APPLE_P2P_ELECTION_TREE_MAX_HEIGHT \<equiv> 10"
abbreviation APPLE_P2P_ELECTION_METRIC_INIT :: u32 where "APPLE_P2P_ELECTION_METRIC_INIT \<equiv> 60"
abbreviation APPLE_P2P_ELECTION_COUNTER_INIT :: u32 where "APPLE_P2P_ELECTION_COUNTER_INIT \<equiv> 0"

record apple_p2p_election_state =
  e_master_addr :: ether_addr
  e_sync_addr :: ether_addr
  e_self_addr :: ether_addr
  e_height :: u32
  e_master_metric :: u32
  e_self_metric :: u32
  e_master_counter :: u32
  e_self_counter :: u32

text \<open>A state to instantiate lemmas with.\<close>

definition sample_election :: "u8 \<Rightarrow> apple_p2p_election_state" where
  "sample_election n = \<lparr>e_master_addr = EtherAddr 2 0 0 0 0 n, e_sync_addr = EtherAddr 2 0 0 0 0 n,
     e_self_addr = EtherAddr 2 0 0 0 0 n, e_height = 0, e_master_metric = 60, e_self_metric = 60,
     e_master_counter = 0, e_self_counter = 0\<rparr>"

text \<open>The static function \<open>compare\<close>.\<close>

definition compare_u32 :: "u32 \<Rightarrow> u32 \<Rightarrow> int" where
  "compare_u32 a b = (if a < b then -1 else if a > b then 1 else 0)"

definition apple_p2p_election_is_sync_master :: "apple_p2p_election_state \<Rightarrow> ether_addr \<Rightarrow> bool" where
  "apple_p2p_election_is_sync_master state addr \<longleftrightarrow> compare_ether_addr (e_sync_addr state) addr = 0"

definition apple_p2p_election_reset_metric :: "apple_p2p_election_state \<Rightarrow> apple_p2p_election_state" where
  "apple_p2p_election_reset_metric state =
     state\<lparr>e_self_counter := APPLE_P2P_ELECTION_COUNTER_INIT,
           e_self_metric := APPLE_P2P_ELECTION_METRIC_INIT\<rparr>"

definition apple_p2p_election_reset_self :: "apple_p2p_election_state \<Rightarrow> apple_p2p_election_state" where
  "apple_p2p_election_reset_self state =
     state\<lparr>e_height := 0, e_master_addr := e_self_addr state, e_sync_addr := e_self_addr state,
           e_master_metric := e_self_metric state, e_master_counter := e_self_counter state\<rparr>"

definition apple_p2p_election_state_init ::
  "apple_p2p_election_state \<Rightarrow> ether_addr \<Rightarrow> apple_p2p_election_state" where
  "apple_p2p_election_state_init state self =
     (let state = state\<lparr>e_master_addr := self, e_sync_addr := self, e_self_addr := self\<rparr>;
          state = apple_p2p_election_reset_metric state
      in apple_p2p_election_reset_self state)"

definition apple_p2p_election_compare_master ::
  "apple_p2p_election_state \<Rightarrow> apple_p2p_election_state \<Rightarrow> int" where
  "apple_p2p_election_compare_master a b =
     (let result = compare_u32 (e_master_counter a) (e_master_counter b)
      in if result = 0 then compare_u32 (e_master_metric a) (e_master_metric b) else result)"

text \<open>The initialisation sets every field: what the memory held before does not matter.\<close>

lemma election_state_init_eq:
  "apple_p2p_election_state_init state self =
     \<lparr>e_master_addr = self, e_sync_addr = self, e_self_addr = self, e_height = 0,
      e_master_metric = 60, e_self_metric = 60, e_master_counter = 0, e_self_counter = 0\<rparr>"
  by (simp add: apple_p2p_election_state_init_def apple_p2p_election_reset_metric_def
      apple_p2p_election_reset_self_def Let_def)

lemma compare_u32_simps [simp]:
  "compare_u32 a b = 0 \<longleftrightarrow> a = b" "compare_u32 a b < 0 \<longleftrightarrow> a < b" "0 < compare_u32 a b \<longleftrightarrow> b < a"
  by (auto simp: compare_u32_def)

lemma compare_master_less:
  "apple_p2p_election_compare_master a b < 0 \<longleftrightarrow>
     e_master_counter a < e_master_counter b \<or>
     e_master_counter a = e_master_counter b \<and> e_master_metric a < e_master_metric b"
  and compare_master_eq:
  "apple_p2p_election_compare_master a b = 0 \<longleftrightarrow>
     e_master_counter a = e_master_counter b \<and> e_master_metric a = e_master_metric b"
  by (auto simp: apple_p2p_election_compare_master_def Let_def)

section \<open>Printing the tree\<close>

text \<open>\<open>ntoa\<close> is \<open>ether_ntoa\<close> of the C library; \<open>fin\<close> is \<open>end\<close>, a position in the buffer.\<close>

fun print_dashes :: "nat \<Rightarrow> nat \<Rightarrow> u8 list \<times> nat \<Rightarrow> u8 list \<times> nat" where
  "print_dashes 0 fin st = st"
| "print_dashes (Suc n) fin st = print_dashes n fin (print_step fin st (bytes_of ''-''))"

definition apple_p2p_election_tree_print ::
  "(ether_addr \<Rightarrow> u8 list) \<Rightarrow> apple_p2p_election_state \<Rightarrow> nat \<Rightarrow> u8 list \<times> nat \<Rightarrow> u8 list \<times> nat" where
  "apple_p2p_election_tree_print ntoa state fin st =
     (let st = print_step fin st (ntoa (e_self_addr state));
          st = (if e_height state > 0
                then print_step fin st (bytes_of '' -> '' @ ntoa (e_sync_addr state)) else st);
          st = (if e_height state > 1
                then let st = print_step fin st (bytes_of '' '');
                         st = print_dashes (unat (e_height state) - 1) fin st
                     in print_step fin st (bytes_of ''> '' @ ntoa (e_master_addr state))
                else st)
      in print_step fin st (bytes_of '' (met '' @ fmt_u (e_master_metric state) @
           bytes_of '', ctr '' @ fmt_u (e_master_counter state) @ bytes_of '')''))"

definition tree_text :: "(ether_addr \<Rightarrow> u8 list) \<Rightarrow> apple_p2p_election_state \<Rightarrow> u8 list" where
  "tree_text ntoa state =
     ntoa (e_self_addr state) @
     (if e_height state > 0 then bytes_of '' -> '' @ ntoa (e_sync_addr state) else []) @
     (if e_height state > 1 then bytes_of '' '' @
        concat (replicate (unat (e_height state) - 1) (bytes_of ''-'')) @
        bytes_of ''> '' @ ntoa (e_master_addr state) else []) @
     bytes_of '' (met '' @ fmt_u (e_master_metric state) @
       bytes_of '', ctr '' @ fmt_u (e_master_counter state) @ bytes_of '')''"

lemma print_dashes_printed:
  assumes "printed buf0 start fin str st" and "fin \<le> length buf0" and "start \<le> fin"
  shows "printed buf0 start fin (str @ concat (replicate n (bytes_of ''-''))) (print_dashes n fin st)"
  using assms(1)
proof (induction n arbitrary: str st)
  case (Suc n)
  then have "printed buf0 start fin (str @ bytes_of ''-'') (print_step fin st (bytes_of ''-''))"
    using assms(2,3) by (intro print_step_printed) auto
  from Suc.IH [OF this] show ?case by simp
qed simp

lemma tree_print_printed:
  assumes "printed buf0 start fin str st" and "fin \<le> length buf0" and "start \<le> fin"
  shows "printed buf0 start fin (str @ tree_text ntoa state) (apple_p2p_election_tree_print ntoa state fin st)"
proof -
  note step = print_step_printed [OF _ assms(2,3)]
  let ?s1 = "print_step fin st (ntoa (e_self_addr state))"
  let ?t1 = "str @ ntoa (e_self_addr state)"
  let ?s2 = "if e_height state > 0
    then print_step fin ?s1 (bytes_of '' -> '' @ ntoa (e_sync_addr state)) else ?s1"
  let ?t2 = "?t1 @ (if e_height state > 0 then bytes_of '' -> '' @ ntoa (e_sync_addr state) else [])"
  let ?s3 = "if e_height state > 1
    then print_step fin (print_dashes (unat (e_height state) - 1) fin (print_step fin ?s2 (bytes_of '' '')))
      (bytes_of ''> '' @ ntoa (e_master_addr state)) else ?s2"
  let ?t3 = "?t2 @ (if e_height state > 1 then bytes_of '' '' @
      concat (replicate (unat (e_height state) - 1) (bytes_of ''-'')) @
      bytes_of ''> '' @ ntoa (e_master_addr state) else [])"
  have 1: "printed buf0 start fin ?t1 ?s1" using assms(1) by (rule step)
  then have 2: "printed buf0 start fin ?t2 ?s2" using step [OF 1] by simp
  then have 3: "printed buf0 start fin ?t3 ?s3"
    using step [OF print_dashes_printed [OF step [OF 2, of "bytes_of '' ''"] assms(2,3)]] by simp
  from step [OF 3, of "bytes_of '' (met '' @ fmt_u (e_master_metric state) @
      bytes_of '', ctr '' @ fmt_u (e_master_counter state) @ bytes_of '')''"]
  show ?thesis
    unfolding apple_p2p_election_tree_print_def tree_text_def Let_def
    by (simp only: append_assoc)
qed

text \<open>Printing an election tree of any height into a buffer of \<open>len\<close> bytes changes no
  byte outside of it, leaves as much of the text as fits with a terminator, and returns the
  length of the whole text.\<close>

theorem tree_print_in_bounds:
  assumes "0 < len" and "len \<le> length buf"
  shows "let (buf', cur') = apple_p2p_election_tree_print ntoa state len (buf, 0) in
    cur' = length (tree_text ntoa state) \<and> length buf' = length buf \<and>
    drop len buf' = drop len buf \<and>
    take (min cur' (len - 1) + 1) buf' = take (len - 1) (tree_text ntoa state) @ [0]"
proof -
  have "tree_text ntoa state \<noteq> []" by (simp add: tree_text_def bytes_of_def)
  then show ?thesis
    using tree_print_printed [OF printed_init [of buf 0 len] assms(2), of ntoa state] assms(1)
    by (auto simp: printed_def slice_def split: prod.splits)
qed

theorem tree_print_in_bounds_witness:
  "let (buf', cur') = apple_p2p_election_tree_print (\<lambda>a. [65, 66])
       (sample_election 1) 4 ([7, 7, 7, 7, 7, 7], 0)
   in length buf' = 6 \<and> drop 4 buf' = [7, 7]"
  using tree_print_in_bounds [of 4 "[7, 7, 7, 7, 7, 7]" "\<lambda>a. [65, 66]"
      "sample_election 1"]
  by (auto split: prod.splits)

end
