(* ===== verification/Channel.thy ===== *)
theory Channel
  imports Printing "HOL-Library.Signed_Division"
begin

text \<open>
  channel.c and version.c: channel descriptors and their three encodings, channel
  sequences, the channel/frequency tables of IEEE 802.11, protocol versions and device
  classes.
\<close>

section \<open>Channels\<close>

text \<open>The union of channel.h: the two bytes \<open>val[0]\<close> and \<open>val[1]\<close>.\<close>

datatype apple_p2p_chan = Chan (chan_val0: u8) (chan_val1: u8)

abbreviation APPLE_P2P_CHANSEQ_LENGTH :: nat where "APPLE_P2P_CHANSEQ_LENGTH \<equiv> 16"

text \<open>An encoding comes from the wire as any number.\<close>

type_synonym chan_encoding = int

abbreviation APPLE_P2P_CHAN_ENC_SIMPLE :: chan_encoding where "APPLE_P2P_CHAN_ENC_SIMPLE \<equiv> 0"
abbreviation APPLE_P2P_CHAN_ENC_LEGACY :: chan_encoding where "APPLE_P2P_CHAN_ENC_LEGACY \<equiv> 1"
abbreviation APPLE_P2P_CHAN_ENC_OPCLASS :: chan_encoding where "APPLE_P2P_CHAN_ENC_OPCLASS \<equiv> 3"

definition CHAN_NULL :: apple_p2p_chan where "CHAN_NULL = Chan 0 0"
definition CHAN_OPCLASS_6 :: apple_p2p_chan where "CHAN_OPCLASS_6 = Chan 6 0x51"
definition CHAN_OPCLASS_44 :: apple_p2p_chan where "CHAN_OPCLASS_44 = Chan 44 0x80"
definition CHAN_OPCLASS_149 :: apple_p2p_chan where "CHAN_OPCLASS_149 = Chan 149 0x80"

record apple_p2p_channel_state =
  ch_enc :: chan_encoding
  ch_sequence :: "apple_p2p_chan list"
  ch_master :: apple_p2p_chan
  ch_current :: apple_p2p_chan

definition apple_p2p_chanseq_init :: "apple_p2p_chan list" where
  "apple_p2p_chanseq_init =
     map (\<lambda>i. if i < 8 then CHAN_OPCLASS_149 else CHAN_OPCLASS_6) [0..<APPLE_P2P_CHANSEQ_LENGTH]"

definition apple_p2p_chanseq_init_idle :: "apple_p2p_chan list" where
  "apple_p2p_chanseq_init_idle =
     map (\<lambda>i. if i = 8 then CHAN_OPCLASS_6
              else if i = 0 \<or> i = 9 \<or> i = 10 then CHAN_OPCLASS_149
              else CHAN_NULL) [0..<APPLE_P2P_CHANSEQ_LENGTH]"

definition apple_p2p_chanseq_init_static :: "apple_p2p_chan \<Rightarrow> apple_p2p_chan list" where
  "apple_p2p_chanseq_init_static chan = map (\<lambda>i. chan) [0..<APPLE_P2P_CHANSEQ_LENGTH]"

definition apple_p2p_chan_num :: "apple_p2p_chan \<Rightarrow> chan_encoding \<Rightarrow> u8" where
  "apple_p2p_chan_num chan enc =
     (if enc = APPLE_P2P_CHAN_ENC_SIMPLE then chan_val0 chan
      else if enc = APPLE_P2P_CHAN_ENC_LEGACY then chan_val1 chan
      else if enc = APPLE_P2P_CHAN_ENC_OPCLASS then chan_val0 chan
      else 0)"

definition apple_p2p_chan_encoding_size :: "chan_encoding \<Rightarrow> int" where
  "apple_p2p_chan_encoding_size enc =
     (if enc = APPLE_P2P_CHAN_ENC_SIMPLE then 1
      else if enc = APPLE_P2P_CHAN_ENC_LEGACY \<or> enc = APPLE_P2P_CHAN_ENC_OPCLASS then 2
      else -1)"

lemma length_chanseq [simp]:
  "length apple_p2p_chanseq_init = 16" "length apple_p2p_chanseq_init_idle = 16"
  "length (apple_p2p_chanseq_init_static c) = 16"
  by (simp_all add: apple_p2p_chanseq_init_def apple_p2p_chanseq_init_idle_def
      apple_p2p_chanseq_init_static_def)

lemma chanseq_init_static_nth [simp]: "i < 16 \<Longrightarrow> apple_p2p_chanseq_init_static c ! i = c"
  by (simp add: apple_p2p_chanseq_init_static_def)

section \<open>Channel numbers and frequencies\<close>

definition ieee80211_channel_to_frequency :: "int \<Rightarrow> int" where
  "ieee80211_channel_to_frequency chan =
     (if chan \<le> 0 then 0
      else if chan = 14 then 2484
      else if chan < 14 then 2407 + chan * 5
      else if chan < 32 then 0
      else if chan \<ge> 182 \<and> chan \<le> 196 then 4000 + chan * 5
      else 5000 + chan * 5)"

definition ieee80211_frequency_to_channel :: "int \<Rightarrow> int" where
  "ieee80211_frequency_to_channel freq =
     (if freq = 2484 then 14
      else if freq < 2484 then (freq - 2407) sdiv 5
      else if freq \<ge> 4910 \<and> freq \<le> 4980 then (freq - 4000) sdiv 5
      else if freq \<le> 45000 then (freq - 5000) sdiv 5
      else if freq \<ge> 58320 \<and> freq \<le> 64800 then (freq - 56160) sdiv 2160
      else 0)"

lemma sdiv_5 [simp]: "0 \<le> c \<Longrightarrow> (c * 5) sdiv 5 = (c :: int)"
  by (simp add: signed_divide_int_def sgn_if)

text \<open>Every supported channel number survives the round trip through its centre
  frequency, over the 2 GHz band, the 4.9 GHz band and the 5 GHz band; the other numbers have
  no frequency.\<close>

theorem channel_frequency_roundtrip:
  assumes "c \<le> 8000"
  shows "ieee80211_frequency_to_channel (ieee80211_channel_to_frequency c) =
      (if ieee80211_channel_to_frequency c = 0 then -481 else c) \<and>
    (ieee80211_channel_to_frequency c = 0 \<longleftrightarrow> c \<le> 0 \<or> 15 \<le> c \<and> c < 32)"
proof -
  consider "c \<le> 0 \<or> 15 \<le> c \<and> c < 32" | "1 \<le> c" "c \<le> 13" | "c = 14"
    | "182 \<le> c" "c \<le> 196" | "32 \<le> c" "c < 182 \<or> 196 < c" by linarith
  then show ?thesis
  proof cases
    case 1
    then have "ieee80211_channel_to_frequency c = 0" by (auto simp: ieee80211_channel_to_frequency_def)
    then show ?thesis using 1 by (simp add: ieee80211_frequency_to_channel_def signed_divide_int_def)
  qed (use assms in \<open>auto simp: ieee80211_channel_to_frequency_def ieee80211_frequency_to_channel_def\<close>)
qed

theorem channel_frequency_roundtrip_witness:
  "ieee80211_frequency_to_channel (ieee80211_channel_to_frequency 149) = 149 \<and>
   ieee80211_channel_to_frequency 149 = 5745"
  using channel_frequency_roundtrip [of 149] by (simp add: ieee80211_channel_to_frequency_def)

section \<open>Versions and device classes\<close>

definition apple_p2p_version :: "int \<Rightarrow> int \<Rightarrow> u8" where
  "apple_p2p_version major minor =
     word_of_int (push_bit 4 major AND 0xf0) OR word_of_int (minor AND 0x0f)"

definition apple_p2p_version_major :: "u8 \<Rightarrow> int" where
  "apple_p2p_version_major v = uint (drop_bit 4 v AND 0xf)"

definition apple_p2p_version_minor :: "u8 \<Rightarrow> int" where
  "apple_p2p_version_minor v = uint (v AND 0xf)"

abbreviation APPLE_P2P_DEVCLASS_MACOS :: u8 where "APPLE_P2P_DEVCLASS_MACOS \<equiv> 1"
abbreviation APPLE_P2P_DEVCLASS_IOS :: u8 where "APPLE_P2P_DEVCLASS_IOS \<equiv> 2"
abbreviation APPLE_P2P_DEVCLASS_TVOS :: u8 where "APPLE_P2P_DEVCLASS_TVOS \<equiv> 8"

definition apple_p2p_devclass_to_str :: "u8 \<Rightarrow> string" where
  "apple_p2p_devclass_to_str devclass =
     (if devclass = APPLE_P2P_DEVCLASS_MACOS then ''macOS''
      else if devclass = APPLE_P2P_DEVCLASS_IOS then ''iOS''
      else if devclass = APPLE_P2P_DEVCLASS_TVOS then ''tvOS''
      else ''Unknown'')"

text \<open>The text \<open>major.minor\<close> in a static buffer of 64 bytes.\<close>

definition apple_p2p_version_to_str :: "u8 list \<Rightarrow> u8 \<Rightarrow> u8 list" where
  "apple_p2p_version_to_str str v =
     (let st = (str, 0);
          st = print_step 64 st (fmt_d (apple_p2p_version_major v));
          st = print_step 64 st (bytes_of ''.'');
          st = print_step 64 st (fmt_d (apple_p2p_version_minor v))
      in fst st)"

lemma nibble_masks:
  "(0x0f :: 'a::len word) = mask 4" "(0x0f :: int) = mask 4" "(0xf0 :: int) = push_bit 4 (mask 4)"
  by (simp_all add: mask_eq_exp_minus_1 push_bit_eq_mult)

lemma version_bits:
  "apple_p2p_version major minor =
     push_bit 4 (word_of_int (take_bit 4 major)) OR word_of_int (take_bit 4 minor)"
  unfolding apple_p2p_version_def nibble_masks
  by (rule bit_word_eqI) (auto simp: bit_simps)

lemma major_take_bit: "apple_p2p_version_major v = uint (drop_bit 4 v)"
  unfolding apple_p2p_version_major_def nibble_masks
  by (rule arg_cong [where f = uint], rule bit_word_eqI) (auto simp: bit_simps dest: bit_imp_le_length)

lemma minor_take_bit: "apple_p2p_version_minor v = uint (take_bit 4 v)"
  unfolding apple_p2p_version_minor_def nibble_masks by (simp add: take_bit_eq_mask)

text \<open>A version octet and its two nibbles determine each other: packing keeps the low
  four bits of both numbers, and packing the unpacked numbers gives the octet back.\<close>

theorem version_roundtrip:
  "apple_p2p_version_major (apple_p2p_version ma mi) = ma mod 16 \<and>
   apple_p2p_version_minor (apple_p2p_version ma mi) = mi mod 16 \<and>
   apple_p2p_version (apple_p2p_version_major v) (apple_p2p_version_minor v) = v"
proof (intro conjI)
  have "drop_bit 4 (apple_p2p_version ma mi) = word_of_int (take_bit 4 ma)"
    unfolding version_bits by (rule bit_word_eqI) (auto simp: bit_simps)
  then show "apple_p2p_version_major (apple_p2p_version ma mi) = ma mod 16"
    unfolding major_take_bit by (simp add: uint_word_of_int take_bit_eq_mod mod_mod_trivial)
  have "take_bit 4 (apple_p2p_version ma mi) = word_of_int (take_bit 4 mi)"
    unfolding version_bits by (rule bit_word_eqI) (auto simp: bit_simps)
  then show "apple_p2p_version_minor (apple_p2p_version ma mi) = mi mod 16"
    unfolding minor_take_bit by (simp add: uint_word_of_int take_bit_eq_mod)
  show "apple_p2p_version (apple_p2p_version_major v) (apple_p2p_version_minor v) = v"
    unfolding version_bits major_take_bit minor_take_bit
    by (rule bit_word_eqI) (auto simp: bit_simps)
qed

end
