(* ===== verification/Peers.thy ===== *)
theory Peers
  imports Hashmap Election_State Channel
begin

text \<open>
  peers.c: the table of neighbours, a hash map from addresses to peer structures. The C code
  keeps pointers to the structures in the map and changes them in place; here the map holds
  the structures, and a write through a pointer that a lookup returned is \<open>peer_write\<close>.
  Callbacks are recorded: the operations return the list of peers the callback is called with
  (empty when it is NULL).
\<close>

section \<open>Peers\<close>

abbreviation PEERS_DEFAULT_TIMEOUT :: u64 where "PEERS_DEFAULT_TIMEOUT \<equiv> 2000000"
abbreviation PEERS_DEFAULT_CLEAN_INTERVAL :: u64 where "PEERS_DEFAULT_CLEAN_INTERVAL \<equiv> 1000000"
abbreviation HOST_NAME_LENGTH_MAX :: nat where "HOST_NAME_LENGTH_MAX \<equiv> 64"

datatype peers_status = PEERS_UPDATE | PEERS_OK | PEERS_MISSING | PEERS_INTERNAL

fun peers_status_code :: "peers_status \<Rightarrow> int" where
  "peers_status_code PEERS_UPDATE = 1"
| "peers_status_code PEERS_OK = 0"
| "peers_status_code PEERS_MISSING = -1"
| "peers_status_code PEERS_INTERNAL = -2"

text \<open>\<open>p_name\<close> holds the bytes stored before the terminating zero, \<open>p_country_code\<close> the
  array of three bytes.\<close>

record apple_p2p_peer =
  p_addr :: ether_addr
  p_last_update :: u64
  p_election :: apple_p2p_election_state
  p_sequence :: "apple_p2p_chan list"
  p_sync_offset :: u64
  p_name :: "u8 list"
  p_country_code :: "u8 list"
  p_infra_addr :: ether_addr
  p_version :: u8
  p_devclass :: u8
  p_supports_v2 :: bool
  p_sent_mif :: bool
  p_is_valid :: bool

text \<open>A peer to instantiate lemmas with.\<close>

definition sample_peer :: "u8 \<Rightarrow> apple_p2p_peer" where
  "sample_peer n = \<lparr>p_addr = EtherAddr 2 0 0 0 0 n, p_last_update = 0, p_election = sample_election n,
     p_sequence = apple_p2p_chanseq_init_static CHAN_OPCLASS_149, p_sync_offset = 0, p_name = [],
     p_country_code = bytes_of ''NA'' @ [0], p_infra_addr = EtherAddr 0 0 0 0 0 0, p_version = 0x34,
     p_devclass = 1, p_supports_v2 = True, p_sent_mif = True, p_is_valid = True\<rparr>"

type_synonym peers_table = "apple_p2p_peer hashmap"

record apple_p2p_peer_state =
  ps_peers :: peers_table
  ps_timeout :: u64
  ps_clean_interval :: u64

definition apple_p2p_peers_init :: "(nat \<Rightarrow> bool) \<Rightarrow> peers_table option" where
  "apple_p2p_peers_init calloc_ok = hashmap_new calloc_ok ETHER_ADDR_LEN"

text \<open>\<open>None\<close>: the table could not be allocated (the code stores NULL).\<close>

definition apple_p2p_peer_state_init :: "(nat \<Rightarrow> bool) \<Rightarrow> apple_p2p_peer_state option" where
  "apple_p2p_peer_state_init calloc_ok =
     (case apple_p2p_peers_init calloc_ok of
        None \<Rightarrow> None
      | Some peers \<Rightarrow> Some \<lparr>ps_peers = peers, ps_timeout = PEERS_DEFAULT_TIMEOUT,
                           ps_clean_interval = PEERS_DEFAULT_CLEAN_INTERVAL\<rparr>)"

definition apple_p2p_peers_length :: "peers_table \<Rightarrow> int" where
  "apple_p2p_peers_length peers = hashmap_length (Some peers)"

definition apple_p2p_peer_is_valid :: "apple_p2p_peer \<Rightarrow> bool" where
  "apple_p2p_peer_is_valid peer \<longleftrightarrow> p_sent_mif peer \<and> p_devclass peer \<noteq> 0 \<and> p_version peer \<noteq> 0"

text \<open>\<open>mem\<close> is what \<open>malloc\<close> returned; \<open>infra_addr\<close> keeps its contents.\<close>

definition apple_p2p_peer_new :: "apple_p2p_peer \<Rightarrow> ether_addr \<Rightarrow> apple_p2p_peer" where
  "apple_p2p_peer_new mem addr =
     mem\<lparr>p_addr := addr, p_last_update := 0,
         p_election := apple_p2p_election_state_init (p_election mem) addr,
         p_sequence := apple_p2p_chanseq_init_static CHAN_NULL,
         p_sync_offset := 0, p_devclass := 0, p_version := 0, p_supports_v2 := False,
         p_sent_mif := False, p_name := [], p_country_code := bytes_of ''NA'' @ [0],
         p_is_valid := False\<rparr>"

text \<open>Storing a changed structure through the pointer the map holds for its address.\<close>

definition peer_write :: "peers_table \<Rightarrow> ether_addr \<Rightarrow> apple_p2p_peer \<Rightarrow> peers_table" where
  "peer_write m addr peer =
     (case get_probe MAX_CHAIN_LENGTH m (octets addr) (hashmap_hash_int m (octets addr)) of
        Some i \<Rightarrow> m\<lparr>hm_data := (hm_data m)[i := (hm_data m ! i)\<lparr>he_data := Some peer\<rparr>]\<rparr>
      | None \<Rightarrow> m)"

text \<open>The label \<open>out\<close>: a peer that has turned valid is announced once.\<close>

definition peer_add_out ::
  "peers_table \<Rightarrow> apple_p2p_peer \<Rightarrow> bool \<Rightarrow> peers_table \<times> apple_p2p_peer list" where
  "peer_add_out peers peer cb =
     (if \<not> p_is_valid peer \<and> apple_p2p_peer_is_valid peer then
        (let peer = peer\<lparr>p_is_valid := True\<rparr>
         in (peer_write peers (p_addr peer) peer, if cb then [peer] else []))
      else (peers, []))"

text \<open>
  \<open>None\<close> stands for a run out of fuel or the use of a NULL entry; both are excluded below.
\<close>

definition apple_p2p_peer_add ::
  "nat \<Rightarrow> (nat \<Rightarrow> bool) \<Rightarrow> apple_p2p_peer \<Rightarrow> peers_table \<Rightarrow> ether_addr \<Rightarrow> u64 \<Rightarrow> bool \<Rightarrow>
    (peers_status \<times> peers_table \<times> apple_p2p_peer list) option" where
  "apple_p2p_peer_add fuel calloc_ok mem peers addr now cb =
     (case hashmap_get peers (octets addr) False of
        (MAP_OK, Some peer, peers) \<Rightarrow>
          (let peer = peer\<lparr>p_last_update := now\<rparr>;
               peers = peer_write peers addr peer;
               (peers, calls) = peer_add_out peers peer cb
           in Some (PEERS_UPDATE, peers, calls))
      | (MAP_MISSING, _, peers) \<Rightarrow>
          (let peer = (apple_p2p_peer_new mem addr)\<lparr>p_last_update := now\<rparr> in
           case hashmap_put fuel calloc_ok peers (octets (p_addr peer)) (Some peer) of
             None \<Rightarrow> None
           | Some (status, peers) \<Rightarrow>
               if status \<noteq> MAP_OK then Some (PEERS_INTERNAL, peers, [])
               else let (peers, calls) = peer_add_out peers peer cb
                    in Some (PEERS_OK, peers, calls))
      | _ \<Rightarrow> None)"

definition apple_p2p_peer_remove ::
  "peers_table \<Rightarrow> ether_addr \<Rightarrow> bool \<Rightarrow> (peers_status \<times> peers_table \<times> apple_p2p_peer list) option" where
  "apple_p2p_peer_remove peers addr cb =
     (case hashmap_get peers (octets addr) True of
        (MAP_MISSING, _, peers) \<Rightarrow> Some (PEERS_MISSING, peers, [])
      | (_, Some peer, peers) \<Rightarrow>
          Some (PEERS_OK, peers, if p_is_valid peer \<and> cb then [peer] else [])
      | _ \<Rightarrow> None)"

definition apple_p2p_peer_get ::
  "peers_table \<Rightarrow> ether_addr \<Rightarrow> peers_status \<times> apple_p2p_peer option" where
  "apple_p2p_peer_get peers addr =
     (case hashmap_get peers (octets addr) False of
        (MAP_MISSING, val, _) \<Rightarrow> (PEERS_MISSING, val)
      | (_, val, _) \<Rightarrow> (PEERS_OK, val))"

section \<open>Loops over the table\<close>

lemma it_remove_table_size:
  "hm_table_size (snd (hashmap_it_remove m it)) = hm_table_size m"
  by (simp add: hashmap_it_remove_def)

text \<open>The loop of \<open>apple_p2p_peers_remove\<close>; \<open>None\<close> is the use of a NULL entry.\<close>

function peers_remove_loop ::
  "u64 \<Rightarrow> bool \<Rightarrow> peers_table \<Rightarrow> int \<Rightarrow> (peers_table \<times> apple_p2p_peer list) option" where
  "peers_remove_loop before cb m it =
     (case hashmap_it_next m it of
        (MAP_OK, it', Some (_, Some peer)) \<Rightarrow>
          (if p_last_update peer < before then
             (let calls = (if p_is_valid peer \<and> cb then [peer] else []);
                  m' = snd (hashmap_it_remove m it')
              in map_option (\<lambda>(m'', cs). (m'', calls @ cs)) (peers_remove_loop before cb m' it'))
           else peers_remove_loop before cb m it')
      | (MAP_OK, _, _) \<Rightarrow> None
      | _ \<Rightarrow> Some (m, []))"
  by pat_completeness auto
termination
  by (relation "measure (\<lambda>(before, cb, m, it). nat (int (hm_table_size m) - it))")
    (auto simp: it_remove_table_size dest!: it_next_progress [OF sym])

declare peers_remove_loop.simps [simp del]

definition apple_p2p_peers_remove ::
  "peers_table \<Rightarrow> u64 \<Rightarrow> bool \<Rightarrow> (peers_table \<times> apple_p2p_peer list) option" where
  "apple_p2p_peers_remove peers before cb = peers_remove_loop before cb peers hashmap_it_new"

text \<open>The structures \<open>apple_p2p_peers_free\<close> frees, in order; then the map itself is freed.\<close>

function peers_free_loop :: "peers_table \<Rightarrow> int \<Rightarrow> apple_p2p_peer option list \<times> peers_table" where
  "peers_free_loop m it =
     (case hashmap_it_next m it of
        (MAP_OK, it', Some (_, peer)) \<Rightarrow>
          (let m' = snd (hashmap_it_remove m it');
               (freed, m'') = peers_free_loop m' it'
           in (peer # freed, m''))
      | _ \<Rightarrow> ([], m))"
  by pat_completeness auto
termination
  by (relation "measure (\<lambda>(m, it). nat (int (hm_table_size m) - it))")
    (auto simp: it_remove_table_size dest!: it_next_progress [OF sym])

declare peers_free_loop.simps [simp del]

definition apple_p2p_peers_free :: "peers_table \<Rightarrow> apple_p2p_peer option list" where
  "apple_p2p_peers_free peers = fst (peers_free_loop peers hashmap_it_new)"

definition apple_p2p_peers_it_next ::
  "peers_table \<Rightarrow> int \<Rightarrow> peers_status \<times> int \<times> apple_p2p_peer option" where
  "apple_p2p_peers_it_next peers it =
     (case hashmap_it_next peers it of
        (MAP_OK, it', Some (_, peer)) \<Rightarrow> (PEERS_OK, it', peer)
      | (_, it', _) \<Rightarrow> (PEERS_MISSING, it', None))"

definition apple_p2p_peers_it_remove :: "peers_table \<Rightarrow> int \<Rightarrow> peers_status \<times> peers_table" where
  "apple_p2p_peers_it_remove peers it =
     (case hashmap_it_remove peers it of
        (MAP_OK, peers') \<Rightarrow> (PEERS_OK, peers')
      | (_, peers') \<Rightarrow> (PEERS_MISSING, peers'))"

section \<open>Printing\<close>

definition apple_p2p_peer_print ::
  "(ether_addr \<Rightarrow> u8 list) \<Rightarrow> apple_p2p_peer \<Rightarrow> nat \<Rightarrow> u8 list \<times> nat \<Rightarrow> u8 list \<times> nat" where
  "apple_p2p_peer_print ntoa peer fin st =
     (let st = (if cstr (p_name peer) \<noteq> [] then print_step fin st (cstr (p_name peer) @ bytes_of '': '')
                else print_step fin st (bytes_of ''<UNNAMED>: ''))
      in apple_p2p_election_tree_print ntoa (p_election peer) fin st)"

function peers_print_loop ::
  "(ether_addr \<Rightarrow> u8 list) \<Rightarrow> nat \<Rightarrow> peers_table \<Rightarrow> int \<Rightarrow> u8 list \<times> nat \<Rightarrow> (u8 list \<times> nat) option" where
  "peers_print_loop ntoa fin m it st =
     (case hashmap_it_next m it of
        (MAP_OK, it', Some (_, Some peer)) \<Rightarrow>
          peers_print_loop ntoa fin m it'
            (print_step fin (apple_p2p_peer_print ntoa peer fin st) [10])
      | (MAP_OK, _, _) \<Rightarrow> None
      | _ \<Rightarrow> Some st)"
  by pat_completeness auto
termination
  by (relation "measure (\<lambda>(ntoa, fin, m, it, st). nat (int (hm_table_size m) - it))")
    (auto dest!: it_next_progress [OF sym])

declare peers_print_loop.simps [simp del]

definition apple_p2p_peers_print ::
  "(ether_addr \<Rightarrow> u8 list) \<Rightarrow> peers_table \<Rightarrow> u8 list \<Rightarrow> nat \<Rightarrow> (u8 list \<times> nat) option" where
  "apple_p2p_peers_print ntoa peers str len = peers_print_loop ntoa len peers hashmap_it_new (str, 0)"

section \<open>Invariant and abstraction\<close>

definition peers_inv :: "peers_table \<Rightarrow> bool" where
  "peers_inv m \<longleftrightarrow> hm_inv m \<and> hm_key_size m = 6 \<and>
     (\<forall>k v. hm_map m k = Some v \<longrightarrow> (\<exists>p. v = Some p \<and> k = octets (p_addr p)))"

definition peer_map :: "peers_table \<Rightarrow> ether_addr \<Rightarrow> apple_p2p_peer option" where
  "peer_map m a = (case hm_map m (octets a) of Some (Some p) \<Rightarrow> Some p | _ \<Rightarrow> None)"

lemma peers_invD:
  assumes "peers_inv m"
  shows "hm_inv m" and "hm_key_size m = 6"
    and "hm_map m k = Some v \<Longrightarrow> \<exists>p. v = Some p \<and> k = octets (p_addr p)"
  using assms by (auto simp: peers_inv_def)

lemma peer_map_hm:
  assumes "peers_inv m"
  shows "hm_map m (octets a) = map_option Some (peer_map m a)"
  using peers_invD(3) [OF assms, of "octets a"] by (auto simp: peer_map_def split: option.splits)

lemma peer_map_addr: "peers_inv m \<Longrightarrow> peer_map m a = Some p \<Longrightarrow> p_addr p = a"
  using peers_invD(3) [of m "octets a" "Some p"] peer_map_hm [of m a] by auto

lemma peers_init_inv:
  assumes "apple_p2p_peers_init ok = Some m"
  shows "peers_inv m" and "peer_map m = Map.empty"
  using hashmap_new_inv [OF assms [unfolded apple_p2p_peers_init_def]]
  by (auto simp: peers_inv_def peer_map_def fun_eq_iff)

lemma peer_map_update:
  assumes "hm_map m' = (hm_map m)(octets a := map_option Some x)"
  shows "peer_map m' = (peer_map m)(a := x)"
  using assms by (auto simp: peer_map_def fun_eq_iff split: option.splits)

lemma peers_inv_update:
  assumes "peers_inv m" and "hm_inv m'" and "hm_key_size m' = 6"
    and "hm_map m' = (hm_map m)(octets a := map_option Some x)"
    and "\<And>p. x = Some p \<Longrightarrow> p_addr p = a"
  shows "peers_inv m'"
  using assms(2-5) peers_invD(3) [OF assms(1)]
  by (cases x) (auto simp: peers_inv_def split: if_splits)

lemma peers_inv_le:
  assumes "peers_inv m" and "hm_inv m'" and "hm_key_size m' = 6" and "hm_map m' \<subseteq>\<^sub>m hm_map m"
  shows "peers_inv m'"
  using assms unfolding peers_inv_def map_le_def by (metis domI)

lemma peer_map_le:
  assumes "hm_map m' \<subseteq>\<^sub>m hm_map m"
  shows "peer_map m' \<subseteq>\<^sub>m peer_map m"
proof (unfold map_le_def, intro ballI)
  fix a
  assume "a \<in> dom (peer_map m')"
  then have "octets a \<in> dom (hm_map m')" by (auto simp: peer_map_def split: option.splits)
  then show "peer_map m' a = peer_map m a" using assms by (simp add: peer_map_def map_le_def)
qed

lemma peer_write_spec:
  assumes "peers_inv m" and "peer_map m a = Some p" and "p_addr p' = a"
  shows "peers_inv (peer_write m a p')" and "peer_map (peer_write m a p') = (peer_map m)(a \<mapsto> p')"
proof -
  have "hm_map m (octets a) \<noteq> None" using peer_map_hm [OF assms(1)] assms(2) by simp
  then obtain i where i: "get_probe MAX_CHAIN_LENGTH m (octets a) (hashmap_hash_int m (octets a)) = Some i"
    "i < hm_table_size m" "he_in_use (hm_data m ! i)" "he_key (hm_data m ! i) = octets a"
    using get_probe_map [of m "octets a"] peers_invD [OF assms(1)] by (auto split: option.splits)
  note w = slot_write_inv [OF peers_invD(1) [OF assms(1)] i(2,3), of "Some p'"]
  have m': "hm_map (peer_write m a p') = (hm_map m)(octets a := map_option Some (Some p'))"
    and inv: "hm_inv (peer_write m a p')"
    using w i by (simp_all add: peer_write_def)
  have "hm_key_size (peer_write m a p') = 6"
    using peers_invD(2) [OF assms(1)] i(1) by (simp add: peer_write_def)
  then show "peers_inv (peer_write m a p')"
    using peers_inv_update [OF assms(1) inv _ m'] assms(3) by simp
  show "peer_map (peer_write m a p') = (peer_map m)(a \<mapsto> p')"
    using peer_map_update [OF m'] by simp
qed

lemma entries_peer:
  assumes "peers_inv m" and "(k, v) \<in> set (entries (hm_data m))"
  shows "\<exists>p. v = Some p \<and> k = octets (p_addr p) \<and> peer_map m (p_addr p) = Some p"
proof -
  have "hm_map m k = Some v" using assms(2) hash.listing_mem [OF peers_invD(1) [OF assms(1)]] by simp
  then show ?thesis using peers_invD(3) [OF assms(1)] by (fastforce simp: peer_map_def)
qed

lemma peer_entries:
  assumes "peers_inv m" and "peer_map m a = Some p"
  shows "(octets a, Some p) \<in> set (entries (hm_data m))"
  using peer_map_hm [OF assms(1), of a] assms(2) hash.listing_mem [OF peers_invD(1) [OF assms(1)]] by simp

text \<open>The peers in iteration order.\<close>

definition peers_list :: "peers_table \<Rightarrow> apple_p2p_peer list" where
  "peers_list m = map (the \<circ> snd) (entries (hm_data m))"

definition peers_listing :: "peers_table \<Rightarrow> (ether_addr \<times> apple_p2p_peer) list" where
  "peers_listing m = map (\<lambda>p. (p_addr p, p)) (peers_list m)"

lemma set_peers_list:
  assumes "peers_inv m"
  shows "p \<in> set (peers_list m) \<longleftrightarrow> peer_map m (p_addr p) = Some p"
  using entries_peer [OF assms] peer_entries [OF assms, of "p_addr p" p]
  by (force simp: peers_list_def image_iff)

lemma distinct_peers_list:
  assumes "peers_inv m"
  shows "distinct (map p_addr (peers_list m))"
proof -
  have "map fst (entries (hm_data m)) = map octets (map p_addr (peers_list m))"
    using entries_peer [OF assms] by (fastforce simp: peers_list_def intro!: map_cong)
  then show ?thesis using hash.listing_distinct [OF peers_invD(1) [OF assms]] by (metis distinct_map)
qed

interpretation peer_table: updatable_table peers_inv peer_map peers_listing peer_write
  "\<lambda>a p. p_addr p = a"
proof
  fix m
  assume inv: "peers_inv m"
  show distinct: "distinct (map fst (peers_listing m))"
    using distinct_peers_list [OF inv] by (simp add: peers_listing_def comp_def)
  have eq: "map_of (peers_listing m) a = Some p \<longleftrightarrow> peer_map m a = Some p" for a p
  proof -
    have "map_of (peers_listing m) a = Some p \<longleftrightarrow> (a, p) \<in> set (peers_listing m)"
      by (rule map_of_eq_Some_iff [OF distinct])
    also have "\<dots> \<longleftrightarrow> a = p_addr p \<and> p \<in> set (peers_list m)" by (auto simp: peers_listing_def)
    also have "\<dots> \<longleftrightarrow> peer_map m a = Some p"
      unfolding set_peers_list [OF inv] using peer_map_addr [OF inv] by blast
    finally show ?thesis .
  qed
  show "peer_map m = map_of (peers_listing m)"
  proof
    fix a
    show "peer_map m a = map_of (peers_listing m) a"
      using eq [of a "the (peer_map m a)"] eq [of a "the (map_of (peers_listing m) a)"]
      by (cases "peer_map m a"; cases "map_of (peers_listing m) a") auto
  qed
next
  fix m a p and p' :: apple_p2p_peer
  assume "peers_inv m" and "peer_map m a = Some p"
  note m = this
  show "p_addr p = a" by (rule peer_map_addr [OF m])
  assume "p_addr p' = a"
  then show "peers_inv (peer_write m a p')" and "peer_map (peer_write m a p') = (peer_map m)(a \<mapsto> p')"
    using peer_write_spec [OF m] by blast+
qed

lemma peer_get_cases:
  assumes "peers_inv m"
  shows "case peer_map m a of
      None \<Rightarrow> hashmap_get m (octets a) remove = (MAP_MISSING, None, m)
    | Some p \<Rightarrow> \<exists>m'. hashmap_get m (octets a) remove = (MAP_OK, Some p, m') \<and> hm_inv m' \<and>
        hm_key_size m' = 6 \<and>
        hm_map m' = (if remove then (hm_map m)(octets a := None) else hm_map m)"
  using hashmap_get_correct [of m "octets a" remove] peers_invD [OF assms] peer_map_hm [OF assms, of a]
  by (auto split: option.splits)

text \<open>A lookup that keeps the entry leaves the table as it is.\<close>

lemma hashmap_get_keep: "hashmap_get m k False = (st, v, m') \<Longrightarrow> m' = m"
  by (auto simp: hashmap_get_def split: option.splits)

lemma peer_get_found:
  "peers_inv m \<Longrightarrow> peer_map m a = Some p \<Longrightarrow> hashmap_get m (octets a) False = (MAP_OK, Some p, m)"
  using peer_get_cases [of m a False] hashmap_get_keep [of m "octets a"] by fastforce

lemma peer_get_absent:
  "peers_inv m \<Longrightarrow> peer_map m a = None \<Longrightarrow> hashmap_get m (octets a) r = (MAP_MISSING, None, m)"
  using peer_get_cases [of m a r] by simp

lemma peer_get_spec:
  "peers_inv m \<Longrightarrow> apple_p2p_peer_get m a =
     (if peer_map m a = None then PEERS_MISSING else PEERS_OK, peer_map m a)"
  by (cases "peer_map m a") (simp_all add: apple_p2p_peer_get_def peer_get_found peer_get_absent)

section \<open>Adding, removing and ageing\<close>

text \<open>What adding makes of a peer: a new or the old structure, touched and perhaps turned valid.\<close>

definition added_peer :: "apple_p2p_peer \<Rightarrow> apple_p2p_peer option \<Rightarrow> ether_addr \<Rightarrow> u64 \<Rightarrow> apple_p2p_peer" where
  "added_peer mem old a now =
     (let p = (case old of None \<Rightarrow> apple_p2p_peer_new mem a | Some p \<Rightarrow> p)\<lparr>p_last_update := now\<rparr>
      in p\<lparr>p_is_valid := p_is_valid p \<or> apple_p2p_peer_is_valid p\<rparr>)"

definition turned_valid :: "apple_p2p_peer option \<Rightarrow> bool" where
  "turned_valid old = (case old of None \<Rightarrow> False
     | Some p \<Rightarrow> \<not> p_is_valid p \<and> apple_p2p_peer_is_valid p)"

lemma peer_add_out_spec:
  assumes "peers_inv m" and "peer_map m a = Some p"
  defines "p' \<equiv> p\<lparr>p_is_valid := p_is_valid p \<or> apple_p2p_peer_is_valid p\<rparr>"
  shows "peers_inv (fst (peer_add_out m p cb)) \<and>
    peer_map (fst (peer_add_out m p cb)) = (peer_map m)(a \<mapsto> p') \<and>
    snd (peer_add_out m p cb) =
      (if cb \<and> \<not> p_is_valid p \<and> apple_p2p_peer_is_valid p then [p'] else [])"
proof (cases "\<not> p_is_valid p \<and> apple_p2p_peer_is_valid p")
  case True
  then have p': "p' = p\<lparr>p_is_valid := True\<rparr>" by (simp add: p'_def)
  have addr: "p_addr p = a" by (rule peer_table.belongs [OF assms(1,2)])
  with p' have "p_addr p' = a" by simp
  then have "peers_inv (peer_write m (p_addr p) p')"
    "peer_map (peer_write m (p_addr p) p') = (peer_map m)(a \<mapsto> p')"
    unfolding addr using peer_table.replace_invar peer_table.replace_abs assms(1,2) by blast+
  moreover have "peer_add_out m p cb = (peer_write m (p_addr p) p', if cb then [p'] else [])"
    unfolding peer_add_out_def using True by (simp add: p' Let_def)
  ultimately show ?thesis using True by simp
next
  case False
  then have "p' = p" by (cases p) (auto simp: p'_def)
  moreover have "(peer_map m)(a \<mapsto> p) = peer_map m" using assms(2) by (rule fun_upd_idem)
  moreover have "peer_add_out m p cb = (m, [])" using False by (auto simp: peer_add_out_def)
  ultimately show ?thesis using assms(1) False by auto
qed

lemma new_peer_invalid [simp]: "\<not> apple_p2p_peer_is_valid (apple_p2p_peer_new mem a)"
  "\<not> p_is_valid (apple_p2p_peer_new mem a)" "p_addr (apple_p2p_peer_new mem a) = a"
  by (simp_all add: apple_p2p_peer_new_def apple_p2p_peer_is_valid_def)

lemma is_valid_last_update [simp]:
  "apple_p2p_peer_is_valid (p\<lparr>p_last_update := x\<rparr>) = apple_p2p_peer_is_valid p"
  by (simp add: apple_p2p_peer_is_valid_def)

lemma peer_add_known:
  assumes inv: "peers_inv m" and Some: "peer_map m a = Some p"
  shows "\<exists>m'. apple_p2p_peer_add fuel ok mem m a now cb = Some (PEERS_UPDATE, m',
      if cb \<and> turned_valid (Some p) then [added_peer mem (Some p) a now] else []) \<and>
    peers_inv m' \<and> peer_map m' = (peer_map m)(a \<mapsto> added_peer mem (Some p) a now)"
proof -
  let ?p = "p\<lparr>p_last_update := now\<rparr>"
  have addr: "p_addr p = a" using peer_map_addr [OF inv Some] .
  have w: "peers_inv (peer_write m a ?p)" "peer_map (peer_write m a ?p) a = Some ?p"
    "peer_map (peer_write m a ?p) = (peer_map m)(a \<mapsto> ?p)"
    using peer_write_spec [OF inv Some, of ?p] addr by simp_all
  obtain m2 cs where out: "peer_add_out (peer_write m a ?p) ?p cb = (m2, cs)" by force
  then have "apple_p2p_peer_add fuel ok mem m a now cb = Some (PEERS_UPDATE, m2, cs)"
    by (simp add: apple_p2p_peer_add_def peer_get_found [OF inv Some] Let_def)
  then show ?thesis
    using peer_add_out_spec [OF w(1,2), of cb] w(3) out
    by (simp add: added_peer_def turned_valid_def Let_def)
qed

lemma peer_add_correct:
  assumes inv: "peers_inv m" and limit: "\<And>n. ok n \<Longrightarrow> n \<le> limit"
    and fuel: "0 < fuel" "2 * limit < 2 ^ fuel * hm_table_size m"
  shows "\<exists>st m' calls. apple_p2p_peer_add fuel ok mem m a now cb = Some (st, m', calls) \<and>
    peers_inv m' \<and>
    (st = PEERS_INTERNAL \<and> peer_map m a = None \<and> peer_map m' \<subseteq>\<^sub>m peer_map m \<and> calls = [] \<or>
     st = (if peer_map m a = None then PEERS_OK else PEERS_UPDATE) \<and>
     peer_map m' = (peer_map m)(a \<mapsto> added_peer mem (peer_map m a) a now) \<and>
     calls = (if cb \<and> turned_valid (peer_map m a) then [added_peer mem (peer_map m a) a now] else []))"
proof (cases "peer_map m a")
  case (Some p)
  then show ?thesis using peer_add_known [OF inv Some, of fuel ok mem now cb] by auto
next
  case None
  let ?p = "(apple_p2p_peer_new mem a)\<lparr>p_last_update := now\<rparr>"
  have hm: "hm_map m (octets a) = None" using peer_map_hm [OF inv, of a] None by simp
  obtain st m1 where put: "hashmap_put fuel ok m (octets a) (Some ?p) = Some (st, m1)"
    and m1: "hm_inv m1" "hm_key_size m1 = 6" "st = MAP_OMEM \<and> hm_map m1 \<subseteq>\<^sub>m hm_map m \<or>
      st = MAP_OK \<and> hm_map m1 = (hm_map m)(octets a \<mapsto> Some ?p)"
    using hashmap_put_correct [of m "octets a" ok limit fuel "Some ?p"] peers_invD(1,2) [OF inv]
      hm limit fuel by auto
  show ?thesis
  proof (cases "st = MAP_OK")
    case True
    then have inv1: "hm_inv m1" and key1: "hm_key_size m1 = 6"
      and map1: "hm_map m1 = (hm_map m)(octets a := map_option Some (Some ?p))"
      using m1 by auto
    have p1: "peers_inv m1" "peer_map m1 = (peer_map m)(a \<mapsto> ?p)"
      using peers_inv_update [OF inv inv1 key1 map1] peer_map_update [OF map1] by simp_all
    then have "peer_map m1 a = Some ?p" by simp
    note out_spec = peer_add_out_spec [OF p1(1) this, of cb]
    obtain m2 cs where out: "peer_add_out m1 ?p cb = (m2, cs)" by force
    then have "apple_p2p_peer_add fuel ok mem m a now cb = Some (PEERS_OK, m2, cs)"
      using True put by (simp add: apple_p2p_peer_add_def peer_get_absent [OF inv None] Let_def)
    then show ?thesis
      using out_spec p1 None out by (simp add: added_peer_def turned_valid_def Let_def)
  next
    case False
    then have le: "hm_map m1 \<subseteq>\<^sub>m hm_map m" using m1(3) by simp
    show ?thesis
      using False None put peers_inv_le [OF inv m1(1,2) le] peer_map_le [OF le]
      by (simp add: apple_p2p_peer_add_def peer_get_absent [OF inv None] Let_def)
  qed
qed



section \<open>Ageing out peers\<close>

definition stale :: "u64 \<Rightarrow> apple_p2p_peer option \<Rightarrow> bool" where
  "stale before v = (case v of Some p \<Rightarrow> p_last_update p < before | None \<Rightarrow> False)"

definition stale_from :: "u64 \<Rightarrow> peers_table \<Rightarrow> int \<Rightarrow> (u8 list \<times> apple_p2p_peer option) list" where
  "stale_from before m it = filter (\<lambda>x. stale before (snd x)) (entries (drop (nat (it + 1)) (hm_data m)))"

text \<open>One round of an iteration, in terms of the entries that are left.\<close>

lemma it_next_entries:
  assumes "peers_inv m" and "-1 \<le> it"
  obtains (last) j where "hashmap_it_next m it = (MAP_MISSING, j, None)"
      and "entries (drop (nat (it + 1)) (hm_data m)) = []"
  | (found) j k p where "hashmap_it_next m it = (MAP_OK, j, Some (k, Some p))"
      and "it < j" and "j < int (hm_table_size m)" and "he_in_use (hm_data m ! nat j)"
      and "he_key (hm_data m ! nat j) = k" and "he_data (hm_data m ! nat j) = Some p"
      and "entries (drop (nat (it + 1)) (hm_data m)) = (k, Some p) # entries (drop (nat (j + 1)) (hm_data m))"
proof -
  let ?j = "it_scan m (it + 1)"
  have len: "length (hm_data m) = hm_table_size m"
    using hm_inv_data [OF peers_invD(1) [OF assms(1)]] by simp
  have ge: "it < ?j" using it_scan_ge [of "it + 1" m] by linarith
  note e = it_scan_entries [OF len, of "it + 1"]
  show thesis
  proof (cases "?j < int (hm_table_size m)")
    case True
    then have e': "entries (drop (nat (it + 1)) (hm_data m)) =
      (he_key (hm_data m ! nat ?j), he_data (hm_data m ! nat ?j)) # entries (drop (nat (?j + 1)) (hm_data m))"
      using e assms(2) by (simp add: Let_def)
    have lt: "nat ?j < hm_table_size m" using True ge assms(2) by linarith
    have used: "he_in_use (hm_data m ! nat ?j)"
    proof -
      have "\<not> (i < int (hm_table_size m) \<and> \<not> he_in_use (hm_data m ! nat i))" if "i = it_scan m i'" for i i'
        using that by (induction m i' arbitrary: i rule: it_scan.induct) (metis it_scan.simps)
      then show ?thesis using True by blast
    qed
    have "hm_map m (he_key (hm_data m ! nat ?j)) = Some (he_data (hm_data m ! nat ?j))"
      by (rule hm_map_slot [OF peers_invD(1) [OF assms(1)] lt used])
    then obtain p where p: "he_data (hm_data m ! nat ?j) = Some p"
      using peers_invD(3) [OF assms(1)] by blast
    show thesis
      by (rule found [OF _ ge True used refl p]) (use True p e' in \<open>simp_all add: hashmap_it_next_def Let_def\<close>)
  next
    case False
    show thesis
      by (rule last) (use False e assms(2) in \<open>simp_all add: hashmap_it_next_def Let_def\<close>)
  qed
qed

lemma remove_slot_spec:
  assumes "peers_inv m" and "0 \<le> j" and "j < int (hm_table_size m)" and "he_in_use (hm_data m ! nat j)"
  shows "peers_inv (snd (hashmap_it_remove m j))"
    and "hm_map (snd (hashmap_it_remove m j)) = (hm_map m)(he_key (hm_data m ! nat j) := None)"
    and "drop (nat (j + 1)) (hm_data (snd (hashmap_it_remove m j))) = drop (nat (j + 1)) (hm_data m)"
proof -
  have eq: "hashmap_it_remove m j = (MAP_OK, blank_slot m (nat j))"
    using assms by (simp add: hashmap_it_remove_def)
  have "nat j < hm_table_size m" using assms by linarith
  note b = blank_slot_inv [OF peers_invD(1) [OF assms(1)] this assms(4)]
  show "hm_map (snd (hashmap_it_remove m j)) = (hm_map m)(he_key (hm_data m ! nat j) := None)"
    using b by (simp add: eq)
  then show "peers_inv (snd (hashmap_it_remove m j))"
    using b peers_invD [OF assms(1)] by (auto simp: peers_inv_def eq split: if_splits)
  show "drop (nat (j + 1)) (hm_data (snd (hashmap_it_remove m j))) = drop (nat (j + 1)) (hm_data m)"
    using assms(2) by (simp add: eq blank_slot_def nat_add_distrib)
qed

lemma peers_remove_loop_spec:
  assumes "peers_inv m" and "-1 \<le> it"
  shows "\<exists>m'. peers_remove_loop before cb m it = Some (m',
      if cb then filter p_is_valid (map (the \<circ> snd) (stale_from before m it)) else []) \<and>
    peers_inv m' \<and>
    hm_map m' = (\<lambda>k. if k \<in> fst ` set (stale_from before m it) then None else hm_map m k)"
  using assms
proof (induction before cb m it rule: peers_remove_loop.induct)
  case (1 before cb m it)
  from 1(3,4) show ?case
  proof (cases rule: it_next_entries)
    case (last j)
    then show ?thesis
      using 1(3) by (subst peers_remove_loop.simps) (simp add: stale_from_def)
  next
    case (found j k p)
    have j: "-1 \<le> j" "0 \<le> j" using found(2) 1(4) by simp_all
    show ?thesis
    proof (cases "p_last_update p < before")
      case True
      let ?m1 = "snd (hashmap_it_remove m j)"
      note r = remove_slot_spec [OF 1(3) j(2) found(3,4)]
      have s1: "stale_from before ?m1 j = stale_from before m j"
        by (simp add: stale_from_def r(3))
      have s: "stale_from before m it = (k, Some p) # stale_from before m j"
        using True by (simp add: stale_from_def found(7) stale_def)
      from 1(1) [OF found(1) [symmetric] refl refl refl refl refl True refl refl r(1) j(1)]
      obtain m' where "peers_remove_loop before cb ?m1 j = Some (m',
          if cb then filter p_is_valid (map (the \<circ> snd) (stale_from before m j)) else [])"
        and "peers_inv m'"
        and "hm_map m' = (\<lambda>k. if k \<in> fst ` set (stale_from before m j) then None else hm_map ?m1 k)"
        unfolding s1 by auto
      then show ?thesis
        using found(1,5) True r(2)
        by (subst peers_remove_loop.simps) (auto simp: s Let_def fun_eq_iff)
    next
      case False
      have s: "stale_from before m it = stale_from before m j"
        using False by (simp add: stale_from_def found(7) stale_def)
      from 1(2) [OF found(1) [symmetric] refl refl refl refl refl False 1(3) j(1)] show ?thesis
        using found(1) False by (subst peers_remove_loop.simps, cases cb) (simp_all add: s)
    qed
  qed
qed

lemma stale_peers:
  assumes "peers_inv m"
  shows "map (the \<circ> snd) (stale_from before m hashmap_it_new) = filter (\<lambda>p. p_last_update p < before) (peers_list m)"
proof -
  have "filter (\<lambda>x. stale before (snd x)) (entries (hm_data m)) =
      filter (\<lambda>x. p_last_update (the (snd x)) < before) (entries (hm_data m))"
    using entries_peer [OF assms] by (intro filter_cong) (fastforce simp: stale_def)+
  then show ?thesis by (simp add: stale_from_def hashmap_it_new_def peers_list_def filter_map comp_def)
qed

lemma stale_keys:
  assumes "peers_inv m"
  shows "octets a \<in> fst ` set (stale_from before m hashmap_it_new) \<longleftrightarrow>
    (\<exists>p. peer_map m a = Some p \<and> p_last_update p < before)"
proof
  assume "octets a \<in> fst ` set (stale_from before m hashmap_it_new)"
  then obtain v where v: "(octets a, v) \<in> set (entries (hm_data m))" "stale before v"
    by (auto simp: stale_from_def hashmap_it_new_def)
  from entries_peer [OF assms v(1)] v(2) show "\<exists>p. peer_map m a = Some p \<and> p_last_update p < before"
    by (auto simp: stale_def)
next
  assume "\<exists>p. peer_map m a = Some p \<and> p_last_update p < before"
  then obtain p where p: "peer_map m a = Some p" "p_last_update p < before" by blast
  have "(octets a, Some p) \<in> set (stale_from before m hashmap_it_new)"
    using peer_entries [OF assms p(1)] p(2) by (simp add: stale_from_def hashmap_it_new_def stale_def)
  then show "octets a \<in> fst ` set (stale_from before m hashmap_it_new)" by force
qed

lemma peers_remove_correct:
  assumes "peers_inv m"
  shows "\<exists>m' calls. apple_p2p_peers_remove m before cb = Some (m', calls) \<and> peers_inv m' \<and>
    peer_map m' = (\<lambda>a. case peer_map m a of None \<Rightarrow> None
      | Some p \<Rightarrow> if p_last_update p < before then None else Some p) \<and>
    distinct (map p_addr calls) \<and>
    set calls = {p. cb \<and> peer_map m (p_addr p) = Some p \<and> p_last_update p < before \<and> p_is_valid p}"
proof -
  let ?P = "\<lambda>p. p_last_update p < before \<and> p_is_valid p"
  let ?calls = "if cb then filter ?P (peers_list m) else []"
  have calls: "filter p_is_valid (map (the \<circ> snd) (stale_from before m hashmap_it_new)) = filter ?P (peers_list m)"
    unfolding stale_peers [OF assms] by (simp add: conj_commute)
  obtain m' where loop: "apple_p2p_peers_remove m before cb = Some (m', ?calls)" and inv: "peers_inv m'"
    and map: "hm_map m' = (\<lambda>k. if k \<in> fst ` set (stale_from before m hashmap_it_new) then None else hm_map m k)"
    using peers_remove_loop_spec [OF assms, of hashmap_it_new before cb]
    unfolding apple_p2p_peers_remove_def calls by (auto simp: hashmap_it_new_def)
  have "peer_map m' a = (case peer_map m a of None \<Rightarrow> None
      | Some p \<Rightarrow> if p_last_update p < before then None else Some p)" for a
    using stale_keys [OF assms, of a before] peer_map_hm [OF assms, of a]
    by (auto simp: peer_map_def [of m'] map split: option.splits)
  moreover have "distinct (map p_addr ?calls)"
    using distinct_peers_list [OF assms] by (simp add: distinct_map_filter)
  moreover have "set ?calls = {p. cb \<and> peer_map m (p_addr p) = Some p \<and> ?P p}"
    using set_peers_list [OF assms] by auto
  ultimately show ?thesis using loop inv by blast
qed

text \<open>C28: ageing removes exactly the peers last heard before the cutoff, keeps all others
  unchanged, and calls the callback exactly once for each removed peer that was valid.\<close>

theorem peers_remove_spec:
  assumes "peers_inv m"
  shows "\<exists>m' calls. apple_p2p_peers_remove m before cb = Some (m', calls) \<and> peers_inv m' \<and>
    peer_map m' = (\<lambda>a. case peer_map m a of None \<Rightarrow> None
      | Some p \<Rightarrow> if p_last_update p < before then None else Some p) \<and>
    distinct (map p_addr calls) \<and>
    set calls = {p. cb \<and> peer_map m (p_addr p) = Some p \<and> p_last_update p < before \<and> p_is_valid p}"
  using assms by (rule peers_remove_correct)

theorem peers_remove_spec_witness:
  "\<exists>m m'. apple_p2p_peers_init (\<lambda>n. n \<le> 4096) = Some m \<and>
     apple_p2p_peers_remove m 100 True = Some (m', []) \<and> peer_map m' = Map.empty"
proof -
  obtain m :: peers_table where m: "apple_p2p_peers_init (\<lambda>n. n \<le> 4096) = Some m"
    unfolding apple_p2p_peers_init_def using hashmap_new_table by blast
  show ?thesis
    using m peers_remove_spec [OF peers_init_inv(1) [OF m], of 100 True] peers_init_inv(2) [OF m]
    by auto
qed

section \<open>Removing one peer\<close>

text \<open>Removing an address forgets exactly that peer; the callback runs exactly when the
  peer was valid; an unknown address changes nothing.\<close>

theorem peer_remove_spec:
  assumes "peers_inv m"
  shows "case peer_map m a of
      None \<Rightarrow> apple_p2p_peer_remove m a cb = Some (PEERS_MISSING, m, [])
    | Some p \<Rightarrow> \<exists>m'. apple_p2p_peer_remove m a cb =
        Some (PEERS_OK, m', if p_is_valid p \<and> cb then [p] else []) \<and>
        peers_inv m' \<and> peer_map m' = (peer_map m)(a := None)"
proof (cases "peer_map m a")
  case None
  then show ?thesis by (simp add: apple_p2p_peer_remove_def peer_get_absent [OF assms])
next
  case (Some p)
  with peer_get_cases [OF assms, of a True] obtain m'
    where g: "hashmap_get m (octets a) True = (MAP_OK, Some p, m')" and inv: "hm_inv m'"
      and key: "hm_key_size m' = 6" and map: "hm_map m' = (hm_map m)(octets a := map_option Some None)"
    by auto
  have "peers_inv m'" using peers_inv_update [OF assms inv key map] by simp
  then show ?thesis
    using Some g peer_map_update [OF map] by (simp add: apple_p2p_peer_remove_def)
qed

theorem peer_remove_spec_witness:
  "\<exists>m. apple_p2p_peers_init (\<lambda>n. n \<le> 4096) = Some m \<and>
     apple_p2p_peer_remove m (EtherAddr 1 2 3 4 5 6) True = Some (PEERS_MISSING, m, [])"
proof -
  obtain m :: peers_table where m: "apple_p2p_peers_init (\<lambda>n. n \<le> 4096) = Some m"
    unfolding apple_p2p_peers_init_def using hashmap_new_table by blast
  show ?thesis
    using m peer_remove_spec [OF peers_init_inv(1) [OF m], of "EtherAddr 1 2 3 4 5 6" True]
      peers_init_inv(2) [OF m] by simp
qed

section \<open>Size and release\<close>

text \<open>The length of the table is the number of peers, and releasing it frees the structure of
  every peer exactly once.\<close>

lemma peers_length_spec:
  assumes "peers_inv m"
  shows "apple_p2p_peers_length m = int (card (dom (peer_map m)))"
proof -
  have "apple_p2p_peers_length m = int (length (entries (hm_data m)))"
    using peers_invD(1) [OF assms] by (simp add: apple_p2p_peers_length_def hashmap_length_def hm_inv_def)
  also have "length (entries (hm_data m)) = length (peers_listing m)"
    by (simp add: peers_listing_def peers_list_def)
  finally show ?thesis by (simp only: peer_table.length_listing [OF assms])
qed

lemma peers_free_loop_spec:
  assumes "peers_inv m" and "-1 \<le> it"
  shows "fst (peers_free_loop m it) = map snd (entries (drop (nat (it + 1)) (hm_data m)))"
  using assms
proof (induction m it rule: peers_free_loop.induct)
  case (1 m it)
  from 1(2,3) show ?case
  proof (cases rule: it_next_entries)
    case (last j)
    then show ?thesis by (subst peers_free_loop.simps) simp
  next
    case (found j k p)
    let ?m1 = "snd (hashmap_it_remove m j)"
    have j: "-1 \<le> j" "0 \<le> j" using found(2) 1(3) by simp_all
    note r = remove_slot_spec [OF 1(2) j(2) found(3,4)]
    have "fst (peers_free_loop ?m1 j) = map snd (entries (drop (nat (j + 1)) (hm_data m)))"
      using 1(1) [OF found(1) [symmetric] refl refl refl refl refl r(1) j(1)] unfolding r(3) .
    then show ?thesis
      using found(1) by (subst peers_free_loop.simps) (simp add: found(7) Let_def case_prod_unfold)
  qed
qed

lemma peers_free_spec:
  assumes "peers_inv m"
  shows "apple_p2p_peers_free m = map Some (peers_list m)"
proof -
  have "map snd (entries (hm_data m)) = map Some (peers_list m)"
    using entries_peer [OF assms] by (fastforce simp: peers_list_def intro!: map_cong)
  then show ?thesis
    using peers_free_loop_spec [OF assms, of hashmap_it_new] by (simp add: apple_p2p_peers_free_def hashmap_it_new_def)
qed

end
