(* ===== verification/Election.thy ===== *)
theory Election
  imports Peers "HOL-Library.Product_Lexorder"
begin

text \<open>
  \<open>apple_p2p_election_run\<close> of election.c: the choice of a synchronisation master among the
  valid peers. The loop is shown to compute a maximum over the candidates, which does not
  depend on the order in which the hash table yields them.
\<close>

section \<open>The run\<close>

text \<open>\<open>master_state\<close> points to the node's own state (\<open>None\<close>) or to that of a peer.\<close>

definition master_state ::
  "apple_p2p_election_state \<Rightarrow> apple_p2p_election_state option \<Rightarrow> apple_p2p_election_state" where
  "master_state state master = (case master of None \<Rightarrow> state | Some m \<Rightarrow> m)"

text \<open>One round of the loop: each \<open>continue\<close> keeps the master.\<close>

definition election_consider ::
  "apple_p2p_election_state \<Rightarrow> apple_p2p_election_state option \<Rightarrow> apple_p2p_peer \<Rightarrow>
    apple_p2p_election_state option" where
  "election_consider state master peer =
     (let peer_state = p_election peer; ms = master_state state master in
      if \<not> p_is_valid peer then master
      else if e_height peer_state + 1 > APPLE_P2P_ELECTION_TREE_MAX_HEIGHT then master
      else if apple_p2p_election_is_sync_master peer_state (e_self_addr state) then master
      else let cmp_metric = apple_p2p_election_compare_master peer_state ms in
        if cmp_metric < 0 then master
        else if cmp_metric = 0 then
          (if e_height peer_state > e_height ms then master
           else if e_height peer_state = e_height ms then
             (if compare_ether_addr (e_self_addr peer_state) (e_self_addr ms) \<le> 0 then master
              else Some peer_state)
           else Some peer_state)
        else Some peer_state)"

function election_loop ::
  "apple_p2p_election_state \<Rightarrow> peers_table \<Rightarrow> int \<Rightarrow> apple_p2p_election_state option \<Rightarrow>
    apple_p2p_election_state option option" where
  "election_loop state peers it master =
     (case hashmap_it_next peers it of
        (MAP_OK, it', Some (_, Some peer)) \<Rightarrow>
          election_loop state peers it' (election_consider state master peer)
      | (MAP_OK, _, _) \<Rightarrow> None
      | _ \<Rightarrow> Some master)"
  by pat_completeness auto
termination
  by (relation "measure (\<lambda>(state, peers, it, master). nat (int (hm_table_size peers) - it))")
    (auto dest!: it_next_progress [OF sym])

declare election_loop.simps [simp del]

text \<open>The new state, and whether the change of the tree is logged; \<open>None\<close> is the use of a
  NULL entry.\<close>

definition apple_p2p_election_run ::
  "apple_p2p_election_state \<Rightarrow> peers_table \<Rightarrow> (apple_p2p_election_state \<times> bool) option" where
  "apple_p2p_election_run state peers =
     (let old_top_master = e_master_addr state;
          old_sync_master = e_sync_addr state;
          state = apple_p2p_election_reset_self state in
      case election_loop state peers hashmap_it_new None of
        None \<Rightarrow> None
      | Some master \<Rightarrow>
          let state = (case master of
                None \<Rightarrow> state
              | Some m \<Rightarrow> state\<lparr>e_master_addr := e_master_addr m, e_sync_addr := e_self_addr m,
                  e_master_metric := e_master_metric m, e_master_counter := e_master_counter m,
                  e_height := e_height m + 1\<rparr>);
              changed = (compare_ether_addr old_top_master (e_master_addr state) \<noteq> 0 \<or>
                compare_ether_addr old_sync_master (e_sync_addr state) \<noteq> 0)
          in Some (state, changed))"

section \<open>The election as a maximum\<close>

definition candidate :: "apple_p2p_election_state \<Rightarrow> apple_p2p_peer \<Rightarrow> bool" where
  "candidate state p \<longleftrightarrow> p_is_valid p \<and>
     e_height (p_election p) + 1 \<le> APPLE_P2P_ELECTION_TREE_MAX_HEIGHT \<and>
     e_sync_addr (p_election p) \<noteq> e_self_addr state"

text \<open>Larger counter first, then larger metric, then shorter tree, then larger address.\<close>

definition rank :: "apple_p2p_election_state \<Rightarrow> u32 \<times> u32 \<times> int \<times> ether_addr" where
  "rank s = (e_master_counter s, e_master_metric s, - uint (e_height s), e_self_addr s)"

lemma rank_less:
  "rank a < rank b \<longleftrightarrow>
     e_master_counter a < e_master_counter b \<or>
     e_master_counter a = e_master_counter b \<and>
       (e_master_metric a < e_master_metric b \<or>
        e_master_metric a = e_master_metric b \<and>
          (e_height b < e_height a \<or>
           e_height b = e_height a \<and> e_self_addr a < e_self_addr b))"
  by (auto simp: rank_def less_prod_def' word_less_def word_uint_eq_iff [of "e_height b"])

lemma consider_rank:
  "election_consider state master p =
     (if candidate state p \<and> rank (master_state state master) < rank (p_election p)
      then Some (p_election p) else master)"
  by (auto simp: election_consider_def candidate_def apple_p2p_election_is_sync_master_def Let_def
      rank_less compare_master_less compare_master_eq not_less not_le)

lemma election_loop_foldl:
  assumes "peers_inv m" and "-1 \<le> it"
  shows "election_loop state m it master = Some (foldl (election_consider state) master
    (map (the \<circ> snd) (entries (drop (nat (it + 1)) (hm_data m)))))"
  using assms
proof (induction state m it master rule: election_loop.induct)
  case (1 state m it master)
  from 1(2,3) show ?case
  proof (cases rule: it_next_entries)
    case (last j)
    then show ?thesis by (subst election_loop.simps) simp
  next
    case (found j k p)
    then have "-1 \<le> j" using 1(3) by simp
    from 1(1) [OF found(1) [symmetric] refl refl refl refl refl 1(2) this] show ?thesis
      using found(1,7) by (subst election_loop.simps) (simp add: comp_def)
  qed
qed

lemma Max_insert_max:
  "finite R \<Longrightarrow> Max (insert (max a b) R) = Max (insert a (insert b R))" for a b :: "'a::linorder"
  by (cases "R = {}") (simp_all add: max.assoc)

lemma foldl_consider_rank:
  "rank (master_state state (foldl (election_consider state) master ps))
     = Max (insert (rank (master_state state master))
         ((\<lambda>p. rank (p_election p)) ` {p \<in> set ps. candidate state p}))"
proof (induction ps arbitrary: master)
  case (Cons p ps)
  let ?new = "election_consider state master p"
  let ?R = "(\<lambda>p. rank (p_election p)) ` {p \<in> set ps. candidate state p}"
  have "rank (master_state state ?new) =
      (if candidate state p then max (rank (master_state state master)) (rank (p_election p))
       else rank (master_state state master))"
    by (auto simp: consider_rank master_state_def max_def)
  moreover have "{q \<in> set (p # ps). candidate state q} =
      (if candidate state p then insert p {q \<in> set ps. candidate state q}
       else {q \<in> set ps. candidate state q})" by auto
  ultimately show ?case
    unfolding foldl.simps Cons.IH
    using Max_insert_max [of ?R "rank (master_state state master)" "rank (p_election p)"]
    by (cases "candidate state p") simp_all
qed (simp add: master_state_def)

lemma foldl_consider_member:
  "foldl (election_consider state) master ps = master \<or>
   (\<exists>p\<in>set ps. candidate state p \<and> foldl (election_consider state) master ps = Some (p_election p))"
  by (induction ps arbitrary: master) (force simp: consider_rank)+


lemma reset_self_simps [simp]:
  "e_self_addr (apple_p2p_election_reset_self s) = e_self_addr s"
  "e_master_addr (apple_p2p_election_reset_self s) = e_self_addr s"
  "e_sync_addr (apple_p2p_election_reset_self s) = e_self_addr s"
  "e_height (apple_p2p_election_reset_self s) = 0"
  "e_master_metric (apple_p2p_election_reset_self s) = e_self_metric s"
  "e_master_counter (apple_p2p_election_reset_self s) = e_self_counter s"
  by (simp_all add: apple_p2p_election_reset_self_def)

lemma candidate_reset [simp]:
  "candidate (apple_p2p_election_reset_self s) p = candidate s p"
  by (simp add: candidate_def)

definition election_winner :: "apple_p2p_election_state \<Rightarrow> peers_table \<Rightarrow> apple_p2p_election_state option" where
  "election_winner s m =
     foldl (election_consider (apple_p2p_election_reset_self s)) None (peers_list m)"

definition adopt :: "apple_p2p_election_state \<Rightarrow> apple_p2p_election_state option \<Rightarrow> apple_p2p_election_state" where
  "adopt s w = (case w of None \<Rightarrow> apple_p2p_election_reset_self s
     | Some w \<Rightarrow> (apple_p2p_election_reset_self s)\<lparr>e_master_addr := e_master_addr w,
         e_sync_addr := e_self_addr w, e_master_metric := e_master_metric w,
         e_master_counter := e_master_counter w, e_height := e_height w + 1\<rparr>)"

lemma election_run_winner:
  assumes "peers_inv m"
  shows "\<exists>changed. apple_p2p_election_run s m = Some (adopt s (election_winner s m), changed)"
  using election_loop_foldl [OF assms, of hashmap_it_new "apple_p2p_election_reset_self s" None]
  by (simp add: apple_p2p_election_run_def hashmap_it_new_def adopt_def election_winner_def
      peers_list_def Let_def)

lemma winner_member:
  assumes "peers_inv m" and "election_winner s m = Some w"
  shows "\<exists>p. peer_map m (p_addr p) = Some p \<and> candidate s p \<and> w = p_election p"
  using foldl_consider_member [of "apple_p2p_election_reset_self s" None "peers_list m"] assms
    set_peers_list [OF assms(1)] unfolding election_winner_def by auto

lemma winner_rank:
  assumes "peers_inv m"
  shows "rank (master_state (apple_p2p_election_reset_self s) (election_winner s m))
    = Max (insert (rank (apple_p2p_election_reset_self s))
        ((\<lambda>p. rank (p_election p)) ` {p. peer_map m (p_addr p) = Some p \<and> candidate s p}))"
  using foldl_consider_rank [of "apple_p2p_election_reset_self s" None "peers_list m"]
    set_peers_list [OF assms] by (simp add: election_winner_def master_state_def)

lemma winner_cases:
  assumes "peers_inv m"
  obtains (self) "election_winner s m = None"
      and "\<And>p. peer_map m (p_addr p) = Some p \<Longrightarrow> candidate s p \<Longrightarrow>
        rank (p_election p) \<le> rank (apple_p2p_election_reset_self s)"
  | (peer) q where "peer_map m (p_addr q) = Some q" and "candidate s q"
      and "election_winner s m = Some (p_election q)"
      and "rank (apple_p2p_election_reset_self s) \<le> rank (p_election q)"
      and "\<And>p. peer_map m (p_addr p) = Some p \<Longrightarrow> candidate s p \<Longrightarrow>
        rank (p_election p) \<le> rank (p_election q)"
proof -
  let ?C = "{p. peer_map m (p_addr p) = Some p \<and> candidate s p}"
  have "?C \<subseteq> set (peers_list m)" using set_peers_list [OF assms] by auto
  then have "finite ?C" by (rule finite_subset) simp
  then have ge: "rank x \<le> rank (master_state (apple_p2p_election_reset_self s) (election_winner s m))"
    if "x = apple_p2p_election_reset_self s \<or> x \<in> p_election ` ?C" for x
    unfolding winner_rank [OF assms] using that by (intro Max_ge) auto
  show thesis
  proof (cases "election_winner s m")
    case None
    with ge self show thesis by (auto simp: master_state_def)
  next
    case (Some w)
    from winner_member [OF assms Some] obtain q
      where "peer_map m (p_addr q) = Some q" "candidate s q" "w = p_election q" by auto
    with ge Some peer show thesis by (auto simp: master_state_def)
  qed
qed

text \<open>C29: the election always ends, and its outcome is a maximum: the node stays its own
  master when no candidate outranks it, otherwise it follows a candidate that no other candidate
  and not the node itself outranks, whatever the order in which the table yields the peers.\<close>

theorem election_run_maximal:
  assumes "peers_inv m"
  shows "\<exists>s' changed. apple_p2p_election_run s m = Some (s', changed) \<and>
    (s' = apple_p2p_election_reset_self s \<and>
       (\<nexists>p. peer_map m (p_addr p) = Some p \<and> candidate s p \<and>
          rank (apple_p2p_election_reset_self s) < rank (p_election p)) \<or>
     (\<exists>q. peer_map m (p_addr q) = Some q \<and> candidate s q \<and> s' = adopt s (Some (p_election q)) \<and>
        rank (apple_p2p_election_reset_self s) \<le> rank (p_election q) \<and>
        (\<nexists>p. peer_map m (p_addr p) = Some p \<and> candidate s p \<and> rank (p_election q) < rank (p_election p))))"
proof -
  obtain changed where run: "apple_p2p_election_run s m = Some (adopt s (election_winner s m), changed)"
    using election_run_winner [OF assms] by blast
  from assms show ?thesis
  proof (cases rule: winner_cases [where s = s])
    case self
    then show ?thesis using run by (auto simp: adopt_def not_less [symmetric])
  next
    case (peer q)
    then show ?thesis using run by (auto simp: not_less [symmetric] intro!: exI [of _ q])
  qed
qed

theorem election_run_maximal_witness:
  "\<exists>m. apple_p2p_peers_init (\<lambda>n. n \<le> 4096) = Some m \<and>
     map_option fst (apple_p2p_election_run (sample_election 1) m) = Some (apple_p2p_election_reset_self (sample_election 1))"
proof -
  obtain m :: peers_table where m: "apple_p2p_peers_init (\<lambda>n. n \<le> 4096) = Some m"
    unfolding apple_p2p_peers_init_def using hashmap_new_table by blast
  show ?thesis
    using m election_run_maximal [OF peers_init_inv(1) [OF m], of "sample_election 1"] peers_init_inv(2) [OF m] by auto
qed

text \<open>C30: the tree a node builds stays small and free of two-cycles: after a run its height is
  at most the limit, its advertised counter and metric are at least its own, and the peer it
  synchronises to (when it is not its own master) does not itself synchronise to the node.\<close>

theorem election_run_safe:
  assumes "peers_inv m"
  shows "\<exists>s' changed. apple_p2p_election_run s m = Some (s', changed) \<and>
    e_height s' \<le> APPLE_P2P_ELECTION_TREE_MAX_HEIGHT \<and>
    (e_self_counter s, e_self_metric s) \<le> (e_master_counter s', e_master_metric s') \<and>
    (s' = apple_p2p_election_reset_self s \<or>
     (\<exists>q. peer_map m (p_addr q) = Some q \<and> p_is_valid q \<and> e_sync_addr s' = e_self_addr (p_election q) \<and>
        e_sync_addr (p_election q) \<noteq> e_self_addr s))"
proof -
  obtain changed where run: "apple_p2p_election_run s m = Some (adopt s (election_winner s m), changed)"
    using election_run_winner [OF assms] by blast
  from assms show ?thesis
  proof (cases rule: winner_cases [where s = s])
    case self
    then show ?thesis using run by (auto simp: adopt_def)
  next
    case (peer q)
    have "(e_self_counter s, e_self_metric s) \<le>
        (e_master_counter (p_election q), e_master_metric (p_election q))"
      using peer(4) unfolding not_less [symmetric] rank_less by (auto simp: less_prod_def')
    then show ?thesis
      using run peer by (auto simp: adopt_def candidate_def)
  qed
qed

theorem election_run_safe_witness:
  "\<exists>m s'. apple_p2p_peers_init (\<lambda>n. n \<le> 4096) = Some m \<and>
     map_option fst (apple_p2p_election_run (sample_election 1) m) = Some s' \<and> e_height s' \<le> 10"
proof -
  obtain m :: peers_table where m: "apple_p2p_peers_init (\<lambda>n. n \<le> 4096) = Some m"
    unfolding apple_p2p_peers_init_def using hashmap_new_table by blast
  show ?thesis using m election_run_safe [OF peers_init_inv(1) [OF m], of "sample_election 1"] by auto
qed

text \<open>The height check overflows: a valid peer that advertises the height
  \<open>2 ^ 32 - 1\<close> is accepted as a candidate, and a node that adopts it as master takes the
  height 0 of a tree root although it is not its own master.\<close>

theorem election_height_overflow:
  assumes "p_is_valid q" and "e_height (p_election q) = 0xFFFFFFFF"
    and "e_sync_addr (p_election q) \<noteq> e_self_addr s"
    and "(e_self_counter s, e_self_metric s) < (e_master_counter (p_election q), e_master_metric (p_election q))"
  shows "election_consider (apple_p2p_election_reset_self s) None q = Some (p_election q) \<and>
    e_height (adopt s (Some (p_election q))) = 0 \<and>
    e_sync_addr (adopt s (Some (p_election q))) = e_self_addr (p_election q)"
proof -
  have "candidate s q" using assms(1-3) by (simp add: candidate_def)
  moreover have "rank (apple_p2p_election_reset_self s) < rank (p_election q)"
    unfolding rank_less using assms(4) by (auto simp: less_prod_def')
  ultimately show ?thesis
    using assms(2) by (simp add: consider_rank master_state_def adopt_def)
qed

theorem election_height_overflow_witness:
  "let q = (sample_peer 2)\<lparr>p_election := (sample_election 2)\<lparr>e_height := 0xFFFFFFFF, e_master_metric := 500\<rparr>\<rparr>
   in election_consider (apple_p2p_election_reset_self (sample_election 1)) None q = Some (p_election q) \<and>
      e_height (adopt (sample_election 1) (Some (p_election q))) = 0"
  using election_height_overflow [of "(sample_peer 2)\<lparr>p_election :=
      (sample_election 2)\<lparr>e_height := 0xFFFFFFFF, e_master_metric := 500\<rparr>\<rparr>" "sample_election 1"]
  by (simp add: sample_election_def sample_peer_def less_prod_def')

end
