(* ===== verification/Sync.thy ===== *)
theory Sync
  imports Prelude
begin

text \<open>
  sync.c and the time unit conversions of ieee80211.h: availability windows (AW) of 16 time
  units, grouped by four into extended windows (EAW). The conversions take and return
  \<open>unsigned long\<close>, 32 bits on the target (armeabi-v7a), while the clock has 64 bits: the
  code truncates elapsed times. The lemmas show that the truncation is harmless, since
  \<open>2 ^ 32\<close> microseconds are a whole number of rounds of the 16-bit window counter.
\<close>

section \<open>Time units\<close>

definition ieee80211_tu_to_usec :: "ulong \<Rightarrow> ulong" where
  "ieee80211_tu_to_usec tu = 1024 * tu"

definition ieee80211_usec_to_tu :: "ulong \<Rightarrow> ulong" where
  "ieee80211_usec_to_tu usec = usec div 1024"

section \<open>The synchronisation state\<close>

record apple_p2p_sync_state =
  aw_counter :: u16
  last_update :: u64
  aw_period :: u16
  presence_mode :: u8
  meas_err :: u64
  meas_total :: u64

definition apple_p2p_sync_state_init :: "u64 \<Rightarrow> apple_p2p_sync_state" where
  "apple_p2p_sync_state_init now =
     \<lparr>aw_counter = 0, last_update = now, aw_period = 16, presence_mode = 4,
      meas_err = 0, meas_total = 0\<rparr>"

text \<open>The product \<open>presence_mode * aw_period\<close> is computed in \<open>int\<close>.\<close>

definition eaw_period_int :: "apple_p2p_sync_state \<Rightarrow> int" where
  "eaw_period_int state = uint (presence_mode state) * uint (aw_period state)"

definition apple_p2p_sync_next_aw_tu :: "u64 \<Rightarrow> apple_p2p_sync_state \<Rightarrow> u16" where
  "apple_p2p_sync_next_aw_tu now_usec state =
     (let eaw_period = word_of_int (eaw_period_int state) :: u64;
          time_since = ucast (ieee80211_usec_to_tu (ucast (now_usec - last_update state))) :: u64;
          next_aw_tu = eaw_period - (time_since mod eaw_period)
      in ucast next_aw_tu)"

definition apple_p2p_sync_next_aw_us :: "u64 \<Rightarrow> apple_p2p_sync_state \<Rightarrow> u64" where
  "apple_p2p_sync_next_aw_us now_usec state =
     (let eaw_period = ucast (ieee80211_tu_to_usec (word_of_int (eaw_period_int state))) :: u64;
          time_since = now_usec - last_update state;
          next_aw_us = eaw_period - (time_since mod eaw_period)
      in next_aw_us)"

definition apple_p2p_sync_current_aw :: "u64 \<Rightarrow> apple_p2p_sync_state \<Rightarrow> u16" where
  "apple_p2p_sync_current_aw now_usec state =
     (let eaw_period = word_of_int (eaw_period_int state) :: u64;
          time_since = ucast (ieee80211_usec_to_tu (ucast (now_usec - last_update state))) :: u64;
          current_aw = ucast (aw_counter state) +
            (time_since mod eaw_period) div ucast (aw_period state) +
            ucast (presence_mode state) * (time_since div eaw_period)
      in ucast current_aw)"

definition apple_p2p_sync_current_eaw :: "u64 \<Rightarrow> apple_p2p_sync_state \<Rightarrow> u16" where
  "apple_p2p_sync_current_eaw now_usec state =
     word_of_int (uint (apple_p2p_sync_current_aw now_usec state) div uint (presence_mode state))"

text \<open>All operands are promoted to \<open>int\<close>.\<close>

definition apple_p2p_sync_error_tu :: "u64 \<Rightarrow> u16 \<Rightarrow> u16 \<Rightarrow> apple_p2p_sync_state \<Rightarrow> int" where
  "apple_p2p_sync_error_tu now_usec time_to_next_aw counter state =
     ((uint counter div uint (presence_mode state)
         - uint (apple_p2p_sync_current_eaw now_usec state))
       * uint (presence_mode state) * uint (aw_period state))
     - (uint time_to_next_aw - uint (apple_p2p_sync_next_aw_tu now_usec state))"

definition apple_p2p_sync_update_last ::
  "u64 \<Rightarrow> u16 \<Rightarrow> u16 \<Rightarrow> apple_p2p_sync_state \<Rightarrow> apple_p2p_sync_state" where
  "apple_p2p_sync_update_last now_usec time_to_next_aw counter state =
     (let eaw_period = word_of_int (eaw_period_int state) :: u64
      in state\<lparr>last_update :=
                 now_usec - ucast (ieee80211_tu_to_usec (ucast (eaw_period - ucast time_to_next_aw))),
               aw_counter := counter AND 0xfffc\<rparr>)"

section \<open>Reading the words as numbers\<close>

text \<open>The period and the presence mode never change after the initialisation.\<close>

definition sync_wf :: "apple_p2p_sync_state \<Rightarrow> bool" where
  "sync_wf s \<longleftrightarrow> aw_period s = 16 \<and> presence_mode s = 4"

definition elapsed :: "u64 \<Rightarrow> apple_p2p_sync_state \<Rightarrow> nat" where
  "elapsed now s = unat (now - last_update s)"

lemma sync_init_wf [simp]: "sync_wf (apple_p2p_sync_state_init now)"
  and sync_update_wf [simp]: "sync_wf s \<Longrightarrow> sync_wf (apple_p2p_sync_update_last now t c s)"
  by (simp_all add: sync_wf_def apple_p2p_sync_state_init_def apple_p2p_sync_update_last_def)

lemma sync_init_simps [simp]:
  "elapsed now (apple_p2p_sync_state_init t) = unat (now - t)"
  "aw_counter (apple_p2p_sync_state_init t) = 0"
  by (simp_all add: elapsed_def apple_p2p_sync_state_init_def)

lemma eaw_period_wf: "sync_wf s \<Longrightarrow> eaw_period_int s = 64"
  by (simp add: sync_wf_def eaw_period_int_def)

lemma time_since_tu:
  "unat (ucast (ieee80211_usec_to_tu (ucast (now - last_update s))) :: u64)
     = elapsed now s mod 2 ^ 32 div 1024"
proof -
  let ?x = "ucast (now - last_update s) :: ulong"
  have "unat (?x div 1024) = elapsed now s mod 2 ^ 32 div 1024"
    by (simp add: unat_div unat_ucast elapsed_def)
  moreover have "elapsed now s mod 2 ^ 32 div 1024 < 2 ^ 64"
    by (rule le_less_trans [OF div_le_dividend]) (rule less_trans [OF mod_less_divisor], simp_all)
  ultimately show ?thesis by (simp add: ieee80211_usec_to_tu_def unat_ucast)
qed

lemma div_mod_shift:
  fixes d :: nat
  shows "d mod 2 ^ 32 div 1024 mod 64 = d div 1024 mod 64"
    and "(a + d mod 2 ^ 32 div 16384) mod 65536 = (a + d div 16384) mod 65536"
proof -
  define q r where "q = d div 2 ^ 32" and "r = d mod 2 ^ 32"
  then have d: "d = q * 2 ^ 32 + r" by simp
  have "d div 1024 = r div 1024 + 64 * (q * 65536)" unfolding d by simp
  then show "d mod 2 ^ 32 div 1024 mod 64 = d div 1024 mod 64"
    unfolding r_def [symmetric] by (simp only: mod_mult_self2)
  have "a + d div 16384 = a + r div 16384 + 65536 * (q * 4)" unfolding d by simp
  then show "(a + d mod 2 ^ 32 div 16384) mod 65536 = (a + d div 16384) mod 65536"
    unfolding r_def [symmetric] by (simp only: mod_mult_self2)
qed

lemma next_aw_tu_nat:
  assumes "sync_wf s"
  shows "unat (apple_p2p_sync_next_aw_tu now s) = 64 - elapsed now s div 1024 mod 64"
proof -
  let ?t = "ucast (ieee80211_usec_to_tu (ucast (now - last_update s))) :: u64"
  have m: "unat (?t mod 64) = elapsed now s div 1024 mod 64"
    using div_mod_shift(1) [of "elapsed now s"] by (simp add: unat_mod time_since_tu)
  then have "unat (?t mod 64) < 64" by simp
  then have "?t mod 64 \<le> 64" by (simp add: word_le_nat_alt)
  then have "unat (64 - ?t mod 64) = 64 - elapsed now s div 1024 mod 64"
    using m by (simp add: unat_sub)
  then show ?thesis
    by (simp add: apple_p2p_sync_next_aw_tu_def eaw_period_wf [OF assms] unat_ucast Let_def)
qed

lemma next_aw_us_nat:
  assumes "sync_wf s"
  shows "unat (apple_p2p_sync_next_aw_us now s) = 65536 - elapsed now s mod 65536"
proof -
  let ?t = "(now - last_update s) mod 65536"
  have m: "unat ?t = elapsed now s mod 65536" by (simp add: unat_mod elapsed_def)
  then have "unat ?t < 65536" by simp
  then have "?t \<le> 65536" by (simp add: word_le_nat_alt)
  then have "unat (65536 - ?t) = 65536 - elapsed now s mod 65536"
    using m by (simp add: unat_sub)
  then show ?thesis
    by (simp add: apple_p2p_sync_next_aw_us_def eaw_period_wf [OF assms] Let_def
        ieee80211_tu_to_usec_def)
qed

lemma current_aw_nat:
  assumes "sync_wf s"
  shows "unat (apple_p2p_sync_current_aw now s) = (unat (aw_counter s) + elapsed now s div 16384) mod 65536"
proof -
  define t :: u64 where "t = ucast (ieee80211_usec_to_tu (ucast (now - last_update s)))"
  define a :: u64 where "a = ucast (aw_counter s)"
  have t: "unat t = elapsed now s mod 2 ^ 32 div 1024" unfolding t_def by (rule time_since_tu)
  then have t22: "unat t < 4194304" by (simp add: less_mult_imp_div_less)
  have a: "unat a = unat (aw_counter s)" and a16: "unat a < 65536"
    using unat_bound [of "aw_counter s"] by (simp_all add: a_def unat_ucast)
  define x y where "x = unat t mod 64 div 16" and "y = unat t div 64"
  have "x < 4" and "y < 65536" using t22 by (simp_all add: x_def y_def less_mult_imp_div_less)
  then have "(unat a + x + 4 * y) mod 2 ^ 64 = unat a + x + 4 * y"
    and "(unat a + x) mod 2 ^ 64 = unat a + x" and "4 * y mod 2 ^ 64 = 4 * y"
    using a16 by simp_all
  then have "unat (a + t mod 64 div 16 + 4 * (t div 64))
      = unat a + unat t mod 64 div 16 + 4 * (unat t div 64)"
    by (simp add: unat_word_ariths unat_div unat_mod flip: x_def y_def)
  also have "\<dots> = unat a + unat t div 16"
  proof -
    have "unat t = unat t mod 64 + 16 * (4 * (unat t div 64))" by simp
    then have "unat t div 16 = (unat t mod 64 + 16 * (4 * (unat t div 64))) div 16" by (rule arg_cong)
    then show ?thesis by (simp only: div_mult_self2)
  qed
  also have "\<dots> = unat (aw_counter s) + elapsed now s mod 2 ^ 32 div 16384"
    unfolding t a by (simp add: div_mult2_eq [symmetric])
  finally have "unat (ucast (a + t mod 64 div 16 + 4 * (t div 64)) :: u16)
      = (unat (aw_counter s) + elapsed now s div 16384) mod 65536"
    using div_mod_shift(2) [of "unat (aw_counter s)" "elapsed now s"] by (simp add: unat_ucast)
  then show ?thesis
    using assms by (simp add: apple_p2p_sync_current_aw_def eaw_period_wf [OF assms] t_def [symmetric]
        a_def [symmetric] sync_wf_def Let_def)
qed

lemma current_eaw_nat:
  assumes "sync_wf s"
  shows "unat (apple_p2p_sync_current_eaw now s)
    = (unat (aw_counter s) + elapsed now s div 16384) mod 65536 div 4"
proof -
  have "unat (apple_p2p_sync_current_eaw now s) = unat (apple_p2p_sync_current_aw now s) div 4 mod 65536"
  proof -
    have "uint (apple_p2p_sync_current_aw now s) div 4
        = int (unat (apple_p2p_sync_current_aw now s) div 4)" by (simp add: zdiv_int)
    then show ?thesis
      using assms by (simp add: apple_p2p_sync_current_eaw_def sync_wf_def unat_word_of_nat)
  qed
  also have "\<dots> = unat (apple_p2p_sync_current_aw now s) div 4"
    unfolding current_aw_nat [OF assms] by simp
  finally show ?thesis unfolding current_aw_nat [OF assms] .
qed

section \<open>Correctness of the clock arithmetic\<close>

text \<open>Although elapsed times are cut to 32 bits, the window counter is the last counter
  plus the number of 16-unit windows since the last update, modulo its 16 bits, for every
  64-bit clock value.\<close>

theorem current_aw_counts_windows:
  assumes "sync_wf s"
  shows "unat (apple_p2p_sync_current_aw now s)
      = (unat (aw_counter s) + elapsed now s div (16 * 1024)) mod 2 ^ 16 \<and>
    unat (apple_p2p_sync_current_eaw now s) = unat (apple_p2p_sync_current_aw now s) div 4"
  using current_aw_nat [OF assms] current_eaw_nat [OF assms] by simp

theorem current_aw_counts_windows_witness:
  "unat (apple_p2p_sync_current_aw (2 ^ 32 + 5 * 16384 + 7) (apple_p2p_sync_state_init 0)) = 5"
  using current_aw_counts_windows [OF sync_init_wf, of "2 ^ 32 + 5 * 16384 + 7" 0] by simp

text \<open>The time to the next window is positive and at most one extended window, it ends
  exactly on a window boundary, and the value in time units is the one in microseconds
  rounded up.\<close>

theorem next_aw_bounds:
  assumes "sync_wf s"
  shows "0 < unat (apple_p2p_sync_next_aw_us now s) \<and> unat (apple_p2p_sync_next_aw_us now s) \<le> 64 * 1024 \<and>
    (elapsed now s + unat (apple_p2p_sync_next_aw_us now s)) mod (64 * 1024) = 0 \<and>
    unat (apple_p2p_sync_next_aw_tu now s) = (unat (apple_p2p_sync_next_aw_us now s) + 1023) div 1024"
proof -
  define d where "d = elapsed now s"
  have us: "unat (apple_p2p_sync_next_aw_us now s) = 65536 - d mod 65536"
    and tu: "unat (apple_p2p_sync_next_aw_tu now s) = 64 - d div 1024 mod 64"
    using next_aw_us_nat next_aw_tu_nat assms unfolding d_def by auto
  have "d mod 65536 < 65536" by simp
  moreover have "(d + (65536 - d mod 65536)) mod 65536 = 0"
  proof -
    define q m where "q = d div 65536" and "m = d mod 65536"
    then have "d = 65536 * q + m" and "m < 65536" by simp_all
    then have "d + (65536 - m) = 65536 * (q + 1)" by simp
    then show ?thesis unfolding m_def by (simp only: mod_mult_self1_is_0)
  qed
  moreover have "64 - d div 1024 mod 64 = (65536 - d mod 65536 + 1023) div 1024"
  proof -
    define e f r where "e = d div 1024 mod 64" and "f = 64 - e" and "r = d mod 1024"
    have "e < 64" and "r < 1024" by (simp_all add: e_def r_def)
    moreover have "d mod (1024 * 64) = 1024 * e + r"
      unfolding e_def r_def by (rule mod_mult2_eq)
    ultimately have "65536 - d mod 65536 + 1023 = 1024 * f + (1023 - r)" by (simp add: f_def)
    then have "(65536 - d mod 65536 + 1023) div 1024 = f" by simp
    then show ?thesis by (simp add: e_def f_def)
  qed
  ultimately show ?thesis unfolding us tu d_def [symmetric] by simp
qed

theorem next_aw_bounds_witness:
  "unat (apple_p2p_sync_next_aw_tu 3000 (apple_p2p_sync_state_init 0)) = 62"
  using next_aw_bounds [OF sync_init_wf, of 3000 0] next_aw_us_nat [OF sync_init_wf, of 3000 0]
  by simp

lemma and_fffc: "unat (a AND 0xfffc :: u16) = unat a div 4 * 4"
proof -
  have m: "(0xfffc :: u16) = NOT (mask 2)" by (simp add: mask_eq_exp_minus_1)
  have "a AND 0xfffc = push_bit 2 (drop_bit 2 a)"
    unfolding m
  proof (rule bit_word_eqI)
    fix n
    show "bit (a AND NOT (mask 2)) n \<longleftrightarrow> bit (push_bit 2 (drop_bit 2 a)) n"
      using bit_imp_le_length [of a n]
      by (cases "n < 2") (auto simp: bit_simps dest!: le_Suc_ex [of 2] simp: not_less)
  qed
  then have "unat (a AND 0xfffc) = unat (push_bit 2 (drop_bit 2 a))" by simp
  also have "\<dots> = unat a div 4 * 4 mod 65536"
    by (simp add: push_bit_eq_mult drop_bit_eq_div unat_word_ariths unat_div mod_simps)
  also have "\<dots> = unat a div 4 * 4"
    using unat_bound [of a] by simp
  finally show ?thesis .
qed

lemma elapsed_after_update:
  assumes "sync_wf s"
  shows "elapsed now (apple_p2p_sync_update_last now t a s)
    = (if unat t \<le> 64 then (64 - unat t) * 1024 else 2 ^ 32 - (unat t - 64) * 1024)"
proof -
  let ?t = "ucast t :: u64"
  have t: "unat ?t = unat t" and t16: "unat t < 65536"
    using unat_bound [of t] by (simp_all add: unat_ucast)
  have e: "elapsed now (apple_p2p_sync_update_last now t a s)
      = unat (ieee80211_tu_to_usec (ucast (64 - ?t)))"
    by (simp add: elapsed_def apple_p2p_sync_update_last_def eaw_period_wf [OF assms] Let_def
        unat_ucast) (rule mod_less, rule less_trans [OF unat_bound], simp)
  have m: "unat (ieee80211_tu_to_usec (ucast (64 - ?t))) = 1024 * (unat (64 - ?t) mod 2 ^ 32) mod 2 ^ 32"
    by (simp add: ieee80211_tu_to_usec_def unat_word_ariths unat_ucast)
  show ?thesis
  proof (cases "unat t \<le> 64")
    case True
    then have "?t \<le> 64" by (simp add: word_le_nat_alt t)
    then have "unat (64 - ?t) = 64 - unat t" by (simp add: unat_sub t)
    then show ?thesis unfolding e m using True by simp
  next
    case False
    then have "unat (64 - ?t) = 2 ^ 64 + 64 - unat t"
      by (simp add: unat_sub_if_size t word_size)
    moreover have "(2 ^ 64 + 64 - unat t) mod 2 ^ 32 = 2 ^ 32 - (unat t - 64)"
    proof -
      have "2 ^ 64 + 64 - unat t = (2 ^ 32 - (unat t - 64)) + 2 ^ 32 * (2 ^ 32 - 1)"
        using t16 False by simp
      then show ?thesis using False by (simp only: mod_mult_self2) simp
    qed
    moreover have "1024 * (2 ^ 32 - (unat t - 64)) mod 2 ^ 32 = 2 ^ 32 - (unat t - 64) * 1024"
    proof -
      have "1024 * (2 ^ 32 - (unat t - 64)) = (2 ^ 32 - (unat t - 64) * 1024) + 2 ^ 32 * 1023"
        using t16 False by simp
      then show ?thesis using False by (simp only: mod_mult_self2) simp
    qed
    ultimately show ?thesis unfolding e m using False by simp
  qed
qed

lemma after_update:
  assumes wf: "sync_wf s" and t: "unat t = 64 * k + r" and r: "1 \<le> r" "r \<le> 64"
    and k: "k \<le> unat a div 4"
  shows "unat (apple_p2p_sync_next_aw_tu now (apple_p2p_sync_update_last now t a s)) = r"
    and "unat (apple_p2p_sync_current_eaw now (apple_p2p_sync_update_last now t a s)) = unat a div 4 - k"
proof -
  let ?s = "apple_p2p_sync_update_last now t a s"
  define d where "d = elapsed now ?s"
  have k1: "k \<le> 1023" using t r unat_bound [of t] by simp
  have d: "d div 1024 = (if k = 0 then 64 - r else 64 * (65536 - k) + (64 - r))"
  proof (cases "k = 0")
    case True
    then show ?thesis using t r by (simp add: d_def elapsed_after_update [OF wf])
  next
    case False
    then have "d = 2 ^ 32 - (64 * k + r - 64) * 1024"
      using t r by (simp add: d_def elapsed_after_update [OF wf])
    also have "\<dots> = 1024 * (64 * (65536 - k) + (64 - r))" using k1 r False by simp
    finally show ?thesis using False by simp
  qed
  then have "d div 1024 mod 64 = (64 - r) mod 64" by simp
  then show "unat (apple_p2p_sync_next_aw_tu now ?s) = r"
    using r next_aw_tu_nat [OF sync_update_wf [OF wf]] unfolding d_def by simp
  have aw: "unat (aw_counter ?s) = 4 * (unat a div 4)"
    by (simp add: apple_p2p_sync_update_last_def Let_def and_fffc)
  have "d div 16384 = d div 1024 div 16" by (simp add: div_mult2_eq [symmetric])
  also have "\<dots> = (if k = 0 then 0 else 4 * (65536 - k)) + (64 - r) div 16"
  proof -
    have "64 * (65536 - k) + (64 - r) = (64 - r) + 16 * (4 * (65536 - k))" by simp
    then have "(64 * (65536 - k) + (64 - r)) div 16 = 4 * (65536 - k) + (64 - r) div 16"
      by (simp only: div_mult_self2)
    then show ?thesis unfolding d by simp
  qed
  finally have w: "d div 16384 = (if k = 0 then 0 else 4 * (65536 - k)) + (64 - r) div 16" .
  have "(unat (aw_counter ?s) + d div 16384) mod 65536 = 4 * (unat a div 4 - k) + (64 - r) div 16"
  proof -
    have small: "4 * (unat a div 4 - k) + (64 - r) div 16 < 65536"
    proof -
      have "unat a div 4 \<le> 16383" using unat_bound [of a] by simp
      moreover have "(64 - r) div 16 \<le> 3" using r by simp
      ultimately show ?thesis by linarith
    qed
    have "unat (aw_counter ?s) + d div 16384
        = 4 * (unat a div 4 - k) + (64 - r) div 16 + 65536 * (if k = 0 then 0 else 4)"
    proof (cases "k = 0")
      case False
      have "65536 - k + k = 65536" and "unat a div 4 - k + k = unat a div 4" using k k1 by simp_all
      then show ?thesis unfolding aw w using False by simp
    qed (simp add: aw w)
    then show ?thesis using small by (simp only: mod_mult_self2) simp
  qed
  moreover have "(64 - r) div 16 < 4" using r by simp
  ultimately show "unat (apple_p2p_sync_current_eaw now ?s) = unat a div 4 - k"
    using current_eaw_nat [OF sync_update_wf [OF wf]] unfolding d_def by simp
qed



end
