(* ===== verification/Frame.thy ===== *)
theory Frame
  imports Ether Channel
begin

text \<open>
  frame.h, frame.c and the constants of ieee80211.h the frame code uses: record types, action
  types, their names, and the frame control bits. The packed structures of frame.h are
  modelled where they are filled and read (Response and Tx, Rx).
\<close>

section \<open>Constants\<close>

abbreviation APPLE_P2P_LLC_PROTOCOL_ID :: u16 where "APPLE_P2P_LLC_PROTOCOL_ID \<equiv> 0x0800"
abbreviation IEEE80211_VENDOR_SPECIFIC :: u8 where "IEEE80211_VENDOR_SPECIFIC \<equiv> 127"
abbreviation APPLE_P2P_TYPE :: u8 where "APPLE_P2P_TYPE \<equiv> 8"

definition APPLE_P2P_OUI :: "u8 list" where "APPLE_P2P_OUI = [0x00, 0x17, 0xf2]"
definition APPLE_P2P_BSSID :: ether_addr where
  "APPLE_P2P_BSSID = EtherAddr 0x00 0x25 0x00 0xff 0x94 0x73"
definition APPLE_P2P_VERSION_COMPAT :: u8 where "APPLE_P2P_VERSION_COMPAT = apple_p2p_version 1 0"
definition ETHER_BROADCAST :: ether_addr where
  "ETHER_BROADCAST = EtherAddr 0xff 0xff 0xff 0xff 0xff 0xff"

abbreviation APPLE_P2P_ACTION_PSF :: u8 where "APPLE_P2P_ACTION_PSF \<equiv> 0"
abbreviation APPLE_P2P_ACTION_MIF :: u8 where "APPLE_P2P_ACTION_MIF \<equiv> 3"

abbreviation APPLE_P2P_SSTH_REQUEST_TLV :: u8 where "APPLE_P2P_SSTH_REQUEST_TLV \<equiv> 0"
abbreviation APPLE_P2P_SERVICE_REQUEST_TLV :: u8 where "APPLE_P2P_SERVICE_REQUEST_TLV \<equiv> 1"
abbreviation APPLE_P2P_SERVICE_RESPONSE_TLV :: u8 where "APPLE_P2P_SERVICE_RESPONSE_TLV \<equiv> 2"
abbreviation APPLE_P2P_SYNCHRONIZATON_PARAMETERS_TLV :: u8 where "APPLE_P2P_SYNCHRONIZATON_PARAMETERS_TLV \<equiv> 4"
abbreviation APPLE_P2P_ELECTION_PARAMETERS_TLV :: u8 where "APPLE_P2P_ELECTION_PARAMETERS_TLV \<equiv> 5"
abbreviation APPLE_P2P_SERVICE_PARAMETERS_TLV :: u8 where "APPLE_P2P_SERVICE_PARAMETERS_TLV \<equiv> 6"
abbreviation APPLE_P2P_ENHANCED_DATA_RATE_CAPABILITIES_TLV :: u8 where "APPLE_P2P_ENHANCED_DATA_RATE_CAPABILITIES_TLV \<equiv> 7"
abbreviation APPLE_P2P_ENHANCED_DATA_RATE_OPERATION_TLV :: u8 where "APPLE_P2P_ENHANCED_DATA_RATE_OPERATION_TLV \<equiv> 8"
abbreviation APPLE_P2P_INFRA_TLV :: u8 where "APPLE_P2P_INFRA_TLV \<equiv> 9"
abbreviation APPLE_P2P_INVITE_TLV :: u8 where "APPLE_P2P_INVITE_TLV \<equiv> 10"
abbreviation APPLE_P2P_DBG_STRING_TLV :: u8 where "APPLE_P2P_DBG_STRING_TLV \<equiv> 11"
abbreviation APPLE_P2P_DATA_PATH_STATE_TLV :: u8 where "APPLE_P2P_DATA_PATH_STATE_TLV \<equiv> 12"
abbreviation APPLE_P2P_ENCAPSULATED_IP_TLV :: u8 where "APPLE_P2P_ENCAPSULATED_IP_TLV \<equiv> 13"
abbreviation APPLE_P2P_DATAPATH_DEBUG_PACKET_LIVE_TLV :: u8 where "APPLE_P2P_DATAPATH_DEBUG_PACKET_LIVE_TLV \<equiv> 14"
abbreviation APPLE_P2P_DATAPATH_DEBUG_AF_LIVE_TLV :: u8 where "APPLE_P2P_DATAPATH_DEBUG_AF_LIVE_TLV \<equiv> 15"
abbreviation APPLE_P2P_ARPA_TLV :: u8 where "APPLE_P2P_ARPA_TLV \<equiv> 16"
abbreviation APPLE_P2P_IEEE80211_CNTNR_TLV :: u8 where "APPLE_P2P_IEEE80211_CNTNR_TLV \<equiv> 17"
abbreviation APPLE_P2P_CHAN_SEQ_TLV :: u8 where "APPLE_P2P_CHAN_SEQ_TLV \<equiv> 18"
abbreviation APPLE_P2P_SYNCTREE_TLV :: u8 where "APPLE_P2P_SYNCTREE_TLV \<equiv> 20"
abbreviation APPLE_P2P_VERSION_TLV :: u8 where "APPLE_P2P_VERSION_TLV \<equiv> 21"
abbreviation APPLE_P2P_BLOOM_FILTER_TLV :: u8 where "APPLE_P2P_BLOOM_FILTER_TLV \<equiv> 22"
abbreviation APPLE_P2P_NAN_SYNC_TLV :: u8 where "APPLE_P2P_NAN_SYNC_TLV \<equiv> 23"
abbreviation APPLE_P2P_ELECTION_PARAMETERS_V2_TLV :: u8 where "APPLE_P2P_ELECTION_PARAMETERS_V2_TLV \<equiv> 24"

abbreviation APPLE_P2P_DATA_PATH_FLAG_COUNTRY_CODE :: u16 where
  "APPLE_P2P_DATA_PATH_FLAG_COUNTRY_CODE \<equiv> 0x0100"
abbreviation APPLE_P2P_DATA_PATH_FLAG_SOCIAL_CHANNEL_MAP :: u16 where
  "APPLE_P2P_DATA_PATH_FLAG_SOCIAL_CHANNEL_MAP \<equiv> 0x0200"
abbreviation APPLE_P2P_DATA_PATH_FLAG_INFRA_INFO :: u16 where
  "APPLE_P2P_DATA_PATH_FLAG_INFRA_INFO \<equiv> 0x0001"
abbreviation APPLE_P2P_DATA_PATH_FLAG_INFRA_ADDRESS :: u16 where
  "APPLE_P2P_DATA_PATH_FLAG_INFRA_ADDRESS \<equiv> 0x0002"
abbreviation APPLE_P2P_DATA_PATH_FLAG_APPLE_P2P_ADDRESS :: u16 where
  "APPLE_P2P_DATA_PATH_FLAG_APPLE_P2P_ADDRESS \<equiv> 0x0004"
abbreviation APPLE_P2P_DATA_PATH_FLAG_UMI :: u16 where
  "APPLE_P2P_DATA_PATH_FLAG_UMI \<equiv> 0x0010"

abbreviation IEEE80211_FCTL_FTYPE :: u16 where "IEEE80211_FCTL_FTYPE \<equiv> 0x000c"
abbreviation IEEE80211_FCTL_STYPE :: u16 where "IEEE80211_FCTL_STYPE \<equiv> 0x00f0"
abbreviation IEEE80211_FTYPE_MGMT :: u16 where "IEEE80211_FTYPE_MGMT \<equiv> 0x0000"
abbreviation IEEE80211_FTYPE_DATA :: u16 where "IEEE80211_FTYPE_DATA \<equiv> 0x0008"
abbreviation IEEE80211_STYPE_ACTION :: u16 where "IEEE80211_STYPE_ACTION \<equiv> 0x00D0"
abbreviation IEEE80211_STYPE_DATA :: u16 where "IEEE80211_STYPE_DATA \<equiv> 0x0000"
abbreviation IEEE80211_STYPE_QOS_DATA :: u16 where "IEEE80211_STYPE_QOS_DATA \<equiv> 0x0080"
abbreviation FCS_LEN :: nat where "FCS_LEN \<equiv> 4"

section \<open>Names\<close>

definition apple_p2p_frame_as_str :: "u8 \<Rightarrow> string" where
  "apple_p2p_frame_as_str typ =
     (if typ = APPLE_P2P_ACTION_PSF then ''PSF''
      else if typ = APPLE_P2P_ACTION_MIF then ''MIF''
      else ''Unknown'')"

definition apple_p2p_tlv_as_str :: "u8 \<Rightarrow> string" where
  "apple_p2p_tlv_as_str typ =
     (if typ = APPLE_P2P_SSTH_REQUEST_TLV then ''SSTH Request''
      else if typ = APPLE_P2P_SERVICE_REQUEST_TLV then ''Service Request''
      else if typ = APPLE_P2P_SERVICE_RESPONSE_TLV then ''Service Response''
      else if typ = APPLE_P2P_SYNCHRONIZATON_PARAMETERS_TLV then ''Synchronization Parameters''
      else if typ = APPLE_P2P_ELECTION_PARAMETERS_TLV then ''Election Parameters''
      else if typ = APPLE_P2P_SERVICE_PARAMETERS_TLV then ''Service Parameters''
      else if typ = APPLE_P2P_ENHANCED_DATA_RATE_CAPABILITIES_TLV then ''HT Capabilities''
      else if typ = APPLE_P2P_ENHANCED_DATA_RATE_OPERATION_TLV then ''HT Operation''
      else if typ = APPLE_P2P_INFRA_TLV then ''Infra''
      else if typ = APPLE_P2P_INVITE_TLV then ''Invite''
      else if typ = APPLE_P2P_DBG_STRING_TLV then ''Debug String''
      else if typ = APPLE_P2P_DATA_PATH_STATE_TLV then ''Data Path State''
      else if typ = APPLE_P2P_ENCAPSULATED_IP_TLV then ''Encapsulated IP''
      else if typ = APPLE_P2P_DATAPATH_DEBUG_PACKET_LIVE_TLV then ''Datapath Debug Packet Live''
      else if typ = APPLE_P2P_DATAPATH_DEBUG_AF_LIVE_TLV then ''Datapath Debug AF Live''
      else if typ = APPLE_P2P_ARPA_TLV then ''Arpa''
      else if typ = APPLE_P2P_IEEE80211_CNTNR_TLV then ''VHT Capabilities''
      else if typ = APPLE_P2P_CHAN_SEQ_TLV then ''Channel Sequence''
      else if typ = APPLE_P2P_SYNCTREE_TLV then ''Synchronization Tree''
      else if typ = APPLE_P2P_VERSION_TLV then ''Version''
      else if typ = APPLE_P2P_BLOOM_FILTER_TLV then ''Bloom Filter''
      else if typ = APPLE_P2P_NAN_SYNC_TLV then ''NAN Sync''
      else if typ = APPLE_P2P_ELECTION_PARAMETERS_V2_TLV then ''Election Parameters v2''
      else ''Unknown'')"

end
