(* ===== verification/State.thy ===== *)
theory State
  imports Peers Sync Frame
begin

text \<open>
  state.h and state.c: the complete node state, its initialisation, the sequence counters and
  the clock. Callback pointers are modelled by whether they are set; their opaque data
  arguments are kept as words.
\<close>

section \<open>The node state\<close>

abbreviation RSSI_THRESHOLD_DEFAULT :: "8 word" where "RSSI_THRESHOLD_DEFAULT \<equiv> word_of_int (-65)"
abbreviation RSSI_GRACE_DEFAULT :: "8 word" where "RSSI_GRACE_DEFAULT \<equiv> word_of_int (-5)"
abbreviation PSF_INTERVAL_MASTER_TU :: u16 where "PSF_INTERVAL_MASTER_TU \<equiv> 110"

record apple_p2p_stats =
  st_tx_action :: u64
  st_tx_data :: u64
  st_tx_data_unicast :: u64
  st_tx_data_multicast :: u64
  st_rx_action :: u64
  st_rx_data :: u64
  st_rx_unknown :: u64

text \<open>\<open>s_name\<close> is the array of \<open>HOST_NAME_LENGTH_MAX + 1\<close> bytes.\<close>

record apple_p2p_state =
  s_self_address :: ether_addr
  s_name :: "u8 list"
  s_version :: u8
  s_dev_class :: u8
  s_sequence_number :: u16
  s_psf_interval :: u16
  s_dst :: ether_addr
  s_tlv_cb :: bool
  s_tlv_cb_data :: ulong
  s_peer_cb :: bool
  s_peer_cb_data :: ulong
  s_peer_remove_cb :: bool
  s_peer_remove_cb_data :: ulong
  s_filter_rssi :: int
  s_rssi_threshold :: "8 word"
  s_rssi_grace :: "8 word"
  s_election :: apple_p2p_election_state
  s_sync :: apple_p2p_sync_state
  s_channel :: apple_p2p_channel_state
  s_peers :: apple_p2p_peer_state
  s_stats :: apple_p2p_stats

definition apple_p2p_stats_init :: apple_p2p_stats where
  "apple_p2p_stats_init = \<lparr>st_tx_action = 0, st_tx_data = 0, st_tx_data_unicast = 0,
     st_tx_data_multicast = 0, st_rx_action = 0, st_rx_data = 0, st_rx_unknown = 0\<rparr>"

text \<open>\<open>strncpy(dst, src, n)\<close> for a source string \<open>src\<close> (without its terminator).\<close>

definition strncpy :: "u8 list \<Rightarrow> u8 list \<Rightarrow> nat \<Rightarrow> u8 list" where
  "strncpy dst src n = overwrite dst 0 (take n (src @ replicate n 0))"

text \<open>\<open>mem\<close> is the memory of the structure before, \<open>None\<close> an unavailable peer table.\<close>

definition apple_p2p_init_state ::
  "(nat \<Rightarrow> bool) \<Rightarrow> apple_p2p_state \<Rightarrow> u8 list \<Rightarrow> ether_addr \<Rightarrow> apple_p2p_chan \<Rightarrow> u64 \<Rightarrow> apple_p2p_state option" where
  "apple_p2p_init_state calloc_ok mem hostname self chan now =
     (case apple_p2p_peer_state_init calloc_ok of
        None \<Rightarrow> None
      | Some peer_state \<Rightarrow> Some (mem\<lparr>
          s_self_address := self,
          s_name := strncpy (s_name mem) hostname HOST_NAME_LENGTH_MAX,
          s_version := apple_p2p_version 3 4,
          s_dev_class := APPLE_P2P_DEVCLASS_MACOS,
          s_sequence_number := 0,
          s_psf_interval := PSF_INTERVAL_MASTER_TU,
          s_dst := ETHER_BROADCAST,
          s_tlv_cb := False, s_tlv_cb_data := 0,
          s_peer_cb := False, s_peer_cb_data := 0,
          s_peer_remove_cb := False, s_peer_remove_cb_data := 0,
          s_filter_rssi := 1,
          s_rssi_threshold := RSSI_THRESHOLD_DEFAULT,
          s_rssi_grace := RSSI_GRACE_DEFAULT,
          s_sync := apple_p2p_sync_state_init now,
          s_channel := \<lparr>ch_enc = APPLE_P2P_CHAN_ENC_OPCLASS,
                        ch_sequence = apple_p2p_chanseq_init_static chan,
                        ch_master = chan, ch_current = CHAN_NULL\<rparr>,
          s_election := apple_p2p_election_state_init (s_election mem) self,
          s_peers := peer_state,
          s_stats := apple_p2p_stats_init\<rparr>))"

definition apple_p2p_state_next_sequence_number :: "apple_p2p_state \<Rightarrow> u16 \<times> apple_p2p_state" where
  "apple_p2p_state_next_sequence_number state =
     (s_sequence_number state, state\<lparr>s_sequence_number := s_sequence_number state + 1\<rparr>)"

record ieee80211_state =
  i_sequence_number :: u16
  i_fcs :: bool

definition ieee80211_init_state :: ieee80211_state where
  "ieee80211_init_state = \<lparr>i_sequence_number = 0, i_fcs = False\<rparr>"

definition ieee80211_state_next_sequence_number :: "ieee80211_state \<Rightarrow> u32 \<times> ieee80211_state" where
  "ieee80211_state_next_sequence_number state =
     (let seq = i_sequence_number state;
          state = state\<lparr>i_sequence_number := i_sequence_number state + 1\<rparr>;
          state = state\<lparr>i_sequence_number := i_sequence_number state AND 0x0fff\<rparr>
      in (ucast seq, state))"

text \<open>
  The clock: \<open>reading\<close> is what \<open>clock_gettime\<close> delivers (\<open>None\<close> on an error). Seconds and
  the factor have type \<open>long\<close>, 32 bits on the target; the result \<open>None\<close> stands for the
  overflow of the signed product, which C leaves undefined.
\<close>

definition clock_time_us :: "(int \<times> int) option \<Rightarrow> u64 option" where
  "clock_time_us reading =
     (case reading of
        None \<Rightarrow> Some 0
      | Some (tv_sec, tv_nsec) \<Rightarrow>
          if tv_sec * 1000000 \<ge> 2 ^ 31 \<or> tv_sec * 1000000 < - (2 ^ 31) then None
          else Some (word_of_int (tv_sec * 1000000) + word_of_int (tv_nsec div 1000)))"

section \<open>The initial state\<close>

definition state_wf :: "apple_p2p_state \<Rightarrow> bool" where
  "state_wf s \<longleftrightarrow> sync_wf (s_sync s) \<and> peers_inv (ps_peers (s_peers s)) \<and>
     length (ch_sequence (s_channel s)) = 16 \<and> ch_enc (s_channel s) = APPLE_P2P_CHAN_ENC_OPCLASS \<and>
     e_self_addr (s_election s) = s_self_address s"

text \<open>A state to instantiate lemmas with.\<close>

definition sample_state :: "peers_table \<Rightarrow> apple_p2p_state" where
  "sample_state peers = \<lparr>s_self_address = EtherAddr 2 0 0 0 0 1, s_name = replicate 65 0,
     s_version = 0x34, s_dev_class = 1, s_sequence_number = 0, s_psf_interval = 110,
     s_dst = ETHER_BROADCAST, s_tlv_cb = False, s_tlv_cb_data = 0, s_peer_cb = False,
     s_peer_cb_data = 0, s_peer_remove_cb = False, s_peer_remove_cb_data = 0, s_filter_rssi = 1,
     s_rssi_threshold = RSSI_THRESHOLD_DEFAULT, s_rssi_grace = RSSI_GRACE_DEFAULT,
     s_election = sample_election 1, s_sync = apple_p2p_sync_state_init 0,
     s_channel = \<lparr>ch_enc = 3, ch_sequence = apple_p2p_chanseq_init_static CHAN_OPCLASS_149,
       ch_master = CHAN_OPCLASS_149, ch_current = CHAN_NULL\<rparr>,
     s_peers = \<lparr>ps_peers = peers, ps_timeout = 2000000, ps_clean_interval = 1000000\<rparr>,
     s_stats = apple_p2p_stats_init\<rparr>"

lemma sample_state_wf: "peers_inv m \<Longrightarrow> state_wf (sample_state m)"
  by (simp add: state_wf_def sample_state_def sample_election_def)

lemma empty_peers:
  obtains m where "apple_p2p_peers_init (\<lambda>n. n \<le> 4096) = Some m" and "peers_inv m"
    and "peer_map m = Map.empty"
proof -
  obtain m :: peers_table where m: "apple_p2p_peers_init (\<lambda>n. n \<le> 4096) = Some m"
    unfolding apple_p2p_peers_init_def using hashmap_new_table by blast
  with that peers_init_inv [OF m] show thesis by blast
qed

lemma init_state_correct:
  assumes "apple_p2p_init_state ok mem hostname self chan now = Some s"
  shows "state_wf s \<and> peer_map (ps_peers (s_peers s)) = Map.empty \<and>
    e_master_addr (s_election s) = self \<and> e_sync_addr (s_election s) = self \<and>
    e_height (s_election s) = 0 \<and> (\<forall>i. i < 16 \<longrightarrow> ch_sequence (s_channel s) ! i = chan) \<and>
    apple_p2p_chan_num (ch_current (s_channel s)) (ch_enc (s_channel s)) = 0"
proof -
  obtain m where m: "apple_p2p_peers_init ok = Some m"
    and s: "s_self_address s = self" "s_sync s = apple_p2p_sync_state_init now"
      "s_channel s = \<lparr>ch_enc = 3, ch_sequence = apple_p2p_chanseq_init_static chan,
         ch_master = chan, ch_current = CHAN_NULL\<rparr>"
      "s_election s = apple_p2p_election_state_init (s_election mem) self"
      "ps_peers (s_peers s) = m"
    using assms by (auto simp: apple_p2p_init_state_def apple_p2p_peer_state_init_def
        split: option.splits)
  show ?thesis
    using peers_init_inv [OF m] s
    by (simp add: state_wf_def election_state_init_eq apple_p2p_chan_num_def CHAN_NULL_def)
qed

text \<open>The initial state is well-formed: no peers, the node its own master, the sixteen
  slots on the configured channel and the radio on none.\<close>

theorem init_state_wf:
  assumes "apple_p2p_init_state ok mem hostname self chan now = Some s"
  shows "state_wf s \<and> peer_map (ps_peers (s_peers s)) = Map.empty \<and>
    e_master_addr (s_election s) = self \<and> e_sync_addr (s_election s) = self \<and>
    e_height (s_election s) = 0 \<and> (\<forall>i. i < 16 \<longrightarrow> ch_sequence (s_channel s) ! i = chan) \<and>
    apple_p2p_chan_num (ch_current (s_channel s)) (ch_enc (s_channel s)) = 0"
  by (rule init_state_correct [OF assms])

theorem init_state_wf_witness:
  "\<exists>m s. apple_p2p_init_state (\<lambda>n. n \<le> 4096) (sample_state m) (bytes_of ''phone'')
       (EtherAddr 2 0 0 0 0 7) CHAN_OPCLASS_6 1000 = Some s \<and> state_wf s"
proof -
  obtain m where m: "apple_p2p_peers_init (\<lambda>n. n \<le> 4096) = Some m" by (rule empty_peers)
  then obtain s where s: "apple_p2p_init_state (\<lambda>n. n \<le> 4096) (sample_state m) (bytes_of ''phone'')
       (EtherAddr 2 0 0 0 0 7) CHAN_OPCLASS_6 1000 = Some s"
    by (simp add: apple_p2p_init_state_def apple_p2p_peer_state_init_def)
  show ?thesis using s init_state_wf [OF s] by blast
qed

section \<open>The host name\<close>

text \<open>A host name of fewer than 64 bytes is stored as a terminated string; of a longer one
  the first 64 bytes are stored and the terminator is whatever byte the memory held, because
  the last byte of the array is never written.\<close>

theorem init_state_name:
  assumes "apple_p2p_init_state ok mem hostname self chan now = Some s"
    and "length (s_name mem) = 65" and "0 \<notin> set hostname"
  shows "length (s_name s) = 65 \<and>
    (length hostname < 64 \<longrightarrow> cstr (s_name s) = hostname) \<and>
    (64 \<le> length hostname \<longrightarrow> s_name s = take 64 hostname @ [s_name mem ! 64])"
proof -
  have s: "s_name s = strncpy (s_name mem) hostname 64"
    using assms(1) by (auto simp: apple_p2p_init_state_def split: option.splits)
  have last: "drop 64 (s_name mem) = [s_name mem ! 64]"
    using Cons_nth_drop_Suc [of 64 "s_name mem"] assms(2) by simp
  have eq: "s_name s = take 64 (hostname @ replicate 64 0) @ [s_name mem ! 64]"
    using assms(2) last by (simp add: s strncpy_def overwrite_def min_def)
  have "cstr (s_name s) = hostname" if "length hostname < 64"
  proof -
    from that obtain k where k: "64 - length hostname = Suc k"
      by (cases "64 - length hostname") auto
    have "s_name s = hostname @ 0 # replicate k 0 @ [s_name mem ! 64]"
      unfolding eq using that k by simp
    then show ?thesis using cstr_terminated [OF assms(3)] by simp
  qed
  then show ?thesis unfolding eq using assms(2) by simp
qed

theorem init_state_name_witness:
  "\<exists>m s. apple_p2p_init_state (\<lambda>n. n \<le> 4096) ((sample_state m)\<lparr>s_name := replicate 65 7\<rparr>)
       (replicate 64 97) (EtherAddr 2 0 0 0 0 7) CHAN_OPCLASS_6 1000 = Some s \<and>
     s_name s = replicate 64 97 @ [7]"
proof -
  obtain m where m: "apple_p2p_peers_init (\<lambda>n. n \<le> 4096) = Some m" by (rule empty_peers)
  then obtain s where s: "apple_p2p_init_state (\<lambda>n. n \<le> 4096)
       ((sample_state m)\<lparr>s_name := replicate 65 7\<rparr>) (replicate 64 97)
       (EtherAddr 2 0 0 0 0 7) CHAN_OPCLASS_6 1000 = Some s"
    by (simp add: apple_p2p_init_state_def apple_p2p_peer_state_init_def)
  show ?thesis using s init_state_name [OF s] by (intro exI [of _ m] exI [of _ s]) simp
qed

section \<open>Sequence numbers\<close>

lemma and_0fff: "(w :: u16) AND 0x0fff = take_bit 12 w"
proof -
  have "(0x0fff :: u16) = mask 12" by (simp add: mask_eq_exp_minus_1)
  then show ?thesis by (simp add: take_bit_eq_mask)
qed

text \<open>The 802.11 sequence numbers count up modulo \<open>2 ^ 12\<close>, so the value fits the
  sequence control field.\<close>

theorem next_sequence_number_12_bits:
  assumes "unat (i_sequence_number st) < 4096"
  shows "fst (ieee80211_state_next_sequence_number st) = ucast (i_sequence_number st) \<and>
    unat (i_sequence_number (snd (ieee80211_state_next_sequence_number st)))
      = (unat (i_sequence_number st) + 1) mod 4096 \<and>
    unat (fst (ieee80211_state_next_sequence_number st)) < 4096"
proof -
  have "unat (take_bit 12 (i_sequence_number st + 1)) = (unat (i_sequence_number st) + 1) mod 4096"
    using assms by (simp add: unsigned_take_bit_eq take_bit_eq_mod unat_word_ariths)
  then show ?thesis
    using assms by (simp add: ieee80211_state_next_sequence_number_def Let_def and_0fff unat_ucast)
qed

theorem next_sequence_number_12_bits_witness:
  "unat (i_sequence_number (snd (ieee80211_state_next_sequence_number
     \<lparr>i_sequence_number = 4095, i_fcs = True\<rparr>))) = 0"
  using next_sequence_number_12_bits [of "\<lparr>i_sequence_number = 4095, i_fcs = True\<rparr>"] by simp

section \<open>The clock\<close>

text \<open>The microsecond clock is exact during the first 2147 seconds after boot; from the
  second 2148 on the 32-bit product overflows and the code has no defined value.\<close>

theorem clock_overflow:
  assumes "0 \<le> sec" and "0 \<le> nsec" and "nsec < 1000000000"
  shows "clock_time_us (Some (sec, nsec)) =
      (if sec < 2148 then Some (word_of_int (sec * 1000000 + nsec div 1000)) else None)"
  using assms by (auto simp: clock_time_us_def)

theorem clock_overflow_witness:
  "clock_time_us (Some (2147, 5000)) = Some 2147000005 \<and> clock_time_us (Some (2148, 0)) = None"
  using clock_overflow [of 2147 5000] clock_overflow [of 2148 0] by simp

end
