(* ===== verification/Schedule.thy ===== *)
theory Schedule
  imports State
begin

text \<open>
  schedule.c: when a data frame may be sent. The guard keeps frames away from the borders of
  an extended availability window. Times in seconds, \<open>double\<close> in the code, are rational
  numbers here: rounding is not modelled.
\<close>

section \<open>Definitions\<close>

abbreviation APPLE_P2P_UNICAST_GUARD_TU :: int where "APPLE_P2P_UNICAST_GUARD_TU \<equiv> 3"
abbreviation APPLE_P2P_MULTICAST_GUARD_TU :: int where "APPLE_P2P_MULTICAST_GUARD_TU \<equiv> 16"

definition usec_to_sec :: "u64 \<Rightarrow> rat" where
  "usec_to_sec usec = of_nat (unat usec) / 1000000"

definition sec_to_usec :: "rat \<Rightarrow> u64" where
  "sec_to_usec sec = word_of_int \<lfloor>sec * 1000000\<rfloor>"

definition apple_p2p_same_channel_as_peer :: "apple_p2p_state \<Rightarrow> u64 \<Rightarrow> apple_p2p_peer \<Rightarrow> bool" where
  "apple_p2p_same_channel_as_peer state now peer =
     (let own_slot = unat (apple_p2p_sync_current_eaw now (s_sync state)) mod APPLE_P2P_CHANSEQ_LENGTH;
          peer_slot = unat (apple_p2p_sync_current_eaw (now + p_sync_offset peer) (s_sync state))
            mod APPLE_P2P_CHANSEQ_LENGTH;
          own_chan = apple_p2p_chan_num (ch_sequence (s_channel state) ! own_slot) (ch_enc (s_channel state));
          peer_chan = apple_p2p_chan_num (p_sequence peer ! peer_slot) (ch_enc (s_channel state))
      in own_chan \<noteq> 0 \<and> own_chan = peer_chan)"

definition apple_p2p_is_multicast_eaw :: "apple_p2p_state \<Rightarrow> u64 \<Rightarrow> bool" where
  "apple_p2p_is_multicast_eaw state now =
     (let slot = unat (apple_p2p_sync_current_eaw now (s_sync state)) mod APPLE_P2P_CHANSEQ_LENGTH
      in slot = 0 \<or> slot = 10)"

definition apple_p2p_can_send_in :: "apple_p2p_state \<Rightarrow> u64 \<Rightarrow> int \<Rightarrow> rat" where
  "apple_p2p_can_send_in state now guard =
     (let next_aw = apple_p2p_sync_next_aw_us now (s_sync state);
          guard' = ucast (ieee80211_tu_to_usec (word_of_int guard)) :: u64;
          eaw = ucast (ieee80211_tu_to_usec 64) :: u64
      in if next_aw < guard' then - usec_to_sec (guard' - next_aw)
         else if eaw - next_aw < guard' then usec_to_sec (guard' - (eaw - next_aw))
         else 0)"

definition apple_p2p_can_send_unicast_in ::
  "apple_p2p_state \<Rightarrow> apple_p2p_peer \<Rightarrow> u64 \<Rightarrow> int \<Rightarrow> rat" where
  "apple_p2p_can_send_unicast_in state peer now guard =
     (let next_aw = apple_p2p_sync_next_aw_us now (s_sync state);
          guard' = ucast (ieee80211_tu_to_usec (word_of_int guard)) :: u64;
          eaw = ucast (ieee80211_tu_to_usec 64) :: u64
      in if \<not> apple_p2p_same_channel_as_peer state now peer then usec_to_sec next_aw
         else if next_aw < guard' then
           (if apple_p2p_same_channel_as_peer state (now + eaw) peer then 0
            else - usec_to_sec (guard' - next_aw))
         else if eaw - next_aw < guard' then
           (if apple_p2p_same_channel_as_peer state (now - eaw) peer then 0
            else usec_to_sec (guard' - (eaw - next_aw)))
         else 0)"

section \<open>Positions inside a window\<close>

text \<open>Microseconds since the start of the current extended window.\<close>

definition position :: "apple_p2p_state \<Rightarrow> u64 \<Rightarrow> nat" where
  "position state now = elapsed now (s_sync state) mod 65536"

lemma position_less: "position state now < 65536"
  by (simp add: position_def)

lemma next_aw_position:
  "sync_wf (s_sync state) \<Longrightarrow>
     unat (apple_p2p_sync_next_aw_us now (s_sync state)) = 65536 - position state now"
  by (simp add: next_aw_us_nat position_def)

lemma guard_usec:
  assumes "0 \<le> g" and "g \<le> 64"
  shows "unat (ucast (ieee80211_tu_to_usec (word_of_int g)) :: u64) = nat g * 1024"
proof -
  have "nat g \<le> 64" using assms(2) by simp
  then show ?thesis
    using assms(1) by (simp add: ieee80211_tu_to_usec_def unat_ucast unat_word_ariths
        unat_word_of_int)
qed

lemma eaw_usec: "unat (ucast (ieee80211_tu_to_usec 64) :: u64) = 65536"
  by (simp add: ieee80211_tu_to_usec_def)

lemma usec_to_sec_diff:
  "b \<le> a \<Longrightarrow> usec_to_sec (a - b) = (of_nat (unat a) - of_nat (unat b)) / 1000000"
  by (simp add: usec_to_sec_def unat_sub word_le_nat_alt of_nat_diff)

lemma can_send_in_position:
  fixes now :: u64
  assumes wf: "sync_wf (s_sync state)" and g: "0 \<le> g" "g \<le> 32"
  defines "p \<equiv> position state now" and "G \<equiv> nat g * 1024"
  shows "apple_p2p_can_send_in state now g * 1000000 =
    (if 65536 - p < G then of_nat (65536 - p) - of_nat G
     else if p < G then of_nat G - of_nat p else 0)"
proof -
  let ?n = "apple_p2p_sync_next_aw_us now (s_sync state)"
  let ?g = "ucast (ieee80211_tu_to_usec (word_of_int g)) :: u64"
  let ?e = "ucast (ieee80211_tu_to_usec 64) :: u64"
  have n: "unat ?n = 65536 - p" unfolding p_def by (rule next_aw_position [OF wf])
  have p: "p < 65536" unfolding p_def by (rule position_less)
  have G: "unat ?g = G" unfolding G_def using g by (intro guard_usec) auto
  have le: "?n \<le> ?e" by (simp add: word_le_nat_alt n eaw_usec)
  then have en: "unat (?e - ?n) = p" using p by (simp add: unat_sub n eaw_usec)
  have c1: "?n < ?g \<longleftrightarrow> 65536 - p < G" by (simp add: word_less_nat_alt n G)
  have c2: "?e - ?n < ?g \<longleftrightarrow> p < G" by (simp add: word_less_nat_alt en G)
  consider "65536 - p < G" | "\<not> 65536 - p < G" "p < G" | "\<not> 65536 - p < G" "\<not> p < G" by blast
  then show ?thesis
  proof cases
    case 1
    then have "?n \<le> ?g" using c1 by simp
    then show ?thesis
      using 1 by (simp add: apple_p2p_can_send_in_def Let_def c1 usec_to_sec_diff n G field_simps)
  next
    case 2
    then have "?e - ?n \<le> ?g" using c2 by simp
    then show ?thesis
      using 2 by (simp add: apple_p2p_can_send_in_def Let_def c1 c2 usec_to_sec_diff en G)
  qed (simp add: apple_p2p_can_send_in_def Let_def c1 c2)
qed



section \<open>Unicast\<close>

text \<open>A unicast frame is sent only when node and peer are on the same channel right now;
  otherwise the answer is the (positive) time to the next window. Two nodes that stay on one
  common channel can always send.\<close>

theorem can_send_unicast_channel:
  assumes "sync_wf (s_sync state)"
  shows "(apple_p2p_can_send_unicast_in state peer now g = 0 \<longrightarrow>
      apple_p2p_same_channel_as_peer state now peer) \<and>
    (\<not> apple_p2p_same_channel_as_peer state now peer \<longrightarrow>
      0 < apple_p2p_can_send_unicast_in state peer now g \<and>
      apple_p2p_can_send_unicast_in state peer now g * 1000000 = of_nat (65536 - position state now)) \<and>
    ((\<forall>t. apple_p2p_same_channel_as_peer state t peer) \<longrightarrow>
      apple_p2p_can_send_unicast_in state peer now g = 0)"
proof -
  have "0 < usec_to_sec (apple_p2p_sync_next_aw_us now (s_sync state))"
    and "usec_to_sec (apple_p2p_sync_next_aw_us now (s_sync state)) * 1000000
      = of_nat (65536 - position state now)"
    using next_aw_position [OF assms, of now] position_less [of state now]
    by (simp_all add: usec_to_sec_def)
  then show ?thesis by (auto simp: apple_p2p_can_send_unicast_in_def Let_def)
qed

lemma same_channel_static:
  assumes "ch_sequence (s_channel state) = apple_p2p_chanseq_init_static c"
    and "p_sequence peer = apple_p2p_chanseq_init_static c"
    and "apple_p2p_chan_num c (ch_enc (s_channel state)) \<noteq> 0"
  shows "apple_p2p_same_channel_as_peer state t peer"
  using assms by (simp add: apple_p2p_same_channel_as_peer_def Let_def)

theorem can_send_unicast_channel_witness:
  "\<exists>m. apple_p2p_can_send_unicast_in (sample_state m) (sample_peer 3) 12345 3 = 0"
proof -
  have "apple_p2p_same_channel_as_peer (sample_state m) t (sample_peer 3)" for m t
    by (rule same_channel_static [where c = CHAN_OPCLASS_149])
      (simp_all add: sample_state_def sample_peer_def apple_p2p_chan_num_def CHAN_OPCLASS_149_def)
  moreover have "sync_wf (s_sync (sample_state m))" for m by (simp add: sample_state_def)
  ultimately show ?thesis using can_send_unicast_channel by blast
qed

section \<open>The encoding of a peer's sequence\<close>

text \<open>The scheduler reads a peer's channel sequence with the node's own encoding, while the
  peer's encoding is not stored. With the node's operating class encoding, a peer that
  announced a legacy sequence (flags, then channel) is never on the common channel unless its
  flags byte happens to be that channel's number.\<close>

theorem same_channel_ignores_peer_encoding:
  assumes "ch_enc (s_channel state) = APPLE_P2P_CHAN_ENC_OPCLASS"
    and "p_sequence peer = apple_p2p_chanseq_init_static (Chan flags chan)"
    and "ch_sequence (s_channel state) = apple_p2p_chanseq_init_static own"
  shows "apple_p2p_same_channel_as_peer state now peer \<longleftrightarrow> chan_val0 own \<noteq> 0 \<and> chan_val0 own = flags"
  using assms by (simp add: apple_p2p_same_channel_as_peer_def Let_def apple_p2p_chan_num_def)

theorem same_channel_ignores_peer_encoding_witness:
  "\<exists>m. \<not> apple_p2p_same_channel_as_peer (sample_state m) 0
     ((sample_peer 3)\<lparr>p_sequence := apple_p2p_chanseq_init_static (Chan 0 149)\<rparr>)"
proof -
  have "ch_enc (s_channel (sample_state m)) = APPLE_P2P_CHAN_ENC_OPCLASS"
    and "ch_sequence (s_channel (sample_state m)) = apple_p2p_chanseq_init_static CHAN_OPCLASS_149"
    and "p_sequence ((sample_peer 3)\<lparr>p_sequence := apple_p2p_chanseq_init_static (Chan 0 149)\<rparr>)
      = apple_p2p_chanseq_init_static (Chan 0 149)" for m
    by (simp_all add: sample_state_def)
  from same_channel_ignores_peer_encoding [OF this(1,3,2)] show ?thesis
    by (simp add: CHAN_OPCLASS_149_def)
qed

end
