(* ===== verification/Emit.thy ===== *)
theory Emit
  imports Prelude "HOL-Library.Monad_Syntax"
begin

text \<open>
  How response.c and tx.c fill arrays: stores at a pointer into an array and the idiom
  \<open>ptr += f(ptr, ...)\<close>. A store outside the array is behaviour C leaves undefined and has
  the value \<open>None\<close>. C strings are character arrays; a string function on an array without
  terminator is \<open>None\<close> as well.
\<close>

named_theorems emit_simps \<open>sequences of stores as one store\<close>

section \<open>Stores\<close>

text \<open>Storing bytes at an offset; the result is the number of bytes and the array.\<close>

definition put :: "u8 list \<Rightarrow> nat \<Rightarrow> u8 list \<Rightarrow> (nat \<times> u8 list) option" where
  "put mem off bs = (if off + length bs \<le> length mem then Some (length bs, overwrite mem off bs) else None)"

text \<open>The idiom \<open>ptr += f(ptr)\<close>: \<open>f mem ptr\<close> is the number of bytes and the new array.\<close>

definition emit :: "(u8 list \<Rightarrow> nat \<Rightarrow> (nat \<times> u8 list) option) \<Rightarrow> nat \<times> u8 list \<Rightarrow> (nat \<times> u8 list) option" where
  "emit f st = (case st of (ptr, mem) \<Rightarrow> map_option (\<lambda>(n, mem). (ptr + n, mem)) (f mem ptr))"

text \<open>The same with a function that changes a state as well.\<close>

definition emit_with :: "(u8 list \<Rightarrow> nat \<Rightarrow> (nat \<times> u8 list \<times> 's) option) \<Rightarrow> nat \<times> u8 list \<Rightarrow>
    ((nat \<times> u8 list) \<times> 's) option" where
  "emit_with f st = (case st of (ptr, mem) \<Rightarrow> map_option (\<lambda>(n, mem, s). ((ptr + n, mem), s)) (f mem ptr))"

text \<open>What a sequence of stores from \<open>start\<close> on amounts to.\<close>

definition emitted :: "u8 list \<Rightarrow> nat \<Rightarrow> u8 list \<Rightarrow> (nat \<times> u8 list) option" where
  "emitted mem start bs =
     (if start + length bs \<le> length mem then Some (start + length bs, overwrite mem start bs) else None)"

lemma emit_put:
  assumes "\<And>mem ptr. f mem ptr = put mem ptr bs"
  shows "Option.bind (emitted mem start as) (emit f) = emitted mem start (as @ bs)"
proof (cases "start + length as \<le> length mem")
  case True
  then have "start + (length as + length bs) \<le> length mem \<Longrightarrow>
      overwrite (overwrite mem start as) (start + length as) bs = overwrite mem start (as @ bs)"
    by (simp add: overwrite_append)
  with True show ?thesis
    by (simp add: emitted_def emit_def assms put_def add.assoc)
qed (simp add: emitted_def)

lemma emit_put_bind:
  assumes "\<And>mem ptr. f mem ptr = put mem ptr bs"
  shows "Option.bind (emitted mem start as) (\<lambda>st. Option.bind (emit f st) g) =
    Option.bind (emitted mem start (as @ bs)) g"
  by (simp add: emit_put [OF assms, symmetric] del: Option.bind_assoc) simp

lemma emit_with_put:
  assumes "\<And>mem ptr. f mem ptr = map_option (\<lambda>(n, mem). (n, mem, s')) (put mem ptr bs)"
  shows "Option.bind (emitted mem start as) (\<lambda>st. Option.bind (emit_with f st) (\<lambda>(st, s). g st s)) =
    Option.bind (emitted mem start (as @ bs)) (\<lambda>st. g st s')"
proof (cases "start + length as \<le> length mem")
  case True
  then have "start + (length as + length bs) \<le> length mem \<Longrightarrow>
      overwrite (overwrite mem start as) (start + length as) bs = overwrite mem start (as @ bs)"
    by (simp add: overwrite_append)
  with True show ?thesis
    by (simp add: emitted_def emit_with_def assms put_def add.assoc)
qed (simp add: emitted_def)

lemmas emit_puts = emit_put emit_put_bind

lemma emit_start: "start \<le> length mem \<Longrightarrow> Some (start, mem) = emitted mem start []"
  by (simp add: emitted_def overwrite_def)

lemma emit_first:
  "start \<le> length mem \<Longrightarrow> emit (\<lambda>mem ptr. put mem ptr bs) (start, mem) = emitted mem start bs"
  by (simp add: emitted_def emit_def put_def)

lemma emitted_as_put:
  "map_option (\<lambda>(ptr, mem). (ptr - start, mem)) (emitted mem start bs) = put mem start bs"
  by (simp add: emitted_def put_def)

lemma emitted_zero: "emitted mem 0 bs = put mem 0 bs"
  by (simp add: emitted_def put_def)

text \<open>The number of bytes of a sequence of stores that began at \<open>start\<close>.\<close>

definition from_start :: "nat \<Rightarrow> nat \<times> u8 list \<Rightarrow> nat \<times> u8 list" where
  "from_start start st = (fst st - start, snd st)"

lemma from_start_emitted:
  "Option.bind (emitted mem start bs) (\<lambda>st. Some (from_start start st)) = put mem start bs"
  by (simp add: emitted_def put_def from_start_def)

text \<open>A field of a structure stored late.\<close>

lemma emitted_patch:
  assumes "pos = start + length as" and "length bs' = length bs"
  shows "Option.bind (emitted mem start (as @ bs @ cs))
      (\<lambda>st. Option.bind (put (snd st) pos bs') (\<lambda>(n, mem). g (fst st) mem)) =
    Option.bind (emitted mem start (as @ bs' @ cs)) (\<lambda>st. g (fst st) (snd st))"
proof (cases "start + length (as @ bs @ cs) \<le> length mem")
  case True
  have "overwrite (overwrite mem start (as @ bs @ cs)) pos bs' = overwrite mem start (as @ bs' @ cs)"
    using True assms by (intro nth_equalityI) (auto simp: nth_overwrite nth_append)
  with True assms show ?thesis by (simp add: emitted_def put_def)
qed (use assms in \<open>simp add: emitted_def\<close>)

lemma put_SomeD: "put mem off bs = Some (n, mem') \<Longrightarrow>
    n = length bs \<and> mem' = overwrite mem off bs \<and> off + length bs \<le> length mem"
  by (auto simp: put_def split: if_splits)

lemma put_fits: "off + length bs \<le> length mem \<Longrightarrow> put mem off bs = Some (length bs, overwrite mem off bs)"
  by (simp add: put_def)

lemma put_slice: "put mem off bs = Some (n, mem') \<Longrightarrow> slice mem' off n = bs \<and> length mem' = length mem"
  by (auto dest!: put_SomeD simp: slice_overwrite_same)

lemma put_take: "put mem 0 bs = Some (n, mem') \<Longrightarrow> take n mem' = bs"
  by (auto dest!: put_SomeD simp: take_overwrite_prefix)

section \<open>Byte order\<close>

text \<open>\<open>htons\<close> and \<open>htobe16\<close> on a little-endian machine; \<open>htole16\<close>, \<open>htole32\<close> and
  \<open>le16toh\<close> are the identity.\<close>

definition htobe16 :: "u16 \<Rightarrow> u16" where
  "htobe16 w = push_bit 8 w OR drop_bit 8 w"

abbreviation htons :: "u16 \<Rightarrow> u16" where "htons \<equiv> htobe16"

lemma htobe16_bytes [simp]: "le_bytes 2 (htobe16 w) = be_bytes 2 w"
proof -
  have "ucast (htobe16 w) = (ucast (drop_bit 8 w) :: u8)" "ucast (drop_bit 8 (htobe16 w)) = (ucast w :: u8)"
    by (rule bit_word_eqI; auto simp: htobe16_def bit_simps dest: bit_imp_le_length)+
  then show ?thesis by (simp add: be_bytes_def numeral_2_eq_2)
qed

section \<open>C strings\<close>

text \<open>The string in a character array, and a string literal as an array.\<close>

definition c_string :: "u8 list \<Rightarrow> u8 list option" where
  "c_string arr = (if 0 \<in> set arr then Some (cstr arr) else None)"

definition lit :: "string \<Rightarrow> u8 list" where
  "lit s = bytes_of s @ [0]"

lemma c_string_terminated [simp]: "0 \<notin> set bs \<Longrightarrow> c_string (bs @ 0 # rest) = Some bs"
  by (simp add: c_string_def cstr_terminated)

lemma c_string_no_nul: "c_string arr = Some s \<Longrightarrow> 0 \<notin> set s"
  by (auto simp: c_string_def cstr_no_nul split: if_splits)

lemma c_string_length: "c_string arr = Some s \<Longrightarrow> length s < length arr"
proof -
  assume a: "c_string arr = Some s"
  then have "0 \<in> set arr" and s: "s = takeWhile (\<lambda>b. b \<noteq> 0) arr"
    by (auto simp: c_string_def cstr_def split: if_splits)
  then have "takeWhile (\<lambda>b. b \<noteq> 0) arr \<noteq> arr" by (metis set_takeWhileD)
  moreover have "length (takeWhile (\<lambda>b. b \<noteq> 0) arr) \<le> length arr" by (rule length_takeWhile_le)
  ultimately show "length s < length arr"
    using s by (metis le_neq_implies_less length_takeWhile_le takeWhile_eq_take take_all_iff)
qed

text \<open>\<open>%02x\<close>.\<close>

definition hex_digit :: "u8 \<Rightarrow> u8" where
  "hex_digit d = (if d < 10 then d + 48 else d + 87)"

definition fmt_02x :: "u8 \<Rightarrow> u8 list" where
  "fmt_02x b = [hex_digit (drop_bit 4 b), hex_digit (b AND 0x0f)]"

lemma length_fmt_02x [simp]: "length (fmt_02x b) = 2"
  by (simp add: fmt_02x_def)

lemma hex_digit_not_nul: "d < 16 \<Longrightarrow> hex_digit d \<noteq> 0"
proof -
  assume "d < 16"
  then have "unat d < 16" by (simp add: word_less_nat_alt)
  then show ?thesis
    by (auto simp: hex_digit_def word_less_nat_alt unat_word_ariths simp flip: unat_0_iff
        dest!: arg_cong [where f = unat])
qed

lemma fmt_02x_not_nul: "0 \<notin> set (fmt_02x b)"
proof -
  have "drop_bit 4 b < 16"
    using unat_bound [of b] by (simp add: word_less_nat_alt unat_div drop_bit_eq_div)
  moreover have "b AND 0x0f < 16"
    using word_and_le2 [of b "0x0f"] word_and_le1 [of b "0x0f"] by (simp add: word_le_nat_alt word_less_nat_alt)
  ultimately show ?thesis
    using hex_digit_not_nul by (auto simp: fmt_02x_def)
qed

end
