(* ===== verification/Packed.thy ===== *)
theory Packed
  imports Frame Emit
begin

text \<open>
  The packed structures of frame.h, ieee80211.h and radiotap.h, as records with the fields of
  the C structures in their order, and the bytes each occupies in memory. The fields of the
  frame structures hold what the code stores in them, that is, values in the byte order of
  the wire: \<open>htole16\<close> and \<open>htole32\<close> are the identity on the target, and \<open>htobe16\<close> swaps.
\<close>

named_theorems packed_defs \<open>the layouts\<close>

section \<open>ieee80211.h\<close>

record ieee80211_hdr =
  h_frame_control :: u16
  h_duration_id :: u16
  h_addr1 :: ether_addr
  h_addr2 :: ether_addr
  h_addr3 :: ether_addr
  h_seq_ctrl :: u16

definition ieee80211_hdr_bytes :: "ieee80211_hdr \<Rightarrow> u8 list" where [packed_defs]:
  "ieee80211_hdr_bytes h = le_bytes 2 (h_frame_control h) @ le_bytes 2 (h_duration_id h) @
     octets (h_addr1 h) @ octets (h_addr2 h) @ octets (h_addr3 h) @ le_bytes 2 (h_seq_ctrl h)"

record llc_hdr =
  llc_dsap :: u8
  llc_ssap :: u8
  llc_control :: u8
  llc_oui :: "u8 list"
  llc_pid :: u16

definition llc_hdr_bytes :: "llc_hdr \<Rightarrow> u8 list" where [packed_defs]:
  "llc_hdr_bytes h = [llc_dsap h, llc_ssap h, llc_control h] @ llc_oui h @ le_bytes 2 (llc_pid h)"

section \<open>radiotap.h\<close>

record radiotap_header =
  rh_version :: u8
  rh_pad :: u8
  rh_len :: u16
  rh_present :: u32

definition radiotap_header_bytes :: "radiotap_header \<Rightarrow> u8 list" where [packed_defs]:
  "radiotap_header_bytes h = [rh_version h, rh_pad h] @ le_bytes 2 (rh_len h) @ le_bytes 4 (rh_present h)"

section \<open>frame.h\<close>

record apple_p2p_data =
  d_head :: u16
  d_seq :: u16
  d_pad :: u16
  d_ethertype :: u16

definition apple_p2p_data_bytes :: "apple_p2p_data \<Rightarrow> u8 list" where [packed_defs]:
  "apple_p2p_data_bytes d =
     le_bytes 2 (d_head d) @ le_bytes 2 (d_seq d) @ le_bytes 2 (d_pad d) @ le_bytes 2 (d_ethertype d)"

record apple_p2p_action =
  a_category :: u8
  a_oui :: "u8 list"
  a_type :: u8
  a_version :: u8
  a_subtype :: u8
  a_reserved :: u8
  a_phy_tx :: u32
  a_target_tx :: u32

definition apple_p2p_action_bytes :: "apple_p2p_action \<Rightarrow> u8 list" where [packed_defs]:
  "apple_p2p_action_bytes a = [a_category a] @ a_oui a @
     [a_type a, a_version a, a_subtype a, a_reserved a] @ le_bytes 4 (a_phy_tx a) @ le_bytes 4 (a_target_tx a)"

text \<open>\<open>struct tl\<close>, with which every record begins.\<close>

definition tl_bytes :: "u8 \<Rightarrow> u16 \<Rightarrow> u8 list" where [packed_defs]:
  "tl_bytes t l = t # le_bytes 2 l"

record apple_p2p_chanseq =
  c_count :: u8
  c_encoding :: u8
  c_duplicate_count :: u8
  c_step_count :: u8
  c_fill_channel :: u16

definition apple_p2p_chanseq_bytes :: "apple_p2p_chanseq \<Rightarrow> u8 list" where [packed_defs]:
  "apple_p2p_chanseq_bytes c =
     [c_count c, c_encoding c, c_duplicate_count c, c_step_count c] @ le_bytes 2 (c_fill_channel c)"

record sync_params_tlv =
  y_type :: u8
  y_length :: u16
  y_next_aw_channel :: u8
  y_tx_down_counter :: u16
  y_master_channel :: u8
  y_guard_time :: u8
  y_aw_period :: u16
  y_af_period :: u16
  y_flags :: u16
  y_aw_ext_length :: u16
  y_aw_com_length :: u16
  y_remaining_aw_length :: u16
  y_min_ext :: u8
  y_max_ext_multicast :: u8
  y_max_ext_unicast :: u8
  y_max_ext_af :: u8
  y_master_addr :: ether_addr
  y_presence_mode :: u8
  y_reserved :: u8
  y_next_aw_seq :: u16
  y_ap_alignment :: u16

definition sync_params_bytes :: "sync_params_tlv \<Rightarrow> u8 list" where [packed_defs]:
  "sync_params_bytes y = tl_bytes (y_type y) (y_length y) @ [y_next_aw_channel y] @
     le_bytes 2 (y_tx_down_counter y) @ [y_master_channel y, y_guard_time y] @
     le_bytes 2 (y_aw_period y) @ le_bytes 2 (y_af_period y) @ le_bytes 2 (y_flags y) @
     le_bytes 2 (y_aw_ext_length y) @ le_bytes 2 (y_aw_com_length y) @
     le_bytes 2 (y_remaining_aw_length y) @
     [y_min_ext y, y_max_ext_multicast y, y_max_ext_unicast y, y_max_ext_af y] @
     octets (y_master_addr y) @ [y_presence_mode y, y_reserved y] @
     le_bytes 2 (y_next_aw_seq y) @ le_bytes 2 (y_ap_alignment y)"

record election_params_tlv =
  e1_type :: u8
  e1_length :: u16
  e1_flags :: u8
  e1_id :: u16
  e1_distancetop :: u8
  e1_unknown :: u8
  e1_top_master_addr :: ether_addr
  e1_top_master_metric :: u32
  e1_self_metric :: u32
  e1_pad :: "u8 \<times> u8"

definition election_params_bytes :: "election_params_tlv \<Rightarrow> u8 list" where [packed_defs]:
  "election_params_bytes e = tl_bytes (e1_type e) (e1_length e) @ [e1_flags e] @ le_bytes 2 (e1_id e) @
     [e1_distancetop e, e1_unknown e] @ octets (e1_top_master_addr e) @
     le_bytes 4 (e1_top_master_metric e) @ le_bytes 4 (e1_self_metric e) @
     [fst (e1_pad e), snd (e1_pad e)]"

record election_params_v2_tlv =
  e2_type :: u8
  e2_length :: u16
  e2_master_addr :: ether_addr
  e2_sync_addr :: ether_addr
  e2_master_counter :: u32
  e2_distance_to_master :: u32
  e2_master_metric :: u32
  e2_self_metric :: u32
  e2_unknown :: u32
  e2_reserved :: u32
  e2_self_counter :: u32

definition election_params_v2_bytes :: "election_params_v2_tlv \<Rightarrow> u8 list" where [packed_defs]:
  "election_params_v2_bytes e = tl_bytes (e2_type e) (e2_length e) @
     octets (e2_master_addr e) @ octets (e2_sync_addr e) @
     le_bytes 4 (e2_master_counter e) @ le_bytes 4 (e2_distance_to_master e) @
     le_bytes 4 (e2_master_metric e) @ le_bytes 4 (e2_self_metric e) @
     le_bytes 4 (e2_unknown e) @ le_bytes 4 (e2_reserved e) @ le_bytes 4 (e2_self_counter e)"

record service_params_tlv =
  sp_type :: u8
  sp_length :: u16
  sp_unknown :: "u8 \<times> u8 \<times> u8"
  sp_sui :: u16
  sp_bitmask :: u32

definition service_params_bytes :: "service_params_tlv \<Rightarrow> u8 list" where [packed_defs]:
  "service_params_bytes s = tl_bytes (sp_type s) (sp_length s) @
     (case sp_unknown s of (a, b, c) \<Rightarrow> [a, b, c]) @ le_bytes 2 (sp_sui s) @ le_bytes 4 (sp_bitmask s)"

record ht_capabilities_tlv =
  ht_type :: u8
  ht_length :: u16
  ht_unknown :: u16
  ht_ht_capabilities :: u16
  ht_ampdu_params :: u8
  ht_rx_mcs :: u8
  ht_unknown2 :: u16

definition ht_capabilities_bytes :: "ht_capabilities_tlv \<Rightarrow> u8 list" where [packed_defs]:
  "ht_capabilities_bytes h = tl_bytes (ht_type h) (ht_length h) @ le_bytes 2 (ht_unknown h) @
     le_bytes 2 (ht_ht_capabilities h) @ [ht_ampdu_params h, ht_rx_mcs h] @ le_bytes 2 (ht_unknown2 h)"

record data_path_state_tlv =
  dp_type :: u8
  dp_length :: u16
  dp_flags :: u16
  dp_country_code :: "u8 \<times> u8 \<times> u8"
  dp_social_channels :: u16
  dp_apple_p2p_addr :: ether_addr
  dp_ext_flags :: u16

definition data_path_state_bytes :: "data_path_state_tlv \<Rightarrow> u8 list" where [packed_defs]:
  "data_path_state_bytes d = tl_bytes (dp_type d) (dp_length d) @ le_bytes 2 (dp_flags d) @
     (case dp_country_code d of (a, b, c) \<Rightarrow> [a, b, c]) @ le_bytes 2 (dp_social_channels d) @
     octets (dp_apple_p2p_addr d) @ le_bytes 2 (dp_ext_flags d)"

record version_tlv =
  v_type :: u8
  v_length :: u16
  v_version :: u8
  v_devclass :: u8

definition version_bytes :: "version_tlv \<Rightarrow> u8 list" where [packed_defs]:
  "version_bytes v = tl_bytes (v_type v) (v_length v) @ [v_version v, v_devclass v]"

section \<open>Sizes\<close>

text \<open>The values of \<open>sizeof\<close>; the arpa structure ends in an array of one character.\<close>

abbreviation sizeof_tl :: nat where "sizeof_tl \<equiv> 3"
abbreviation sizeof_chanseq :: nat where "sizeof_chanseq \<equiv> 6"
abbreviation sizeof_sync_params_tlv :: nat where "sizeof_sync_params_tlv \<equiv> 36"
abbreviation sizeof_election_params_tlv :: nat where "sizeof_election_params_tlv \<equiv> 24"
abbreviation sizeof_election_params_v2_tlv :: nat where "sizeof_election_params_v2_tlv \<equiv> 43"
abbreviation sizeof_service_params_tlv :: nat where "sizeof_service_params_tlv \<equiv> 12"
abbreviation sizeof_ht_capabilities_tlv :: nat where "sizeof_ht_capabilities_tlv \<equiv> 11"
abbreviation sizeof_data_path_state_tlv :: nat where "sizeof_data_path_state_tlv \<equiv> 18"
abbreviation sizeof_arpa_tlv :: nat where "sizeof_arpa_tlv \<equiv> 6"
abbreviation sizeof_version_tlv :: nat where "sizeof_version_tlv \<equiv> 5"

lemma packed_sizes [simp]:
  "length (ieee80211_hdr_bytes h) = 24"
  "length (radiotap_header_bytes rh) = 8"
  "length (apple_p2p_data_bytes d) = 8"
  "length (tl_bytes t l) = sizeof_tl"
  "length (apple_p2p_chanseq_bytes c) = sizeof_chanseq"
  "length (sync_params_bytes y) = sizeof_sync_params_tlv"
  "length (election_params_bytes e1) = sizeof_election_params_tlv"
  "length (election_params_v2_bytes e2) = sizeof_election_params_v2_tlv"
  "length (service_params_bytes sp) = sizeof_service_params_tlv"
  "length (ht_capabilities_bytes ht) = sizeof_ht_capabilities_tlv"
  "length (data_path_state_bytes dp) = sizeof_data_path_state_tlv"
  "length (version_bytes v) = sizeof_version_tlv"
  by (simp_all add: packed_defs split: prod.split)

end
