(* ===== verification/Response.thy ===== *)
theory Response
  imports Emit
begin

text \<open>
  response.c and response.h: the DNS service discovery records (PTR, SRV, TXT) for the
  AirPlay and RAOP services that a master indication frame carries, in the build the
  repository uses (\<open>p2pcast\<close> 1, \<open>TEST\<close> undefined). Each function writes its record into an
  array of the caller; the domain name goes through a local array of 64 characters.
\<close>

section \<open>Constants and the texts of the services\<close>

abbreviation SERVICE_RESPONSE_TYPE_PTR :: u8 where "SERVICE_RESPONSE_TYPE_PTR \<equiv> 12"
abbreviation SERVICE_RESPONSE_TYPE_SRV :: u8 where "SERVICE_RESPONSE_TYPE_SRV \<equiv> 33"
abbreviation SERVICE_RESPONSE_TYPE_TXT :: u8 where "SERVICE_RESPONSE_TYPE_TXT \<equiv> 16"

abbreviation APPLE_P2P_DNS_SHORT_NULL :: u16 where "APPLE_P2P_DNS_SHORT_NULL \<equiv> 0xc000"
abbreviation APPLE_P2P_DNS_SHORT_AIRPLAY_TCP :: u16 where "APPLE_P2P_DNS_SHORT_AIRPLAY_TCP \<equiv> 0xc001"
abbreviation APPLE_P2P_DNS_SHORT_RAOP_TCP :: u16 where "APPLE_P2P_DNS_SHORT_RAOP_TCP \<equiv> 0xc004"
abbreviation APPLE_P2P_DNS_SHORT_LOCAL :: u16 where "APPLE_P2P_DNS_SHORT_LOCAL \<equiv> 0xc00c"

definition airplay_txt :: "u8 list list" where
  "airplay_txt = map lit
     [''srcvers=220.68'',
      ''deviceid=94:a4:08:b5:31:56'',
      ''features=0x1E,0x5A7FEFE4'',
      ''model=AppleTV3,2'',
      ''flags=0x4'',
      ''pk=3b6a27bcceb6a42d62a3a8d02a6f0d73653215771de243a63ac048a18b59da29'',
      ''pi=b08f5a79-db29-4384-b456-022e2db43a09'',
      ''vv=2'']"

abbreviation airplay_txt_count :: nat where "airplay_txt_count \<equiv> 8"

definition raop_txt :: "u8 list list" where
  "raop_txt = map lit
     [''txtvers=1'', ''ch=2'', ''cn=0,1,3'', ''et=0,3,5'', ''sv=false'', ''da=true'',
      ''sr=44100'', ''ss=16'', ''pw=true'', ''vn=3'', ''tp=UDP'', ''md=0,1,2'',
      ''vs=220.68'', ''sm=false'', ''ek=1'', ''sf=0x4'', ''am=Shairport,1'',
      ''pk=3b6a27bcceb6a42d62a3a8d02a6f0d73653215771de243a63ac048a18b59da29'']"

abbreviation raop_txt_count :: nat where "raop_txt_count \<equiv> 18"

section \<open>Appending\<close>

definition append_data :: "u8 list \<Rightarrow> nat \<Rightarrow> u8 list \<Rightarrow> nat \<Rightarrow> (nat \<times> u8 list) option" where
  "append_data buf offset data len = (if len \<le> length data then put buf offset (take len data) else None)"

definition append_8bit :: "u8 list \<Rightarrow> nat \<Rightarrow> u8 \<Rightarrow> (nat \<times> u8 list) option" where
  "append_8bit buf offset val = put buf offset [val]"

definition append_16bit :: "u8 list \<Rightarrow> nat \<Rightarrow> u16 \<Rightarrow> (nat \<times> u8 list) option" where
  "append_16bit buf offset val = put buf offset (le_bytes 2 val)"

definition append_32bit :: "u8 list \<Rightarrow> nat \<Rightarrow> u32 \<Rightarrow> (nat \<times> u8 list) option" where
  "append_32bit buf offset val = put buf offset (le_bytes 4 val)"

section \<open>The records\<close>

record service_response =
  sr_hlen :: u16
  sr_type :: u8
  sr_payload_len :: u32
  sr_priority :: u16
  sr_weight :: u16
  sr_Port :: u16

definition service_response_zero :: service_response where
  "service_response_zero = \<lparr>sr_hlen = 0, sr_type = 0, sr_payload_len = 0, sr_priority = 0,
     sr_weight = 0, sr_Port = 0\<rparr>"

text \<open>The local array \<open>domain\<close>, as the string in it; \<open>None\<close> when the string does not fit.\<close>

abbreviation DOMAIN_SIZE :: nat where "DOMAIN_SIZE \<equiv> 64"

definition fill_domain :: "u8 list \<Rightarrow> u8 list option \<Rightarrow> u8 list option" where
  "fill_domain name mac_str =
     do {
       name \<leftarrow> c_string name;
       domain \<leftarrow> (case mac_str of
           Some mac_str \<Rightarrow> do { mac \<leftarrow> c_string mac_str; Some (mac @ bytes_of ''@'' @ name) }
         | None \<Rightarrow> Some name);
       (if length domain + 1 \<le> DOMAIN_SIZE then Some domain else None)
     }"

definition getPtrData :: "u8 list \<Rightarrow> u8 list \<Rightarrow> u16 \<Rightarrow> u8 list option \<Rightarrow> (nat \<times> u8 list) option" where
  "getPtrData out name short_name mac_str =
     do {
       domain \<leftarrow> fill_domain name mac_str;
       let rsp = service_response_zero\<lparr>sr_type := SERVICE_RESPONSE_TYPE_PTR, sr_hlen := 2 + 1,
                   sr_payload_len := of_nat (length domain + 3)\<rparr>;
       st \<leftarrow> emit (\<lambda>out outLen. append_16bit out outLen (sr_hlen rsp)) (0, out);
       st \<leftarrow> emit (\<lambda>out outLen. append_16bit out outLen (htons short_name)) st;
       st \<leftarrow> emit (\<lambda>out outLen. append_8bit out outLen (sr_type rsp)) st;
       st \<leftarrow> emit (\<lambda>out outLen. append_32bit out outLen (sr_payload_len rsp)) st;
       st \<leftarrow> emit (\<lambda>out outLen. append_8bit out outLen (of_nat (length domain))) st;
       st \<leftarrow> emit (\<lambda>out outLen. append_data out outLen domain (length domain)) st;
       emit (\<lambda>out outLen. append_16bit out outLen (htons APPLE_P2P_DNS_SHORT_NULL)) st
     }"

definition getSrvData ::
  "u8 list \<Rightarrow> u8 list \<Rightarrow> u16 \<Rightarrow> u8 list option \<Rightarrow> u16 \<Rightarrow> (nat \<times> u8 list) option" where
  "getSrvData out name short_name mac_str port =
     do {
       domain \<leftarrow> fill_domain name mac_str;
       name \<leftarrow> c_string name;
       let rsp = service_response_zero\<lparr>sr_type := SERVICE_RESPONSE_TYPE_SRV, sr_priority := 0,
                   sr_weight := 0, sr_Port := htons port, sr_hlen := of_nat (length domain + 3 + 1),
                   sr_payload_len := of_nat (6 + length name + 3)\<rparr>;
       st \<leftarrow> emit (\<lambda>out outLen. append_16bit out outLen (sr_hlen rsp)) (0, out);
       st \<leftarrow> emit (\<lambda>out outLen. append_8bit out outLen (of_nat (length domain))) st;
       st \<leftarrow> emit (\<lambda>out outLen. append_data out outLen domain (length domain)) st;
       st \<leftarrow> emit (\<lambda>out outLen. append_16bit out outLen (htons short_name)) st;
       st \<leftarrow> emit (\<lambda>out outLen. append_8bit out outLen (sr_type rsp)) st;
       st \<leftarrow> emit (\<lambda>out outLen. append_32bit out outLen (sr_payload_len rsp)) st;
       st \<leftarrow> emit (\<lambda>out outLen. append_16bit out outLen (sr_priority rsp)) st;
       st \<leftarrow> emit (\<lambda>out outLen. append_16bit out outLen (sr_weight rsp)) st;
       st \<leftarrow> emit (\<lambda>out outLen. append_16bit out outLen (sr_Port rsp)) st;
       st \<leftarrow> emit (\<lambda>out outLen. append_8bit out outLen (of_nat (length name))) st;
       st \<leftarrow> emit (\<lambda>out outLen. append_data out outLen name (length name)) st;
       emit (\<lambda>out outLen. append_16bit out outLen (htons APPLE_P2P_DNS_SHORT_LOCAL)) st
     }"

text \<open>The two loops over the texts.\<close>

fun txt_payload_len :: "u8 list list \<Rightarrow> u32 \<Rightarrow> u32 option" where
  "txt_payload_len [] len = Some len"
| "txt_payload_len (t # ts) len =
     do { s \<leftarrow> c_string t; txt_payload_len ts (len + of_nat (length s + 1)) }"

fun txt_append :: "u8 list list \<Rightarrow> nat \<times> u8 list \<Rightarrow> (nat \<times> u8 list) option" where
  "txt_append [] st = Some st"
| "txt_append (t # ts) st =
     do {
       s \<leftarrow> c_string t;
       st \<leftarrow> emit (\<lambda>out outLen. append_8bit out outLen (of_nat (length s))) st;
       st \<leftarrow> emit (\<lambda>out outLen. append_data out outLen t (length s)) st;
       txt_append ts st
     }"

definition getTxtData ::
  "u8 list \<Rightarrow> u8 list \<Rightarrow> u16 \<Rightarrow> u8 list option \<Rightarrow> u8 list list \<Rightarrow> nat \<Rightarrow> (nat \<times> u8 list) option" where
  "getTxtData out name short_name mac_str txt txt_count =
     do {
       domain \<leftarrow> fill_domain name mac_str;
       txt \<leftarrow> (if txt_count \<le> length txt then Some (take txt_count txt) else None);
       payload_len \<leftarrow> txt_payload_len txt 0;
       let rsp = service_response_zero\<lparr>sr_type := SERVICE_RESPONSE_TYPE_TXT,
                   sr_hlen := of_nat (length domain + 3 + 1), sr_payload_len := payload_len\<rparr>;
       st \<leftarrow> emit (\<lambda>out outLen. append_16bit out outLen (sr_hlen rsp)) (0, out);
       st \<leftarrow> emit (\<lambda>out outLen. append_8bit out outLen (of_nat (length domain))) st;
       st \<leftarrow> emit (\<lambda>out outLen. append_data out outLen domain (length domain)) st;
       st \<leftarrow> emit (\<lambda>out outLen. append_16bit out outLen (htons short_name)) st;
       st \<leftarrow> emit (\<lambda>out outLen. append_8bit out outLen (sr_type rsp)) st;
       st \<leftarrow> emit (\<lambda>out outLen. append_32bit out outLen (sr_payload_len rsp)) st;
       txt_append txt st
     }"

section \<open>What the functions write\<close>

lemmas append_defs = append_8bit_def append_16bit_def append_32bit_def append_data_def

lemma append_puts:
  "append_8bit out n a = put out n [a]" "append_16bit out n b = put out n (le_bytes 2 b)"
  "append_32bit out n c = put out n (le_bytes 4 c)"
  "l \<le> length ds \<Longrightarrow> append_data out n ds l = put out n (take l ds)"
  by (simp_all add: append_defs)

lemmas emit_appends [emit_simps] = append_puts [THEN emit_puts(1)] append_puts [THEN emit_puts(2)]

lemma emit_append_first [emit_simps]:
  "emit (\<lambda>out n. append_16bit out n b) (0, out) = emitted out 0 (le_bytes 2 b)"
  by (simp add: append_16bit_def emit_first)

text \<open>A length-prefixed text and the frame of a record.\<close>

definition label :: "u8 list \<Rightarrow> u8 list" where
  "label s = of_nat (length s) # s"

definition service_record :: "u8 \<Rightarrow> u8 list \<Rightarrow> u8 list \<Rightarrow> u8 list" where
  "service_record t hdr payload =
     le_bytes 2 (of_nat (length hdr + 1) :: u16) @ hdr @ [t] @
     le_bytes 4 (of_nat (length payload) :: u32) @ payload"

lemma length_service_record [simp]:
  "length (service_record t hdr payload) = length hdr + length payload + 7"
  by (simp add: service_record_def)

lemma length_label [simp]: "length (label s) = length s + 1"
  by (simp add: label_def)

definition ptr_record :: "u8 list \<Rightarrow> u16 \<Rightarrow> u8 list" where
  "ptr_record domain short_name =
     service_record SERVICE_RESPONSE_TYPE_PTR (be_bytes 2 short_name)
       (label domain @ be_bytes 2 APPLE_P2P_DNS_SHORT_NULL)"

definition srv_record :: "u8 list \<Rightarrow> u8 list \<Rightarrow> u16 \<Rightarrow> u16 \<Rightarrow> u8 list" where
  "srv_record domain host short_name port =
     service_record SERVICE_RESPONSE_TYPE_SRV (label domain @ be_bytes 2 short_name)
       (le_bytes 2 (0 :: u16) @ le_bytes 2 (0 :: u16) @ be_bytes 2 port @ label host @ be_bytes 2 APPLE_P2P_DNS_SHORT_LOCAL)"

definition txt_record :: "u8 list \<Rightarrow> u16 \<Rightarrow> u8 list list \<Rightarrow> u8 list" where
  "txt_record domain short_name texts =
     service_record SERVICE_RESPONSE_TYPE_TXT (label domain @ be_bytes 2 short_name)
       (concat (map label texts))"

fun c_strings :: "u8 list list \<Rightarrow> u8 list list option" where
  "c_strings [] = Some []"
| "c_strings (t # ts) = do { s \<leftarrow> c_string t; ss \<leftarrow> c_strings ts; Some (s # ss) }"

lemma take_cstr: "c_string t = Some s \<Longrightarrow> take (length s) t = s \<and> length s \<le> length t"
  by (auto simp: c_string_def cstr_def takeWhile_eq_take [symmetric] length_takeWhile_le split: if_splits)

lemma txt_payload_len_eq:
  "txt_payload_len ts len =
     map_option (\<lambda>ss. len + of_nat (length (concat (map label ss)))) (c_strings ts)"
  by (induction ts arbitrary: len) (auto split: bind_splits simp: algebra_simps)

lemma txt_append_eq:
  "Option.bind (emitted out s as) (txt_append ts) =
     Option.bind (c_strings ts) (\<lambda>ss. emitted out s (as @ concat (map label ss)))"
proof (induction ts arbitrary: as)
  case Nil
  show ?case by (simp cong: Option.bind_cong)
next
  case (Cons t ts)
  show ?case
  proof (cases "c_string t")
    case None
    then show ?thesis by (simp cong: Option.bind_cong)
  next
    case (Some str)
    then have *: "take (length str) t = str" "length str \<le> length t" using take_cstr by auto
    have "Option.bind (emitted out s as) (\<lambda>st. txt_append (t # ts) st) =
        Option.bind (emitted out s (as @ label str)) (txt_append ts)"
      using Some * by (simp add: emit_simps label_def)
    then show ?thesis using Some by (simp add: Cons.IH)
  qed
qed

lemma getPtrData_eq:
  "getPtrData out name short_name mac_str =
     do { domain \<leftarrow> fill_domain name mac_str; put out 0 (ptr_record domain short_name) }"
  by (simp add: getPtrData_def Let_def emit_simps emitted_zero [symmetric] ptr_record_def service_record_def
      label_def service_response_zero_def add.commute cong: Option.bind_cong)

lemma fill_domain_name: "fill_domain name mac = Some d \<Longrightarrow> \<exists>n. c_string name = Some n"
  by (auto simp: fill_domain_def split: bind_splits)

lemma getSrvData_eq:
  "getSrvData out name short_name mac_str port =
     do { domain \<leftarrow> fill_domain name mac_str; host \<leftarrow> c_string name;
          put out 0 (srv_record domain host short_name port) }"
  by (simp add: getSrvData_def Let_def emit_simps emitted_zero [symmetric] srv_record_def service_record_def
      label_def service_response_zero_def add.commute cong: Option.bind_cong)

lemma getTxtData_eq:
  assumes "txt_count \<le> length txt"
  shows "getTxtData out name short_name mac_str txt txt_count =
     do { domain \<leftarrow> fill_domain name mac_str; texts \<leftarrow> c_strings (take txt_count txt);
          put out 0 (txt_record domain short_name texts) }"
proof -
  have *: "(\<lambda>st. txt_append ts st) = txt_append ts" for ts by (rule refl)
  show ?thesis
    using assms
    by (simp add: getTxtData_def Let_def emit_simps emitted_zero [symmetric] txt_record_def service_record_def
      txt_payload_len_eq bind_map_option txt_append_eq
      label_def service_response_zero_def add.commute cong: Option.bind_cong)
qed

lemma fill_domain_airplay:
  "c_string name = Some n \<Longrightarrow>
     fill_domain name None = (if length n \<le> 63 then Some n else None)"
  by (auto simp: fill_domain_def)

lemma fill_domain_raop:
  assumes "c_string name = Some n" and "c_string mac = Some m" and "length m = 12"
  shows "fill_domain name (Some mac) = (if length n \<le> 50 then Some (m @ bytes_of ''@'' @ n) else None)"
  using assms by (auto simp: fill_domain_def bytes_of_def)

lemma c_strings_lit:
  "\<forall>s\<in>set ss. 0 \<notin> set (bytes_of s) \<Longrightarrow> c_strings (map lit ss) = Some (map bytes_of ss)"
  by (induction ss) (simp_all add: lit_def)

section \<open>Reading the records back\<close>

text \<open>A reader that follows the two length fields: type, header without its type, payload, rest.\<close>

definition read_service :: "u8 list \<Rightarrow> (u8 \<times> u8 list \<times> u8 list \<times> u8 list) option" where
  "read_service bs =
     (let h = unat (le_word (take 2 bs) :: u16); n = unat (le_word (slice bs (h + 2) 4) :: u32) in
      if length bs < 2 \<or> h = 0 \<or> length bs < h + 6 + n then None
      else Some (bs ! (h + 1), slice bs 2 (h - 1), slice bs (h + 6) n, drop (h + 6 + n) bs))"

lemma read_service_record:
  assumes "length hdr + 1 < 2 ^ 16" and "length payload < 2 ^ 32"
  shows "read_service (service_record t hdr payload @ rest) = Some (t, hdr, payload, rest)"
proof -
  let ?l = "le_bytes 2 (of_nat (length hdr + 1) :: u16)" and ?n = "le_bytes 4 (of_nat (length payload) :: u32)"
  define bs where "bs = service_record t hdr payload @ rest"
  have eq: "bs = ?l @ (hdr @ [t]) @ ?n @ payload @ rest"
    by (simp add: bs_def service_record_def)
  have h: "unat (le_word (take 2 bs) :: u16) = length hdr + 1"
    using assms(1) by (simp add: eq unat_word_of_nat del: of_nat_Suc of_nat_add)
  have "slice bs (length hdr + 1 + 2) 4 = ?n"
    by (simp add: eq slice_def)
  then have n: "unat (le_word (slice bs (length hdr + 1 + 2) 4) :: u32) = length payload"
    using assms(2) by (simp add: unat_word_of_nat)
  have "bs ! (length hdr + 1 + 1) = t" "slice bs 2 (length hdr) = hdr"
      "slice bs (length hdr + 1 + 6) (length payload) = payload"
    by (simp_all add: eq slice_def nth_append)
  moreover have "drop (length (?l @ (hdr @ [t]) @ ?n @ payload)) bs = rest"
    unfolding eq append_assoc [symmetric] by (simp del: append_assoc)
  then have "drop (length hdr + 1 + 6 + length payload) bs = rest"
    by (simp add: add.commute add.left_commute)
  moreover have "length bs = 2 + (length hdr + 1) + 4 + length payload + length rest"
    by (simp add: eq)
  ultimately show ?thesis
    unfolding bs_def [symmetric] read_service_def h Let_def n by simp
qed

lemma fill_domain_bounds:
  "fill_domain name mac = Some d \<Longrightarrow> length d \<le> 63 \<and> (\<forall>n. c_string name = Some n \<longrightarrow> length n \<le> 63)"
  by (auto simp: fill_domain_def split: bind_splits option.splits if_splits)

lemma put_read_service:
  assumes "put out 0 (service_record t hdr payload) = Some (n, out')"
    and "length out < 2 ^ 32" and "length hdr < 100"
  shows "read_service (take n out') = Some (t, hdr, payload, [])"
proof -
  have "take n out' = service_record t hdr payload"
    using put_take [OF assms(1)] .
  moreover have "length payload < 2 ^ 32"
    using put_SomeD [OF assms(1)] assms(2) by simp
  ultimately show ?thesis
    using read_service_record [of hdr payload t "[]"] assms(3) by simp
qed

text \<open>C36: A reader that follows the length fields recovers what the three functions wrote: the
  record type, the header (domain name and service, or for PTR the service alone), and a
  payload of length-prefixed names, the port, or the texts, with nothing left over.\<close>

theorem service_records_roundtrip:
  assumes "length out < 2 ^ 32" and "txt_count \<le> length txt"
  shows "(\<forall>n out'. getPtrData out name short_name mac = Some (n, out') \<longrightarrow>
      (\<exists>domain. fill_domain name mac = Some domain \<and> read_service (take n out') =
        Some (SERVICE_RESPONSE_TYPE_PTR, be_bytes 2 short_name,
          label domain @ be_bytes 2 APPLE_P2P_DNS_SHORT_NULL, []))) \<and>
    (\<forall>n out'. getSrvData out name short_name mac port = Some (n, out') \<longrightarrow>
      (\<exists>domain host. fill_domain name mac = Some domain \<and> c_string name = Some host \<and>
        read_service (take n out') = Some (SERVICE_RESPONSE_TYPE_SRV, label domain @ be_bytes 2 short_name,
          replicate 4 0 @ be_bytes 2 port @ label host @ be_bytes 2 APPLE_P2P_DNS_SHORT_LOCAL, []))) \<and>
    (\<forall>n out'. getTxtData out name short_name mac txt txt_count = Some (n, out') \<longrightarrow>
      (\<exists>domain texts. fill_domain name mac = Some domain \<and> c_strings (take txt_count txt) = Some texts \<and>
        read_service (take n out') = Some (SERVICE_RESPONSE_TYPE_TXT, label domain @ be_bytes 2 short_name,
          concat (map label texts), [])))"
proof -
  have z: "replicate 2 0 @ replicate 2 0 = (replicate 4 0 :: u8 list)"
    by (simp add: numeral_eq_Suc)
  show ?thesis
    using assms fill_domain_bounds [of name mac]
    by (auto simp: getPtrData_eq getSrvData_eq getTxtData_eq ptr_record_def srv_record_def txt_record_def
        z dest!: put_read_service split: bind_splits)
qed

theorem service_records_roundtrip_witness:
  "\<exists>n out'. getTxtData (replicate 30 0) (lit ''ab'') 0xc001 None [lit ''x=1'', lit ''y''] 2 = Some (n, out') \<and>
     read_service (take n out') =
       Some (16, [2, 97, 98, 0xc0, 0x01], [3, 120, 61, 49, 1, 121], [])"
proof -
  define r where "r = getTxtData (replicate 30 0) (lit ''ab'') 0xc001 None [lit ''x=1'', lit ''y''] 2"
  have "r \<noteq> None" unfolding r_def by code_simp
  moreover have e: "c_strings (take 2 [lit ''x=1'', lit ''y'']) = Some [bytes_of ''x=1'', bytes_of ''y'']"
      "fill_domain (lit ''ab'') None = Some (bytes_of ''ab'')"
    by code_simp+
  ultimately obtain n out' where r: "r = Some (n, out')" by auto
  have "read_service (take n out') = Some (16, label (bytes_of ''ab'') @ be_bytes 2 (0xc001 :: u16),
      concat (map label [bytes_of ''x=1'', bytes_of ''y'']), [])"
    using service_records_roundtrip [of "replicate 30 0" 2 "[lit ''x=1'', lit ''y'']" "lit ''ab''" "0xc001" None 0]
      r e by (auto simp: r_def)
  moreover have "label (bytes_of ''ab'') @ be_bytes 2 (0xc001 :: u16) = [2, 97, 98, 0xc0, 0x01]"
    "concat (map label [bytes_of ''x=1'', bytes_of ''y'']) = [3, 120, 61, 49, 1, 121]"
    by code_simp+
  ultimately show ?thesis using r by (auto simp: r_def)
qed

end
