(* ===== verification/Tx.thy ===== *)
theory Tx
  imports State Packed Response Crc32
begin

text \<open>
  tx.c: building action frames with their records, data frames, and the radiotap, IEEE 802.11
  and LLC headers in an array of the caller. A function gets the array and the position
  \<open>buf\<close> in it and yields the number of bytes written and the array; a structure is stored as
  the bytes of its record (theory Packed). Readings of the clock are arguments.
\<close>

section \<open>Constants\<close>

abbreviation APPLE_P2P_DATA_HEAD :: u16 where "APPLE_P2P_DATA_HEAD \<equiv> 0x0403"
abbreviation APPLE_P2P_DATA_PAD :: u16 where "APPLE_P2P_DATA_PAD \<equiv> 0x0000"
abbreviation APPLE_P2P_SOCIAL_CHANNEL_6_BIT :: u16 where "APPLE_P2P_SOCIAL_CHANNEL_6_BIT \<equiv> 0x0001"
abbreviation APPLE_P2P_SOCIAL_CHANNEL_44_BIT :: u16 where "APPLE_P2P_SOCIAL_CHANNEL_44_BIT \<equiv> 0x0002"
abbreviation APPLE_P2P_SOCIAL_CHANNEL_149_BIT :: u16 where "APPLE_P2P_SOCIAL_CHANNEL_149_BIT \<equiv> 0x0004"
abbreviation ETH_P_IPV6 :: u16 where "ETH_P_IPV6 \<equiv> 0x86dd"
abbreviation IEEE80211_CHAN_OFDM :: u16 where "IEEE80211_CHAN_OFDM \<equiv> 0x0040"
abbreviation IEEE80211_CHAN_5GHZ :: u16 where "IEEE80211_CHAN_5GHZ \<equiv> 0x0100"

type_synonym written = "(nat \<times> u8 list) option"

section \<open>Headers of the protocol\<close>

definition apple_p2p_init_data ::
  "u8 list \<Rightarrow> nat \<Rightarrow> apple_p2p_state \<Rightarrow> (nat \<times> u8 list \<times> apple_p2p_state) option" where
  "apple_p2p_init_data mem buf state =
     (let (seq, state) = apple_p2p_state_next_sequence_number state;
          header = \<lparr>d_head = APPLE_P2P_DATA_HEAD, d_seq = seq, d_pad = APPLE_P2P_DATA_PAD,
                    d_ethertype = htobe16 ETH_P_IPV6\<rparr>
      in map_option (\<lambda>(n, mem). (n, mem, state)) (put mem buf (apple_p2p_data_bytes header)))"

definition apple_p2p_init_action :: "(int \<times> int) option \<Rightarrow> u8 \<Rightarrow> u8 list \<Rightarrow> nat \<Rightarrow> written" where
  "apple_p2p_init_action reading typ mem buf =
     do {
       now \<leftarrow> clock_time_us reading;
       let steady_time = (ucast now :: u32);
       put mem buf (apple_p2p_action_bytes
         \<lparr>a_category = IEEE80211_VENDOR_SPECIFIC, a_oui = APPLE_P2P_OUI, a_type = APPLE_P2P_TYPE,
          a_version = APPLE_P2P_VERSION_COMPAT, a_subtype = typ, a_reserved = 0,
          a_phy_tx = steady_time, a_target_tx = steady_time\<rparr>)
     }"

section \<open>The records of an action frame\<close>

definition apple_p2p_chan_encoding_length :: "chan_encoding \<Rightarrow> nat" where
  "apple_p2p_chan_encoding_length enc =
     (if enc = APPLE_P2P_CHAN_ENC_SIMPLE then 1
      else if enc = APPLE_P2P_CHAN_ENC_LEGACY \<or> enc = APPLE_P2P_CHAN_ENC_OPCLASS then 2
      else 0)"

fun chan_bytes :: "apple_p2p_chan \<Rightarrow> u8 list" where
  "chan_bytes (Chan a b) = [a, b]"

text \<open>The loop over the sixteen channels.\<close>

fun chanseq_copy :: "nat \<Rightarrow> apple_p2p_chan list \<Rightarrow> nat \<times> u8 list \<Rightarrow> written" where
  "chanseq_copy enc_len [] st = Some st"
| "chanseq_copy enc_len (c # cs) st =
     do { st \<leftarrow> emit (\<lambda>mem ptr. put mem ptr (take enc_len (chan_bytes c))) st; chanseq_copy enc_len cs st }"

definition apple_p2p_init_chanseq :: "apple_p2p_state \<Rightarrow> u8 list \<Rightarrow> nat \<Rightarrow> written" where
  "apple_p2p_init_chanseq state mem buf =
     do {
       let enc_len = apple_p2p_chan_encoding_length (ch_enc (s_channel state));
       st \<leftarrow> emit (\<lambda>mem ptr. put mem ptr (apple_p2p_chanseq_bytes
         \<lparr>c_count = of_nat (APPLE_P2P_CHANSEQ_LENGTH - 1), c_encoding = word_of_int (ch_enc (s_channel state)),
          c_duplicate_count = 0, c_step_count = 3, c_fill_channel = 0xffff\<rparr>)) (buf, mem);
       st \<leftarrow> chanseq_copy enc_len (ch_sequence (s_channel state)) st;
       Some (from_start buf st)
     }"

text \<open>The length of what is left of the current window, from \<open>int\<close> arithmetic.\<close>

definition remaining_aw_length :: "u16 \<Rightarrow> u16 \<Rightarrow> u8 \<Rightarrow> u16 \<Rightarrow> u16" where
  "remaining_aw_length aw_com_length aw_per presence tx_down_counter =
     (if uint aw_com_length < uint aw_per * uint presence - uint tx_down_counter then 0
      else word_of_int (uint aw_com_length - (uint aw_per * uint presence - uint tx_down_counter)))"

text \<open>The record's length is stored last; until then its two bytes keep what they held.\<close>

definition apple_p2p_init_sync_params_tlv ::
  "(int \<times> int) option \<Rightarrow> apple_p2p_state \<Rightarrow> u8 list \<Rightarrow> nat \<Rightarrow> written" where
  "apple_p2p_init_sync_params_tlv reading state mem buf =
     do {
       now \<leftarrow> clock_time_us reading;
       let sync = s_sync state;
       let enc = ch_enc (s_channel state);
       let next_aw_seq = apple_p2p_sync_current_aw now sync;
       let tx_down_counter = apple_p2p_sync_next_aw_tu now sync;
       let tlv = \<lparr>y_type = APPLE_P2P_SYNCHRONIZATON_PARAMETERS_TLV, y_length = le_word (slice mem (buf + 1) 2),
                  y_next_aw_channel = apple_p2p_chan_num (ch_current (s_channel state)) enc,
                  y_tx_down_counter = tx_down_counter,
                  y_master_channel = apple_p2p_chan_num (ch_master (s_channel state)) enc,
                  y_guard_time = 0, y_aw_period = aw_period sync, y_af_period = s_psf_interval state,
                  y_flags = 0x1800, y_aw_ext_length = aw_period sync, y_aw_com_length = aw_period sync,
                  y_remaining_aw_length =
                    remaining_aw_length (aw_period sync) (aw_period sync) (presence_mode sync) tx_down_counter,
                  y_min_ext = presence_mode sync - 1, y_max_ext_multicast = presence_mode sync - 1,
                  y_max_ext_unicast = presence_mode sync - 1, y_max_ext_af = presence_mode sync - 1,
                  y_master_addr = e_master_addr (s_election state), y_presence_mode = presence_mode sync,
                  y_reserved = 0, y_next_aw_seq = next_aw_seq, y_ap_alignment = next_aw_seq\<rparr>;
       st \<leftarrow> emit (\<lambda>mem ptr. put mem ptr (sync_params_bytes tlv)) (buf, mem);
       st \<leftarrow> emit (apple_p2p_init_chanseq state) st;
       st \<leftarrow> emit (\<lambda>mem ptr. put mem ptr [0]) st;
       st \<leftarrow> emit (\<lambda>mem ptr. put mem ptr [0]) st;
       (_, mem) \<leftarrow> put (snd st) (buf + 1) (le_bytes 2 (of_nat (fst st - buf - sizeof_tl) :: u16));
       Some (fst st - buf, mem)
     }"

definition apple_p2p_init_chanseq_tlv :: "apple_p2p_state \<Rightarrow> u8 list \<Rightarrow> nat \<Rightarrow> written" where
  "apple_p2p_init_chanseq_tlv state mem buf =
     do {
       let tlv = tl_bytes APPLE_P2P_CHAN_SEQ_TLV (le_word (slice mem (buf + 1) 2));
       st \<leftarrow> emit (\<lambda>mem ptr. put mem ptr tlv) (buf, mem);
       st \<leftarrow> emit (apple_p2p_init_chanseq state) st;
       st \<leftarrow> emit (\<lambda>mem ptr. put mem ptr [0]) st;
       st \<leftarrow> emit (\<lambda>mem ptr. put mem ptr [0]) st;
       st \<leftarrow> emit (\<lambda>mem ptr. put mem ptr [0]) st;
       (_, mem) \<leftarrow> put (snd st) (buf + 1) (le_bytes 2 (of_nat (fst st - buf - sizeof_tl) :: u16));
       Some (fst st - buf, mem)
     }"

definition apple_p2p_init_election_params_tlv :: "apple_p2p_state \<Rightarrow> u8 list \<Rightarrow> nat \<Rightarrow> written" where
  "apple_p2p_init_election_params_tlv state mem buf =
     put mem buf (election_params_bytes
       \<lparr>e1_type = APPLE_P2P_ELECTION_PARAMETERS_TLV,
        e1_length = of_nat (sizeof_election_params_tlv - sizeof_tl),
        e1_flags = 0, e1_id = 0, e1_distancetop = ucast (e_height (s_election state)), e1_unknown = 0,
        e1_top_master_addr = e_master_addr (s_election state),
        e1_top_master_metric = e_master_metric (s_election state),
        e1_self_metric = e_self_metric (s_election state), e1_pad = (0, 0)\<rparr>)"

definition apple_p2p_init_election_params_v2_tlv :: "apple_p2p_state \<Rightarrow> u8 list \<Rightarrow> nat \<Rightarrow> written" where
  "apple_p2p_init_election_params_v2_tlv state mem buf =
     put mem buf (election_params_v2_bytes
       \<lparr>e2_type = APPLE_P2P_ELECTION_PARAMETERS_V2_TLV,
        e2_length = of_nat (sizeof_election_params_v2_tlv - sizeof_tl),
        e2_master_addr = e_master_addr (s_election state), e2_sync_addr = e_sync_addr (s_election state),
        e2_master_counter = e_master_counter (s_election state),
        e2_distance_to_master = e_height (s_election state),
        e2_master_metric = e_master_metric (s_election state), e2_self_metric = e_self_metric (s_election state),
        e2_unknown = 0, e2_reserved = 0, e2_self_counter = e_self_counter (s_election state)\<rparr>)"

definition apple_p2p_init_service_params_tlv :: "apple_p2p_state \<Rightarrow> u8 list \<Rightarrow> nat \<Rightarrow> written" where
  "apple_p2p_init_service_params_tlv state mem buf =
     put mem buf (service_params_bytes
       \<lparr>sp_type = APPLE_P2P_SERVICE_PARAMETERS_TLV, sp_length = of_nat (sizeof_service_params_tlv - sizeof_tl),
        sp_unknown = (0, 0, 0), sp_sui = 0, sp_bitmask = 0\<rparr>)"

definition apple_p2p_init_ht_capabilities_tlv :: "apple_p2p_state \<Rightarrow> u8 list \<Rightarrow> nat \<Rightarrow> written" where
  "apple_p2p_init_ht_capabilities_tlv state mem buf =
     put mem buf (ht_capabilities_bytes
       \<lparr>ht_type = APPLE_P2P_ENHANCED_DATA_RATE_CAPABILITIES_TLV,
        ht_length = of_nat (sizeof_ht_capabilities_tlv - sizeof_tl),
        ht_unknown = 0, ht_ht_capabilities = 0x01ee, ht_ampdu_params = 0x19, ht_rx_mcs = 0x00,
        ht_unknown2 = 0\<rparr>)"

definition social_channels :: "apple_p2p_state \<Rightarrow> u16" where
  "social_channels state =
     (if apple_p2p_chan_num (ch_master (s_channel state)) APPLE_P2P_CHAN_ENC_OPCLASS = 6
      then APPLE_P2P_SOCIAL_CHANNEL_6_BIT
      else if apple_p2p_chan_num (ch_master (s_channel state)) APPLE_P2P_CHAN_ENC_OPCLASS = 44
      then APPLE_P2P_SOCIAL_CHANNEL_44_BIT
      else APPLE_P2P_SOCIAL_CHANNEL_149_BIT)"

definition apple_p2p_init_data_path_state_tlv :: "apple_p2p_state \<Rightarrow> u8 list \<Rightarrow> nat \<Rightarrow> written" where
  "apple_p2p_init_data_path_state_tlv state mem buf =
     put mem buf (data_path_state_bytes
       \<lparr>dp_type = APPLE_P2P_DATA_PATH_STATE_TLV,
        dp_length = of_nat (sizeof_data_path_state_tlv - sizeof_tl), dp_flags = 0x8f64,
        dp_country_code = (67, 78, 0), dp_social_channels = social_channels state,
        dp_apple_p2p_addr = s_self_address state, dp_ext_flags = 0x0000\<rparr>)"

text \<open>The name goes over the end of the structure, whose last field has one character.\<close>

definition apple_p2p_init_arpa_tlv :: "apple_p2p_state \<Rightarrow> u8 list \<Rightarrow> nat \<Rightarrow> written" where
  "apple_p2p_init_arpa_tlv state mem buf =
     do {
       name \<leftarrow> c_string (s_name state);
       let len = length name;
       let tlv_length = (of_nat (sizeof_arpa_tlv - sizeof_tl + len + 1) :: u16);
       st \<leftarrow> emit (\<lambda>mem ptr. put mem ptr (tl_bytes APPLE_P2P_ARPA_TLV tlv_length)) (buf, mem);
       st \<leftarrow> emit (\<lambda>mem ptr. put mem ptr [3, of_nat len]) st;
       st \<leftarrow> emit (\<lambda>mem ptr. put mem ptr (take len (s_name state))) st;
       st \<leftarrow> emit (\<lambda>mem ptr. put mem ptr (le_bytes 2 (htobe16 APPLE_P2P_DNS_SHORT_LOCAL))) st;
       Some (sizeof_tl + unat tlv_length, snd st)
     }"

definition apple_p2p_init_service_response_tlv :: "u8 list \<Rightarrow> nat \<Rightarrow> u8 list \<Rightarrow> nat \<Rightarrow> written" where
  "apple_p2p_init_service_response_tlv response response_length mem buf =
     do {
       let tlv_length = (of_nat response_length :: u16);
       (_, mem) \<leftarrow> put mem buf (tl_bytes APPLE_P2P_SERVICE_RESPONSE_TLV tlv_length);
       (_, mem) \<leftarrow> (if response_length \<le> length response
                  then put mem (buf + sizeof_tl) (take response_length response) else None);
       Some (sizeof_tl + unat tlv_length, mem)
     }"

definition apple_p2p_init_version_tlv :: "apple_p2p_state \<Rightarrow> u8 list \<Rightarrow> nat \<Rightarrow> written" where
  "apple_p2p_init_version_tlv state mem buf =
     put mem buf (version_bytes
       \<lparr>v_type = APPLE_P2P_VERSION_TLV, v_length = of_nat (sizeof_version_tlv - sizeof_tl),
        v_version = s_version state, v_devclass = s_dev_class state\<rparr>)"

section \<open>Headers of the link layer\<close>

definition ieee80211_radiotap_type_to_mask :: "nat \<Rightarrow> u32" where
  "ieee80211_radiotap_type_to_mask t = push_bit t 1"

definition ieee80211_radiotap_rate_to_val :: "nat \<Rightarrow> nat" where
  "ieee80211_radiotap_rate_to_val rate = 2 * rate"

text \<open>Version and padding, the fields in the order of their bits, then length and bitmap.\<close>

definition radiotap_present :: u32 where
  "radiotap_present = fold (\<lambda>t present. present OR ieee80211_radiotap_type_to_mask t) [1, 2, 3, 5, 11, 14] 0"

definition ieee80211_init_radiotap_header :: "apple_p2p_state \<Rightarrow> u8 list \<Rightarrow> nat \<Rightarrow> written" where
  "ieee80211_init_radiotap_header state mem buf =
     do {
       let hdr = \<lparr>rh_version = 0, rh_pad = 0, rh_len = le_word (slice mem (buf + 2) 2),
                  rh_present = le_word (slice mem (buf + 4) 4)\<rparr>;
       st \<leftarrow> emit (\<lambda>mem ptr. put mem ptr (radiotap_header_bytes hdr)) (buf, mem);
       st \<leftarrow> emit (\<lambda>mem ptr. put mem ptr [0]) st;
       st \<leftarrow> emit (\<lambda>mem ptr. put mem ptr [of_nat (ieee80211_radiotap_rate_to_val 12)]) st;
       st \<leftarrow> emit (\<lambda>mem ptr. put mem ptr (le_bytes 2 (word_of_int (ieee80211_channel_to_frequency
         (uint (apple_p2p_chan_num (ch_master (s_channel state)) (ch_enc (s_channel state))))) :: u16))) st;
       st \<leftarrow> emit (\<lambda>mem ptr. put mem ptr (le_bytes 2 (IEEE80211_CHAN_OFDM OR IEEE80211_CHAN_5GHZ))) st;
       st \<leftarrow> emit (\<lambda>mem ptr. put mem ptr [word_of_int (-30)]) st;
       st \<leftarrow> emit (\<lambda>mem ptr. put mem ptr [0]) st;
       st \<leftarrow> emit (\<lambda>mem ptr. put mem ptr (le_bytes 2 (0 :: u16))) st;
       (_, mem) \<leftarrow> put (snd st) (buf + 2)
         (le_bytes 2 (of_nat (fst st - buf) :: u16) @ le_bytes 4 radiotap_present);
       Some (fst st - buf, mem)
     }"

definition ieee80211_init_apple_p2p_hdr ::
  "ether_addr \<Rightarrow> ether_addr \<Rightarrow> ieee80211_state \<Rightarrow> u16 \<Rightarrow> u8 list \<Rightarrow> nat \<Rightarrow>
    (nat \<times> u8 list \<times> ieee80211_state) option" where
  "ieee80211_init_apple_p2p_hdr src dst state typ mem buf =
     (let (seq, state) = ieee80211_state_next_sequence_number state;
          hdr = \<lparr>h_frame_control = typ, h_duration_id = 0, h_addr1 = dst, h_addr2 = src,
                 h_addr3 = APPLE_P2P_BSSID, h_seq_ctrl = ucast (push_bit 4 seq)\<rparr>
      in map_option (\<lambda>(n, mem). (n, mem, state)) (put mem buf (ieee80211_hdr_bytes hdr)))"

definition ieee80211_init_apple_p2p_action_hdr ::
  "ether_addr \<Rightarrow> ether_addr \<Rightarrow> ieee80211_state \<Rightarrow> u8 list \<Rightarrow> nat \<Rightarrow> (nat \<times> u8 list \<times> ieee80211_state) option" where
  "ieee80211_init_apple_p2p_action_hdr src dst state mem buf =
     ieee80211_init_apple_p2p_hdr src dst state (IEEE80211_FTYPE_MGMT OR IEEE80211_STYPE_ACTION) mem buf"

definition ieee80211_init_apple_p2p_data_hdr ::
  "ether_addr \<Rightarrow> ether_addr \<Rightarrow> ieee80211_state \<Rightarrow> u8 list \<Rightarrow> nat \<Rightarrow> (nat \<times> u8 list \<times> ieee80211_state) option" where
  "ieee80211_init_apple_p2p_data_hdr src dst state mem buf =
     ieee80211_init_apple_p2p_hdr src dst state (IEEE80211_FTYPE_DATA OR IEEE80211_STYPE_DATA) mem buf"

definition llc_init_apple_p2p_hdr :: "u8 list \<Rightarrow> nat \<Rightarrow> written" where
  "llc_init_apple_p2p_hdr mem buf =
     put mem buf (llc_hdr_bytes \<lparr>llc_dsap = 0xaa, llc_ssap = 0xaa, llc_control = 0x03,
       llc_oui = APPLE_P2P_OUI, llc_pid = htobe16 APPLE_P2P_LLC_PROTOCOL_ID\<rparr>)"

text \<open>The checksum of the bytes between \<open>start\<close> and \<open>fin\<close>, stored at \<open>fin\<close>.\<close>

definition ieee80211_add_fcs :: "nat \<Rightarrow> u8 list \<Rightarrow> nat \<Rightarrow> written" where
  "ieee80211_add_fcs start mem fin = put mem fin (le_bytes 4 (crc32 (slice mem start (fin - start))))"

section \<open>Complete frames\<close>

definition mac_string :: "ether_addr \<Rightarrow> u8 list" where
  "mac_string mac = overwrite (replicate 16 0) 0 (concat (map fmt_02x (octets mac)) @ [0])"

abbreviation DATA_SIZE :: nat where "DATA_SIZE \<equiv> 1024"

text \<open>\<open>clk1\<close> and \<open>clk2\<close> are the two readings of the clock.\<close>

definition apple_p2p_init_full_action_frame ::
  "(int \<times> int) option \<Rightarrow> (int \<times> int) option \<Rightarrow> u8 list \<Rightarrow> nat \<Rightarrow> apple_p2p_state \<Rightarrow> ieee80211_state \<Rightarrow> u8 \<Rightarrow>
    (nat \<times> u8 list \<times> ieee80211_state) option" where
  "apple_p2p_init_full_action_frame clk1 clk2 mem buf state ieee80211_state typ =
     do {
       let name = s_name state;
       let mac_str = mac_string (s_self_address state);
       let none = replicate DATA_SIZE 0;
       (airplay_ptr_len, airplay_ptr) \<leftarrow> getPtrData none name APPLE_P2P_DNS_SHORT_AIRPLAY_TCP None;
       (raop_ptr_len, raop_ptr) \<leftarrow> getPtrData none name APPLE_P2P_DNS_SHORT_RAOP_TCP (Some mac_str);
       (airplay_srv_len, airplay_srv) \<leftarrow> getSrvData none name APPLE_P2P_DNS_SHORT_AIRPLAY_TCP None 7000;
       (raop_srv_len, raop_srv) \<leftarrow> getSrvData none name APPLE_P2P_DNS_SHORT_RAOP_TCP (Some mac_str) 5000;
       (airplay_txt_len, airplay_txt_data) \<leftarrow>
         getTxtData none name APPLE_P2P_DNS_SHORT_AIRPLAY_TCP None airplay_txt airplay_txt_count;
       (raop_txt_len, raop_txt_data) \<leftarrow>
         getTxtData none name APPLE_P2P_DNS_SHORT_RAOP_TCP (Some mac_str) raop_txt raop_txt_count;
       st \<leftarrow> emit (ieee80211_init_radiotap_header state) (buf, mem);
       (st, ieee80211_state) \<leftarrow> emit_with (ieee80211_init_apple_p2p_action_hdr (s_self_address state)
         (s_dst state) ieee80211_state) st;
       st \<leftarrow> emit (apple_p2p_init_action clk1 typ) st;
       st \<leftarrow> emit (apple_p2p_init_sync_params_tlv clk2 state) st;
       st \<leftarrow> emit (apple_p2p_init_election_params_tlv state) st;
       st \<leftarrow> emit (apple_p2p_init_chanseq_tlv state) st;
       st \<leftarrow> emit (apple_p2p_init_election_params_v2_tlv state) st;
       st \<leftarrow> emit (apple_p2p_init_service_params_tlv state) st;
       st \<leftarrow> (if typ = APPLE_P2P_ACTION_MIF then emit (apple_p2p_init_ht_capabilities_tlv state) st else Some st);
       st \<leftarrow> (if typ = APPLE_P2P_ACTION_MIF then emit (apple_p2p_init_arpa_tlv state) st else Some st);
       st \<leftarrow> emit (apple_p2p_init_data_path_state_tlv state) st;
       st \<leftarrow> emit (apple_p2p_init_version_tlv state) st;
       st \<leftarrow> (if typ = APPLE_P2P_ACTION_MIF then do {
           st \<leftarrow> emit (apple_p2p_init_service_response_tlv airplay_ptr airplay_ptr_len) st;
           st \<leftarrow> emit (apple_p2p_init_service_response_tlv raop_ptr raop_ptr_len) st;
           st \<leftarrow> emit (apple_p2p_init_service_response_tlv airplay_srv airplay_srv_len) st;
           st \<leftarrow> emit (apple_p2p_init_service_response_tlv raop_srv raop_srv_len) st;
           st \<leftarrow> emit (apple_p2p_init_service_response_tlv airplay_txt_data airplay_txt_len) st;
           emit (apple_p2p_init_service_response_tlv raop_txt_data raop_txt_len) st
         } else Some st);
       st \<leftarrow> (if i_fcs ieee80211_state then emit (ieee80211_add_fcs buf) st else Some st);
       Some (fst st - buf, snd st, ieee80211_state)
     }"

definition apple_p2p_init_full_data_frame ::
  "u8 list \<Rightarrow> nat \<Rightarrow> ether_addr \<Rightarrow> ether_addr \<Rightarrow> u8 list \<Rightarrow> nat \<Rightarrow> apple_p2p_state \<Rightarrow> ieee80211_state \<Rightarrow>
    (nat \<times> u8 list \<times> apple_p2p_state \<times> ieee80211_state) option" where
  "apple_p2p_init_full_data_frame mem buf src dst payload plen state ieee80211_state =
     do {
       st \<leftarrow> emit (ieee80211_init_radiotap_header state) (buf, mem);
       (st, ieee80211_state) \<leftarrow> emit_with (ieee80211_init_apple_p2p_data_hdr src dst ieee80211_state) st;
       st \<leftarrow> emit llc_init_apple_p2p_hdr st;
       (st, state) \<leftarrow> emit_with (\<lambda>mem ptr. apple_p2p_init_data mem ptr state) st;
       st \<leftarrow> (if plen \<le> length payload
            then emit (\<lambda>mem ptr. put mem ptr (take plen payload)) st else None);
       st \<leftarrow> (if i_fcs ieee80211_state then emit (ieee80211_add_fcs buf) st else Some st);
       Some (fst st - buf, snd st, state, ieee80211_state)
     }"

end
