(* ===== verification/Wire.thy ===== *)
theory Wire
  imports Ether
begin

text \<open>
  The packet buffer of wire.c. A \<open>buf\<close> is the allocation it was made from
  (\<open>orig\<close>), the position of the \<open>data\<close> pointer in it, the remaining length and the
  ownership flag. The abstraction of a buffer is its view: the \<open>len\<close> bytes that
  start at \<open>data\<close>. The lemmas show that every operation is the expected list operation on
  views, keeps the buffer inside its allocation, and touches only bytes of the view.
\<close>

named_theorems wire_defs \<open>definitions of the read and write operations\<close>

section \<open>Buffers\<close>

record buf =
  b_orig :: "u8 list"
  b_data :: nat
  b_len :: int
  b_owned :: bool

datatype wire_error = OUT_OF_BOUNDS

text \<open>The C return code of an error.\<close>

fun wire_code :: "wire_error \<Rightarrow> int" where
  "wire_code OUT_OF_BOUNDS = -1"

text \<open>\<open>heap\<close> gives the bytes \<open>malloc\<close> returns: they are not initialised by the code.\<close>

definition buf_new_owned :: "(nat \<Rightarrow> u8) \<Rightarrow> int \<Rightarrow> buf option" where
  "buf_new_owned heap n =
     (if n < 0 then None
      else Some \<lparr>b_orig = map heap [0..<nat n], b_data = 0, b_len = n, b_owned = True\<rparr>)"

text \<open>\<open>mem\<close> is the memory the pointer \<open>data\<close> points to.\<close>

definition buf_new_const :: "u8 list \<Rightarrow> int \<Rightarrow> buf option" where
  "buf_new_const mem n =
     (if n < 0 then None
      else Some \<lparr>b_orig = mem, b_data = 0, b_len = n, b_owned = False\<rparr>)"

text \<open>What \<open>buf_free\<close> releases: the byte array of an owned buffer, and the struct.\<close>

datatype allocation = Bytes_Array | Buf_Struct

definition buf_free :: "buf \<Rightarrow> allocation list" where
  "buf_free b = (if b_owned b then [Bytes_Array] else []) @ [Buf_Struct]"

definition buf_data :: "buf \<Rightarrow> u8 list" where
  "buf_data b = drop (b_data b) (b_orig b)"

definition buf_len :: "buf \<Rightarrow> int" where
  "buf_len b = b_len b"

definition buf_strip :: "buf \<Rightarrow> int \<Rightarrow> int \<times> buf" where
  "buf_strip b n =
     (if n > b_len b \<or> n < 0 then (wire_code OUT_OF_BOUNDS, b)
      else (n, b\<lparr>b_data := b_data b + nat n, b_len := b_len b - n\<rparr>))"

definition buf_take :: "buf \<Rightarrow> int \<Rightarrow> int \<times> buf" where
  "buf_take b n =
     (if n > b_len b \<or> n < 0 then (wire_code OUT_OF_BOUNDS, b)
      else (n, b\<lparr>b_len := b_len b - n\<rparr>))"

section \<open>Writes\<close>

text \<open>Storing bytes at \<open>buf->data + offset\<close>.\<close>

definition store :: "buf \<Rightarrow> int \<Rightarrow> u8 list \<Rightarrow> buf" where
  "store b off bs = b\<lparr>b_orig := overwrite (b_orig b) (b_data b + nat off) bs\<rparr>"

definition write_u8 :: "buf \<Rightarrow> int \<Rightarrow> u8 \<Rightarrow> int \<times> buf" where
  [wire_defs]: "write_u8 b off v =
     (if off < 0 \<or> off + 1 > b_len b then (wire_code OUT_OF_BOUNDS, b)
      else (1, store b off [v]))"

definition write_le16 :: "buf \<Rightarrow> int \<Rightarrow> u16 \<Rightarrow> int \<times> buf" where
  [wire_defs]: "write_le16 b off v =
     (if off < 0 \<or> off + 2 > b_len b then (wire_code OUT_OF_BOUNDS, b)
      else (2, store b off (le_bytes 2 v)))"

definition write_be16 :: "buf \<Rightarrow> int \<Rightarrow> u16 \<Rightarrow> int \<times> buf" where
  [wire_defs]: "write_be16 b off v =
     (if off < 0 \<or> off + 2 > b_len b then (wire_code OUT_OF_BOUNDS, b)
      else (2, store b off (be_bytes 2 v)))"

definition write_le32 :: "buf \<Rightarrow> int \<Rightarrow> u32 \<Rightarrow> int \<times> buf" where
  [wire_defs]: "write_le32 b off v =
     (if off < 0 \<or> off + 4 > b_len b then (wire_code OUT_OF_BOUNDS, b)
      else (4, store b off (le_bytes 4 v)))"

definition write_be32 :: "buf \<Rightarrow> int \<Rightarrow> u32 \<Rightarrow> int \<times> buf" where
  [wire_defs]: "write_be32 b off v =
     (if off < 0 \<or> off + 4 > b_len b then (wire_code OUT_OF_BOUNDS, b)
      else (4, store b off (be_bytes 4 v)))"

definition write_ether_addr :: "buf \<Rightarrow> int \<Rightarrow> ether_addr \<Rightarrow> int \<times> buf" where
  [wire_defs]: "write_ether_addr b off a =
     (if off < 0 \<or> off + int ETHER_ADDR_LEN > b_len b then (wire_code OUT_OF_BOUNDS, b)
      else (int ETHER_ADDR_LEN, store b off (octets a)))"

text \<open>\<open>memcpy\<close> of \<open>length\<close> bytes; the source array is the list \<open>bs\<close>.\<close>

definition write_bytes :: "buf \<Rightarrow> int \<Rightarrow> u8 list \<Rightarrow> int \<Rightarrow> int \<times> buf" where
  [wire_defs]: "write_bytes b off bs n =
     (if off < 0 \<or> off + n > b_len b then (wire_code OUT_OF_BOUNDS, b)
      else (n, store b off (take (nat n) bs)))"

section \<open>Reads\<close>

text \<open>The \<open>n\<close> bytes at \<open>buf->data + offset\<close>.\<close>

definition fetch :: "buf \<Rightarrow> int \<Rightarrow> nat \<Rightarrow> u8 list" where
  "fetch b off n = slice (b_orig b) (b_data b + nat off) n"

text \<open>
  A read gives the C return value together with what it stores through the output
  pointer; on an error nothing is stored. \<open>CHECKED_READ\<close> is the macro: on a negative
  result it jumps to the label \<open>wire_error\<close>, whose code is the argument \<open>on_error\<close>.
\<close>

definition CHECKED_READ ::
  "wire_error + int \<times> 'a \<Rightarrow> 'r \<Rightarrow> ('a \<Rightarrow> 'r) \<Rightarrow> 'r" where
  "CHECKED_READ r on_error k =
     (case r of Inl e \<Rightarrow> on_error | Inr (n, v) \<Rightarrow> if n < 0 then on_error else k v)"

definition BUF_STRIP :: "buf \<Rightarrow> int \<Rightarrow> (buf \<Rightarrow> 'r) \<Rightarrow> (buf \<Rightarrow> 'r) \<Rightarrow> 'r" where
  "BUF_STRIP b n on_error k =
     (let (r, b') = buf_strip b n in if r < 0 then on_error b' else k b')"

definition BUF_TAKE :: "buf \<Rightarrow> int \<Rightarrow> (buf \<Rightarrow> 'r) \<Rightarrow> (buf \<Rightarrow> 'r) \<Rightarrow> 'r" where
  "BUF_TAKE b n on_error k =
     (let (r, b') = buf_take b n in if r < 0 then on_error b' else k b')"

definition read_u8 :: "buf \<Rightarrow> int \<Rightarrow> wire_error + int \<times> u8" where
  [wire_defs]: "read_u8 b off =
     (if off < 0 \<or> off + 1 > b_len b then Inl OUT_OF_BOUNDS
      else Inr (1, le_word (fetch b off 1)))"

definition read_le16 :: "buf \<Rightarrow> int \<Rightarrow> wire_error + int \<times> u16" where
  [wire_defs]: "read_le16 b off =
     (if off < 0 \<or> off + 2 > b_len b then Inl OUT_OF_BOUNDS
      else Inr (2, le_word (fetch b off 2)))"

definition read_be16 :: "buf \<Rightarrow> int \<Rightarrow> wire_error + int \<times> u16" where
  [wire_defs]: "read_be16 b off =
     (if off < 0 \<or> off + 2 > b_len b then Inl OUT_OF_BOUNDS
      else Inr (2, be_word (fetch b off 2)))"

definition read_le32 :: "buf \<Rightarrow> int \<Rightarrow> wire_error + int \<times> u32" where
  [wire_defs]: "read_le32 b off =
     (if off < 0 \<or> off + 4 > b_len b then Inl OUT_OF_BOUNDS
      else Inr (4, le_word (fetch b off 4)))"

definition read_be32 :: "buf \<Rightarrow> int \<Rightarrow> wire_error + int \<times> u32" where
  [wire_defs]: "read_be32 b off =
     (if off < 0 \<or> off + 4 > b_len b then Inl OUT_OF_BOUNDS
      else Inr (4, be_word (fetch b off 4)))"

definition read_ether_addr :: "buf \<Rightarrow> int \<Rightarrow> wire_error + int \<times> ether_addr" where
  [wire_defs]: "read_ether_addr b off =
     (if off < 0 \<or> off + int ETHER_ADDR_LEN > b_len b then Inl OUT_OF_BOUNDS
      else Inr (int ETHER_ADDR_LEN, ether_of (fetch b off ETHER_ADDR_LEN)))"

text \<open>\<open>read_bytes\<close> yields a pointer into the buffer, here the bytes it points to.\<close>

definition read_bytes :: "buf \<Rightarrow> int \<Rightarrow> int \<Rightarrow> wire_error + int \<times> u8 list" where
  [wire_defs]: "read_bytes b off n =
     (if off < 0 \<or> off + n > b_len b then Inl OUT_OF_BOUNDS
      else Inr (n, fetch b off (nat n)))"

definition read_bytes_copy :: "buf \<Rightarrow> int \<Rightarrow> int \<Rightarrow> wire_error + int \<times> u8 list" where
  [wire_defs]: "read_bytes_copy b off n =
     (if off < 0 \<or> off + n > b_len b then Inl OUT_OF_BOUNDS
      else Inr (n, fetch b off (nat n)))"

text \<open>The string stored by \<open>read_int_string\<close>, without the trailing zero it appends.\<close>

definition read_int_string :: "buf \<Rightarrow> int \<Rightarrow> int \<Rightarrow> wire_error + int \<times> u8 list" where
  "read_int_string b off n =
     CHECKED_READ (read_u8 b off) (Inl OUT_OF_BOUNDS) (\<lambda>len0.
       let len1 = (if uint len0 > n then word_of_int n else len0) in
       CHECKED_READ (read_bytes_copy b (off + 1) (uint len1)) (Inl OUT_OF_BOUNDS) (\<lambda>str.
         Inr (uint len1 + 1, str)))"

definition read_tlv :: "buf \<Rightarrow> int \<Rightarrow> wire_error + int \<times> u8 \<times> u16 \<times> u8 list" where
  "read_tlv b off =
     CHECKED_READ (read_u8 b off) (Inl OUT_OF_BOUNDS) (\<lambda>typ.
     CHECKED_READ (read_le16 b (off + 1)) (Inl OUT_OF_BOUNDS) (\<lambda>len0.
     CHECKED_READ (read_bytes b (off + 3) (uint len0)) (Inl OUT_OF_BOUNDS) (\<lambda>val.
       Inr (uint len0 + 3, typ, len0, val))))"

section \<open>Well-formed buffers and their views\<close>

definition wf_buf :: "buf \<Rightarrow> bool" where
  "wf_buf b \<longleftrightarrow> 0 \<le> b_len b \<and> b_data b + nat (b_len b) \<le> length (b_orig b)"

definition buf_view :: "buf \<Rightarrow> u8 list" where
  "buf_view b = slice (b_orig b) (b_data b) (nat (b_len b))"

text \<open>A buffer over exactly the bytes \<open>bs\<close>, as \<open>buf_new_const\<close> makes it.\<close>

definition const_buf :: "u8 list \<Rightarrow> buf" where
  "const_buf bs = \<lparr>b_orig = bs, b_data = 0, b_len = int (length bs), b_owned = False\<rparr>"

lemma length_buf_view: "wf_buf b \<Longrightarrow> length (buf_view b) = nat (b_len b)"
  by (auto simp: wf_buf_def buf_view_def)

lemma b_len_view: "wf_buf b \<Longrightarrow> b_len b = int (length (buf_view b))"
  by (simp add: wf_buf_def length_buf_view)

lemma wf_const_buf [simp]: "wf_buf (const_buf bs)"
  and view_const_buf [simp]: "buf_view (const_buf bs) = bs"
  and len_const_buf [simp]: "b_len (const_buf bs) = int (length bs)"
  by (simp_all add: const_buf_def wf_buf_def buf_view_def slice_def)

lemma buf_new_const_eq [simp]:
  "buf_new_const bs (int (length bs)) = Some (const_buf bs)"
  by (simp add: buf_new_const_def const_buf_def)

lemma buf_new_owned_wf: "buf_new_owned heap n = Some b \<Longrightarrow> wf_buf b \<and> b_len b = n"
  by (auto simp: buf_new_owned_def wf_buf_def split: if_splits)

lemma fetch_view:
  assumes "wf_buf b" and "0 \<le> off" and "off + int n \<le> b_len b"
  shows "fetch b off n = slice (buf_view b) (nat off) n"
proof -
  from assms have "nat off + n \<le> nat (b_len b)" by linarith
  then show ?thesis by (simp add: fetch_def buf_view_def slice_slice)
qed

lemma length_fetch:
  "wf_buf b \<Longrightarrow> 0 \<le> off \<Longrightarrow> off + int n \<le> b_len b \<Longrightarrow> length (fetch b off n) = n"
  by (auto simp: fetch_def wf_buf_def)

lemma buf_strip_ok:
  assumes "wf_buf b" and "0 \<le> n" and "n \<le> b_len b"
  shows "buf_strip b n = (n, b\<lparr>b_data := b_data b + nat n, b_len := b_len b - n\<rparr>)"
    and "wf_buf (snd (buf_strip b n))"
    and "buf_view (snd (buf_strip b n)) = drop (nat n) (buf_view b)"
    and "b_len (snd (buf_strip b n)) = b_len b - n"
proof -
  show eq: "buf_strip b n = (n, b\<lparr>b_data := b_data b + nat n, b_len := b_len b - n\<rparr>)"
    using assms by (simp add: buf_strip_def)
  show "wf_buf (snd (buf_strip b n))"
    using assms unfolding eq by (auto simp: wf_buf_def)
  have "nat (b_len b - n) = nat (b_len b) - nat n" using assms by linarith
  then show "buf_view (snd (buf_strip b n)) = drop (nat n) (buf_view b)"
    unfolding eq by (simp add: buf_view_def slice_def drop_take add.commute)
  show "b_len (snd (buf_strip b n)) = b_len b - n" unfolding eq by simp
qed

lemma buf_strip_wf: "wf_buf b \<Longrightarrow> wf_buf (snd (buf_strip b n))"
  using buf_strip_ok(2) [of b n] by (cases "n > b_len b \<or> n < 0") (auto simp: buf_strip_def)

lemma buf_take_wf: "wf_buf b \<Longrightarrow> wf_buf (snd (buf_take b n))"
  by (auto simp: buf_take_def wf_buf_def)

lemma buf_take_ok:
  assumes "wf_buf b" and "0 \<le> n" and "n \<le> b_len b"
  shows "buf_view (snd (buf_take b n)) = take (nat (b_len b - n)) (buf_view b)"
  using assms by (simp add: buf_take_def buf_view_def slice_def min_def)

lemma store_wf:
  assumes "wf_buf b" and "0 \<le> off" and "off + int (length bs) \<le> b_len b"
  shows "wf_buf (store b off bs)"
    and "buf_view (store b off bs) = overwrite (buf_view b) (nat off) bs"
proof -
  let ?d = "b_data b" and ?n = "nat (b_len b)" and ?o = "nat off"
  from assms have fits: "?o + length bs \<le> ?n" and alloc: "?d + ?n \<le> length (b_orig b)"
    by (auto simp: wf_buf_def)
  then have len: "length (overwrite (b_orig b) (?d + ?o) bs) = length (b_orig b)" by simp
  then show "wf_buf (store b off bs)" using assms by (simp add: wf_buf_def store_def)
  show "buf_view (store b off bs) = overwrite (buf_view b) ?o bs"
  proof (rule nth_equalityI)
    show "length (buf_view (store b off bs)) = length (overwrite (buf_view b) ?o bs)"
      using assms fits alloc len by (simp add: buf_view_def store_def)
  next
    fix i assume "i < length (buf_view (store b off bs))"
    then have i: "i < ?n" by (simp add: buf_view_def store_def)
    with fits alloc have "buf_view (store b off bs) ! i
        = (if ?o \<le> i \<and> i < ?o + length bs then bs ! (i - ?o) else b_orig b ! (?d + i))"
      by (auto simp: buf_view_def store_def slice_def nth_overwrite)
    also have "\<dots> = overwrite (buf_view b) ?o bs ! i"
      using i fits alloc by (auto simp: buf_view_def nth_overwrite slice_def)
    finally show "buf_view (store b off bs) ! i = overwrite (buf_view b) ?o bs ! i" .
  qed
qed

lemma store_len [simp]: "b_len (store b off bs) = b_len b"
  by (simp add: store_def)

section \<open>Reads as functions of the view\<close>

lemma CHECKED_READ_simps [simp]:
  "CHECKED_READ (Inl e) err k = err"
  "0 \<le> n \<Longrightarrow> CHECKED_READ (Inr (n, v)) err k = k v"
  "n < 0 \<Longrightarrow> CHECKED_READ (Inr (n, v)) err k = err"
  by (simp_all add: CHECKED_READ_def)

lemma CHECKED_READ_split:
  "P (CHECKED_READ r err k) \<longleftrightarrow>
     (\<forall>e. r = Inl e \<longrightarrow> P err) \<and>
     (\<forall>n v. r = Inr (n, v) \<longrightarrow> P (if n < 0 then err else k v))"
  by (auto simp: CHECKED_READ_def split: sum.split)

lemma read_u8_view:
  "wf_buf b \<Longrightarrow> read_u8 b off =
     (if 0 \<le> off \<and> nat off < length (buf_view b) then Inr (1, buf_view b ! nat off)
      else Inl OUT_OF_BOUNDS)"
  by (auto simp: read_u8_def fetch_view slice_def length_buf_view wf_buf_def hd_drop_conv_nth
      take_Suc_conv_app_nth [of 0, simplified])

lemma in_view_iff:
  "wf_buf b \<Longrightarrow> (off < 0 \<or> off + int n > b_len b) \<longleftrightarrow>
     \<not> (0 \<le> off \<and> nat off + n \<le> length (buf_view b))"
  by (auto simp: wf_buf_def length_buf_view)

lemma read_le16_view:
  "wf_buf b \<Longrightarrow> read_le16 b off =
     (if 0 \<le> off \<and> nat off + 2 \<le> length (buf_view b)
      then Inr (2, le_word (slice (buf_view b) (nat off) 2)) else Inl OUT_OF_BOUNDS)"
  using in_view_iff [of b off 2] by (auto simp: read_le16_def fetch_view)

lemma read_be16_view:
  "wf_buf b \<Longrightarrow> read_be16 b off =
     (if 0 \<le> off \<and> nat off + 2 \<le> length (buf_view b)
      then Inr (2, be_word (slice (buf_view b) (nat off) 2)) else Inl OUT_OF_BOUNDS)"
  using in_view_iff [of b off 2] by (auto simp: read_be16_def fetch_view)

lemma read_le32_view:
  "wf_buf b \<Longrightarrow> read_le32 b off =
     (if 0 \<le> off \<and> nat off + 4 \<le> length (buf_view b)
      then Inr (4, le_word (slice (buf_view b) (nat off) 4)) else Inl OUT_OF_BOUNDS)"
  using in_view_iff [of b off 4] by (auto simp: read_le32_def fetch_view)

lemma read_be32_view:
  "wf_buf b \<Longrightarrow> read_be32 b off =
     (if 0 \<le> off \<and> nat off + 4 \<le> length (buf_view b)
      then Inr (4, be_word (slice (buf_view b) (nat off) 4)) else Inl OUT_OF_BOUNDS)"
  using in_view_iff [of b off 4] by (auto simp: read_be32_def fetch_view)

lemma read_ether_addr_view:
  "wf_buf b \<Longrightarrow> read_ether_addr b off =
     (if 0 \<le> off \<and> nat off + 6 \<le> length (buf_view b)
      then Inr (6, ether_of (slice (buf_view b) (nat off) 6)) else Inl OUT_OF_BOUNDS)"
  using in_view_iff [of b off 6] by (auto simp: read_ether_addr_def fetch_view)

lemma read_bytes_view:
  assumes "wf_buf b" and "0 \<le> n"
  shows "read_bytes b off n =
     (if 0 \<le> off \<and> nat off + nat n \<le> length (buf_view b)
      then Inr (n, slice (buf_view b) (nat off) (nat n)) else Inl OUT_OF_BOUNDS)"
    and "read_bytes_copy b off n =
     (if 0 \<le> off \<and> nat off + nat n \<le> length (buf_view b)
      then Inr (n, slice (buf_view b) (nat off) (nat n)) else Inl OUT_OF_BOUNDS)"
  using assms in_view_iff [of b off "nat n"]
  by (auto simp: read_bytes_def read_bytes_copy_def fetch_view)

lemmas read_views = read_u8_view read_le16_view read_be16_view read_le32_view
  read_be32_view read_ether_addr_view read_bytes_view

lemma read_tlv_view:
  assumes "wf_buf b" and "0 \<le> off"
  shows "read_tlv b off =
    (let v = buf_view b; o' = nat off; n = le_word (slice v (o' + 1) 2) :: u16 in
     if o' + 3 + unat n \<le> length v \<and> o' + 3 \<le> length v
     then Inr (3 + uint n, v ! o', n, slice v (o' + 3) (unat n))
     else Inl OUT_OF_BOUNDS)"
proof -
  have "nat (off + 1) = nat off + 1" "nat (off + 3) = nat off + 3"
    using assms by (auto simp: nat_add_distrib)
  with assms show ?thesis
    by (auto simp: read_tlv_def read_views Let_def CHECKED_READ_def)
qed

section \<open>The correctness of the buffer\<close>

text \<open>\<open>buf_strip\<close> and \<open>buf_take\<close> on a well-formed buffer either drop exactly the
  requested bytes from the front (the back) of the view, or refuse a length outside the view
  and leave the buffer alone; in both cases the buffer stays inside its allocation.\<close>

theorem strip_take_refine:
  assumes "wf_buf b"
  shows "wf_buf (snd (buf_strip b n)) \<and> wf_buf (snd (buf_take b n)) \<and>
    (if 0 \<le> n \<and> n \<le> b_len b
     then fst (buf_strip b n) = n \<and> buf_view (snd (buf_strip b n)) = drop (nat n) (buf_view b) \<and>
          fst (buf_take b n) = n \<and>
          buf_view (snd (buf_take b n)) = take (length (buf_view b) - nat n) (buf_view b)
     else buf_strip b n = (-1, b) \<and> buf_take b n = (-1, b))"
proof (cases "0 \<le> n \<and> n \<le> b_len b")
  case True
  then have "nat (b_len b - n) = nat (b_len b) - nat n" by linarith
  with True assms show ?thesis
    using buf_strip_ok [of b n] buf_take_ok [of b n] buf_take_wf [of b n]
    by (simp add: buf_take_def length_buf_view)
next
  case False
  with assms show ?thesis by (auto simp: buf_strip_def buf_take_def)
qed

theorem strip_take_refine_witness:
  "wf_buf (const_buf [1, 2, 3, 4]) \<and>
   buf_view (snd (buf_strip (const_buf [1, 2, 3, 4]) 1)) = [2, 3, 4] \<and>
   buf_strip (const_buf [1, 2, 3, 4]) 5 = (-1, const_buf [1, 2, 3, 4])"
  using strip_take_refine [of "const_buf [1, 2, 3, 4]" 1]
    strip_take_refine [of "const_buf [1, 2, 3, 4]" 5] by simp

text \<open>Every checked write is \<open>store\<close> behind the same bounds check.\<close>

definition checked_store :: "buf \<Rightarrow> int \<Rightarrow> u8 list \<Rightarrow> int \<times> buf" where
  "checked_store b off bs =
     (if off < 0 \<or> off + int (length bs) > b_len b then (wire_code OUT_OF_BOUNDS, b)
      else (int (length bs), store b off bs))"

lemma write_as_checked_store:
  "write_u8 b off x = checked_store b off [x]"
  "write_le16 b off y = checked_store b off (le_bytes 2 y)"
  "write_be16 b off y = checked_store b off (be_bytes 2 y)"
  "write_le32 b off z = checked_store b off (le_bytes 4 z)"
  "write_be32 b off z = checked_store b off (be_bytes 4 z)"
  "write_ether_addr b off a = checked_store b off (octets a)"
  "write_bytes b off bs (int (length bs)) = checked_store b off bs"
  by (simp_all add: wire_defs checked_store_def)

lemma checked_store_cases:
  assumes "wf_buf b"
  shows "checked_store b off bs = (-1, b) \<and> \<not> (0 \<le> off \<and> nat off + length bs \<le> length (buf_view b)) \<or>
    0 \<le> off \<and> nat off + length bs \<le> length (buf_view b) \<and>
    checked_store b off bs = (int (length bs), store b off bs)"
  using assms in_view_iff [of b off "length bs"] by (auto simp: checked_store_def)

lemma checked_store_ok:
  assumes "wf_buf b" and "0 \<le> fst (checked_store b off bs)"
  shows "checked_store b off bs = (int (length bs), store b off bs)"
    and "0 \<le> off" and "nat off + length bs \<le> length (buf_view b)"
    and "wf_buf (store b off bs)"
    and "buf_view (store b off bs) = overwrite (buf_view b) (nat off) bs"
proof -
  from checked_store_cases [OF assms(1), of off bs] assms(2)
  have ok: "0 \<le> off" "nat off + length bs \<le> length (buf_view b)"
    "checked_store b off bs = (int (length bs), store b off bs)" by auto
  then show "0 \<le> off" and "nat off + length bs \<le> length (buf_view b)"
    and "checked_store b off bs = (int (length bs), store b off bs)" by auto
  from ok assms have "off + int (length bs) \<le> b_len b" by (simp add: b_len_view)
  then show "wf_buf (store b off bs)"
    and "buf_view (store b off bs) = overwrite (buf_view b) (nat off) bs"
    using store_wf [OF assms(1) ok(1)] by auto
qed

lemma checked_store_read_back:
  assumes "wf_buf b" and "0 \<le> fst (checked_store b off bs)"
  shows "wf_buf (snd (checked_store b off bs))"
    and "0 \<le> off"
    and "nat off + length bs \<le> length (buf_view (snd (checked_store b off bs)))"
    and "slice (buf_view (snd (checked_store b off bs))) (nat off) (length bs) = bs"
proof -
  note ok = checked_store_ok [OF assms]
  have eq: "snd (checked_store b off bs) = store b off bs" by (subst ok(1)) simp
  show "wf_buf (snd (checked_store b off bs))" unfolding eq by (rule ok)
  show "0 \<le> off" by (rule ok)
  show "nat off + length bs \<le> length (buf_view (snd (checked_store b off bs)))"
    unfolding eq ok(5) using ok(3) by simp
  show "slice (buf_view (snd (checked_store b off bs))) (nat off) (length bs) = bs"
    unfolding eq ok(5) using ok(3) by (rule slice_overwrite_same)
qed

text \<open>
  The contract of a field: a write that stores the encoding behind the bounds check, and a read
  of the same width that decodes it. Clients rely on no more than this.
\<close>

locale packet_field =
  fixes width :: nat
    and enc :: "'a \<Rightarrow> u8 list"
    and dec :: "u8 list \<Rightarrow> 'a"
    and wr :: "buf \<Rightarrow> int \<Rightarrow> 'a \<Rightarrow> int \<times> buf"
    and rd :: "buf \<Rightarrow> int \<Rightarrow> wire_error + int \<times> 'a"
  assumes length_enc: "length (enc x) = width"
    and dec_enc: "dec (enc x) = x"
    and write_checked: "wr b off x = checked_store b off (enc x)"
    and read_checked: "wf_buf b \<Longrightarrow> rd b off =
      (if 0 \<le> off \<and> nat off + width \<le> length (buf_view b)
       then Inr (int width, dec (slice (buf_view b) (nat off) width)) else Inl OUT_OF_BOUNDS)"
begin

lemma write_cases:
  assumes "wf_buf b"
  obtains (refused) "wr b off x = (-1, b)"
  | (stored) b' where "wr b off x = (int width, b')" and "wf_buf b'" and "0 \<le> off"
      and "nat off + width \<le> length (buf_view b)" and "buf_view b' = overwrite (buf_view b) (nat off) (enc x)"
proof (cases "0 \<le> fst (checked_store b off (enc x))")
  case True
  from checked_store_ok [OF assms this] show thesis
    using stored [of "store b off (enc x)"] unfolding write_checked length_enc by blast
next
  case False
  with checked_store_cases [OF assms, of off "enc x"] show thesis
    using refused unfolding write_checked by fastforce
qed

lemma write_read:
  assumes "wf_buf b"
  shows "wr b off x = (-1, b) \<or> rd (snd (wr b off x)) off = Inr (int width, x)"
  using assms
proof (cases rule: write_cases [of b off x])
  case (stored b')
  then have "slice (buf_view b') (nat off) width = enc x"
    using slice_overwrite_same [of "nat off" "enc x" "buf_view b"] by (simp add: length_enc)
  then show ?thesis using stored by (simp add: read_checked dec_enc length_enc)
qed simp

text \<open>A field elsewhere is not disturbed.\<close>

lemma write_read_other:
  assumes "wf_buf b" and "0 \<le> off'" and "off' + int width \<le> off \<or> off + int width \<le> off'"
  shows "rd (snd (wr b off x)) off' = rd b off'"
  using assms(1)
proof (cases rule: write_cases [of b off x])
  case (stored b')
  have "nat off' + width \<le> nat off \<or> nat off + width \<le> nat off'" using assms(2,3) stored(3) by linarith
  then have "slice (buf_view b') (nat off') width = slice (buf_view b) (nat off') width"
    using stored(4,5) by (simp add: slice_overwrite_other length_enc)
  then show ?thesis using stored assms(1) by (simp add: read_checked length_enc)
qed simp

end

interpretation u8_field: packet_field 1 "\<lambda>x. [x]" "\<lambda>bs. bs ! 0" write_u8 read_u8
  by unfold_locales (auto simp: write_as_checked_store read_u8_view slice_def)

interpretation le16_field: packet_field 2 "le_bytes 2" le_word write_le16 read_le16
  by unfold_locales (simp_all add: write_as_checked_store read_le16_view)

interpretation be16_field: packet_field 2 "be_bytes 2" be_word write_be16 read_be16
  by unfold_locales (simp_all add: write_as_checked_store read_be16_view)

interpretation le32_field: packet_field 4 "le_bytes 4" le_word write_le32 read_le32
  by unfold_locales (simp_all add: write_as_checked_store read_le32_view)

interpretation be32_field: packet_field 4 "be_bytes 4" be_word write_be32 read_be32
  by unfold_locales (simp_all add: write_as_checked_store read_be32_view)

interpretation ether_field: packet_field 6 octets ether_of write_ether_addr read_ether_addr
  by unfold_locales (simp_all add: write_as_checked_store read_ether_addr_view)



section \<open>Type-length-value records\<close>

text \<open>The encoding of one record, as the tx functions lay it out.\<close>

definition tlv_bytes :: "u8 \<Rightarrow> u8 list \<Rightarrow> u8 list" where
  "tlv_bytes t v = t # le_bytes 2 (of_nat (length v) :: u16) @ v"

lemma length_tlv_bytes [simp]: "length (tlv_bytes t v) = 3 + length v"
  by (simp add: tlv_bytes_def)

lemma read_tlv_append:
  assumes "wf_buf b" and "buf_view b = tlv_bytes t v @ rest" and "length v < 65536"
  shows "read_tlv b 0 = Inr (3 + int (length v), t, of_nat (length v), v)"
proof -
  have "slice (tlv_bytes t v @ rest) 1 2 = le_bytes 2 (of_nat (length v) :: u16)"
    and "slice (tlv_bytes t v @ rest) 3 (length v) = v"
    by (simp_all add: slice_def tlv_bytes_def)
  moreover have "unat (of_nat (length v) :: u16) = length v"
    and "uint (of_nat (length v) :: u16) = int (length v)"
    using assms(3) by (simp_all add: unat_of_nat uint_nat)
  ultimately show ?thesis
    using assms by (simp add: read_tlv_view Let_def tlv_bytes_def)
qed

lemma read_tlv_exact:
  assumes "wf_buf b" and "0 \<le> off" and "read_tlv b off = Inr (n, t, l, v)"
  shows "n = 3 + int (length v) \<and> nat off + nat n \<le> length (buf_view b) \<and>
    unat l = length v \<and> slice (buf_view b) (nat off) (nat n) = tlv_bytes t v"
proof -
  let ?w = "buf_view b" and ?o = "nat off"
  from assms have l: "l = le_word (slice ?w (?o + 1) 2)" and fit: "?o + 3 + unat l \<le> length ?w"
    and n: "n = 3 + uint l" and t: "t = ?w ! ?o" and v: "v = slice ?w (?o + 3) (unat l)"
    by (auto simp: read_tlv_view Let_def split: if_splits)
  from fit v have len: "length v = unat l" by simp
  from n have n': "nat n = 3 + unat l" by (simp add: nat_add_distrib)
  have "le_bytes 2 l = slice ?w (?o + 1) 2"
    using le_bytes_le_word [of "slice ?w (?o + 1) 2", where ?'a = 16] fit by (simp add: l)
  moreover have "slice ?w ?o (3 + unat l) = ?w ! ?o # slice ?w (?o + 1) 2 @ slice ?w (?o + 3) (unat l)"
    using fit slice_cons [of ?o ?w 2] by (simp add: slice_add)
  ultimately have bytes: "slice ?w ?o (nat n) = t # le_bytes 2 l @ v"
    unfolding n' t v by simp
  have l': "of_nat (length v) = l" and ul: "n = 3 + int (length v)"
    by (simp_all add: len n)
  have "slice ?w ?o (nat n) = tlv_bytes t v"
    unfolding bytes tlv_bytes_def l' ..
  moreover have "?o + nat n \<le> length ?w" using n' fit by simp
  ultimately show ?thesis
    using ul len [symmetric] by blast
qed

text \<open>\<open>read_tlv\<close> is safe and exact: on success the whole record lies inside the view,
  the returned offset advances past header and value, and type, length and value are the
  bytes found there; a record that does not fit is refused.\<close>

theorem read_tlv_sound:
  assumes "wf_buf b" and "0 \<le> off" and "read_tlv b off = Inr (n, t, l, v)"
  shows "n = 3 + int (length v) \<and> nat off + nat n \<le> length (buf_view b) \<and>
    unat l = length v \<and> slice (buf_view b) (nat off) (nat n) = tlv_bytes t v"
  using assms by (rule read_tlv_exact)

theorem read_tlv_sound_witness:
  "read_tlv (const_buf [9, 21, 2, 0, 0x34, 1, 7]) 1 = Inr (5, 21, 2, [0x34, 1]) \<and>
   slice [9, 21, 2, 0, 0x34, 1, 7] 1 5 = tlv_bytes 21 [0x34, 1]"
proof -
  have r: "read_tlv (const_buf [9, 21, 2, 0, 0x34, 1, 7]) 1 = Inr (5, 21, 2, [0x34, 1])"
    by (simp add: read_tlv_view Let_def slice_def)
  show ?thesis using read_tlv_sound [OF _ _ r] r by simp
qed

lemma read_tlv_progress:
  "wf_buf b \<Longrightarrow> read_tlv b 0 = Inr (n, t, l, v) \<Longrightarrow> 3 \<le> n \<and> n \<le> b_len b"
  using read_tlv_exact [of b 0 n t l v] by (auto simp: length_buf_view wf_buf_def)

text \<open>\<open>read_int_string\<close> never stores more than \<open>length\<close> bytes (and the trailing zero)
  into its destination, whatever length byte the sender claims, and what it stores is the
  prefix of the bytes that follow the length byte.\<close>

theorem read_int_string_bounded:
  assumes "wf_buf b" and "0 \<le> off" and "0 \<le> n" and "n < 256"
    and "read_int_string b off n = Inr (r, str)"
  shows "int (length str) \<le> n \<and> r = int (length str) + 1 \<and>
    int (length str) = min n (uint (buf_view b ! nat off)) \<and>
    str = slice (buf_view b) (nat off + 1) (length str)"
proof -
  let ?l = "buf_view b ! nat off"
  let ?l1 = "if uint ?l > n then word_of_int n else ?l :: u8"
  have u: "uint ?l1 = min n (uint ?l)"
    using assms(3,4) by (auto simp: uint_word_of_int min_def)
  have "nat (off + 1) = nat off + 1" using assms(2) by linarith
  with assms have "str = slice (buf_view b) (nat off + 1) (nat (uint ?l1))"
    and "r = uint ?l1 + 1" and "nat off + 1 + nat (uint ?l1) \<le> length (buf_view b)"
    by (auto simp: read_int_string_def read_views Let_def split: if_splits)
  moreover from this have "length str = nat (uint ?l1)" by simp
  ultimately show ?thesis
    using u assms(3) by (metis int_nat_eq min.cobounded1 uint_nonnegative)
qed

theorem read_int_string_bounded_witness:
  "read_int_string (const_buf [0, 200, 65, 66, 67]) 1 2 = Inr (3, [65, 66])"
proof -
  have r: "read_int_string (const_buf [0, 200, 65, 66, 67]) 1 2 = Inr (3, [65, 66])"
    by (simp add: read_int_string_def read_views Let_def slice_def)
  show ?thesis using read_int_string_bounded [OF _ _ _ _ r] r by simp
qed

end
