(* ===== verification/Radiotap.thy ===== *)
theory Radiotap
  imports Prelude
begin

text \<open>
  radiotap.c: the iterator over the arguments of a radiotap header. Pointers into the header
  are offsets from its start; \<open>_arg\<close> and \<open>_next_ns_data\<close> are kept as machine words because
  the code compares and aligns them with \<open>unsigned long\<close> arithmetic. \<open>h\<close> is the memory of
  the frame from the header on; a read outside of it makes the result \<open>None\<close>. The safety
  lemmas show that this does not happen.
\<close>

named_theorems rt_defs \<open>definitions of the iterator step\<close>

section \<open>The tables\<close>

abbreviation IEEE80211_RADIOTAP_TSFT :: nat where "IEEE80211_RADIOTAP_TSFT \<equiv> 0"
abbreviation IEEE80211_RADIOTAP_FLAGS :: nat where "IEEE80211_RADIOTAP_FLAGS \<equiv> 1"
abbreviation IEEE80211_RADIOTAP_DBM_ANTSIGNAL :: nat where "IEEE80211_RADIOTAP_DBM_ANTSIGNAL \<equiv> 5"
abbreviation IEEE80211_RADIOTAP_RADIOTAP_NAMESPACE :: nat where
  "IEEE80211_RADIOTAP_RADIOTAP_NAMESPACE \<equiv> 29"
abbreviation IEEE80211_RADIOTAP_VENDOR_NAMESPACE :: nat where
  "IEEE80211_RADIOTAP_VENDOR_NAMESPACE \<equiv> 30"
abbreviation IEEE80211_RADIOTAP_EXT :: nat where "IEEE80211_RADIOTAP_EXT \<equiv> 31"

text \<open>Alignment and size of the arguments 0 to 22; 18 has no entry and is zero.\<close>

definition rtap_namespace_sizes :: "(nat \<times> nat) list" where
  "rtap_namespace_sizes =
     [(8, 8), (1, 1), (1, 1), (2, 4), (2, 2), (1, 1), (1, 1), (2, 2), (2, 2), (2, 2), (1, 1), (1, 1),
      (1, 1), (1, 1), (2, 2), (2, 2), (1, 1), (1, 1), (0, 0), (1, 3), (4, 8), (2, 12), (8, 12)]"

record rt_namespace =
  ns_align_size :: "(nat \<times> nat) list"
  ns_oui :: u32
  ns_subns :: u8

text \<open>\<open>current_namespace\<close>: NULL, the radiotap namespace, or a registered vendor namespace.\<close>

datatype rt_current = NS_Null | NS_Radiotap | NS_Vendor rt_namespace

fun current_sizes :: "rt_current \<Rightarrow> (nat \<times> nat) list" where
  "current_sizes NS_Null = []"
| "current_sizes NS_Radiotap = rtap_namespace_sizes"
| "current_sizes (NS_Vendor ns) = ns_align_size ns"

record rt_iterator =
  rt_vns :: "rt_namespace list option"
  rt_current_namespace :: rt_current
  rt_arg :: ulong
  rt_next_ns_data :: ulong
  rt_next_bitmap :: nat
  rt_this_arg :: ulong
  rt_this_arg_index :: nat
  rt_this_arg_size :: nat
  rt_is_radiotap_ns :: bool
  rt_max_length :: nat
  rt_arg_index :: nat
  rt_bitmap_shifter :: u32
  rt_reset_on_ext :: bool

datatype rt_status = RT_HIT | RT_ENOENT | RT_EINVAL

fun rt_code :: "rt_status \<Rightarrow> int" where
  "rt_code RT_HIT = 0"
| "rt_code RT_ENOENT = -2"
| "rt_code RT_EINVAL = -22"

section \<open>Initialisation\<close>

text \<open>An unaligned read of \<open>n\<close> bytes.\<close>

definition rt_read :: "u8 list \<Rightarrow> nat \<Rightarrow> nat \<Rightarrow> u8 list option" where
  "rt_read h off n = (if off + n \<le> length h then Some (slice h off n) else None)"

definition get_unaligned_le32 :: "u8 list \<Rightarrow> nat \<Rightarrow> u32 option" where
  "get_unaligned_le32 h off = map_option le_word (rt_read h off 4)"

definition get_unaligned_le16 :: "u8 list \<Rightarrow> nat \<Rightarrow> u16 option" where
  "get_unaligned_le16 h off = map_option le_word (rt_read h off 2)"

text \<open>The loop over extended bitmaps: \<open>Some None\<close> is the result \<open>-EINVAL\<close>.\<close>

function rt_skip_ext :: "u8 list \<Rightarrow> nat \<Rightarrow> nat \<Rightarrow> nat option option" where
  "rt_skip_ext h max_len arg =
     (case get_unaligned_le32 h arg of
        None \<Rightarrow> None
      | Some w \<Rightarrow>
          if bit w IEEE80211_RADIOTAP_EXT then
            (if arg + 4 + 4 > max_len then Some None else rt_skip_ext h max_len (arg + 4))
          else Some (Some (arg + 4)))"
  by pat_completeness auto
termination
  by (relation "measure (\<lambda>(h, max_len, arg). length h - arg)")
    (auto simp: get_unaligned_le32_def rt_read_def split: if_splits)

declare rt_skip_ext.simps [simp del]

text \<open>\<open>mem\<close> is the iterator before: \<open>_next_ns_data\<close> and the \<open>this_arg\<close> fields stay as
  they are.\<close>

definition ieee80211_radiotap_iterator_init ::
  "rt_iterator \<Rightarrow> u8 list \<Rightarrow> int \<Rightarrow> rt_namespace list option \<Rightarrow> (rt_status \<times> rt_iterator) option" where
  "ieee80211_radiotap_iterator_init mem h max_length vns =
     (if max_length < 8 then Some (RT_EINVAL, mem)
      else case (rt_read h 0 1, get_unaligned_le16 h 2, get_unaligned_le32 h 4) of
        (Some version, Some it_len, Some it_present) \<Rightarrow>
          if version \<noteq> [0] then Some (RT_EINVAL, mem)
          else if max_length < uint it_len then Some (RT_EINVAL, mem)
          else
            let it = mem\<lparr>rt_max_length := unat it_len, rt_arg_index := 0,
                  rt_bitmap_shifter := it_present, rt_arg := 8, rt_reset_on_ext := False,
                  rt_next_bitmap := 8, rt_vns := vns, rt_current_namespace := NS_Radiotap,
                  rt_is_radiotap_ns := True\<rparr>
            in if bit it_present IEEE80211_RADIOTAP_EXT then
                 (if 8 + 4 > unat it_len then Some (RT_EINVAL, it)
                  else case rt_skip_ext h (unat it_len) 8 of
                    None \<Rightarrow> None
                  | Some None \<Rightarrow> Some (RT_EINVAL, it)
                  | Some (Some arg) \<Rightarrow>
                      Some (RT_HIT, it\<lparr>rt_arg := of_nat arg, rt_this_arg := of_nat arg\<rparr>))
               else Some (RT_HIT, it\<lparr>rt_this_arg := 8\<rparr>)
      | _ \<Rightarrow> None)"

section \<open>One round of the iterator\<close>

definition find_ns :: "rt_iterator \<Rightarrow> u32 \<Rightarrow> u8 \<Rightarrow> rt_iterator" where
  "find_ns it oui subns =
     it\<lparr>rt_current_namespace :=
       (case rt_vns it of
          None \<Rightarrow> NS_Null
        | Some nss \<Rightarrow>
            (case find (\<lambda>ns. ns_oui ns = oui \<and> ns_subns ns = subns) nss of
               None \<Rightarrow> NS_Null | Some ns \<Rightarrow> NS_Vendor ns))\<rparr>"

datatype rt_round = Continue rt_iterator | Return rt_status rt_iterator

text \<open>The label \<open>next_entry\<close>.\<close>

definition next_entry :: "rt_iterator \<Rightarrow> rt_iterator" where
  "next_entry it = it\<lparr>rt_bitmap_shifter := drop_bit 1 (rt_bitmap_shifter it),
     rt_arg_index := rt_arg_index it + 1\<rparr>"

text \<open>The switch that determines alignment and size: \<open>None\<close> is the result \<open>-ENOENT\<close>.\<close>

definition rt_align_size :: "rt_iterator \<Rightarrow> (nat \<times> nat) option" where
  "rt_align_size it =
     (let idx = rt_arg_index it mod 32; sizes = current_sizes (rt_current_namespace it) in
      if idx = IEEE80211_RADIOTAP_RADIOTAP_NAMESPACE \<or> idx = IEEE80211_RADIOTAP_EXT then Some (1, 0)
      else if idx = IEEE80211_RADIOTAP_VENDOR_NAMESPACE then Some (2, 6)
      else if rt_current_namespace it = NS_Null \<or> rt_arg_index it \<ge> length sizes then
        (if rt_current_namespace it = NS_Radiotap then None else Some (0, 0))
      else Some (sizes ! rt_arg_index it))"

text \<open>The padding before an argument.\<close>

definition rt_pad :: "ulong \<Rightarrow> nat \<Rightarrow> ulong" where
  "rt_pad arg align =
     (let pad = arg AND (of_nat align - 1) in if pad \<noteq> 0 then arg + (of_nat align - pad) else arg)"

text \<open>The block for a vendor namespace: the iterator and the size of the argument.\<close>

definition rt_vendor :: "u8 list \<Rightarrow> rt_iterator \<Rightarrow> nat \<Rightarrow> (rt_iterator \<times> nat) option" where
  "rt_vendor h it sz =
     (case rt_read h (unat (rt_arg it)) 6 of
        None \<Rightarrow> None
      | Some bs \<Rightarrow>
          let oui = push_bit 16 (ucast (bs ! 0)) OR push_bit 8 (ucast (bs ! 1)) OR ucast (bs ! 2);
              it = find_ns it oui (bs ! 3);
              vnslen = unat (le_word (slice bs 4 2) :: u16);
              it = it\<lparr>rt_next_ns_data := rt_arg it + of_nat sz + of_nat vnslen\<rparr>
          in Some (it, if rt_current_namespace it = NS_Null then sz + vnslen else sz))"

text \<open>From \<open>this_arg_index\<close> on: the argument is recorded and the special ones handled.\<close>

definition rt_take :: "u8 list \<Rightarrow> rt_iterator \<Rightarrow> nat \<Rightarrow> rt_round option" where
  "rt_take h it sz =
     (let idx = rt_arg_index it mod 32;
          it = it\<lparr>rt_this_arg_index := rt_arg_index it, rt_this_arg := rt_arg it,
                rt_this_arg_size := sz\<rparr>;
          it = it\<lparr>rt_arg := rt_arg it + of_nat sz\<rparr> in
      if unat (rt_arg it) > rt_max_length it then Some (Return RT_EINVAL it)
      else if idx = IEEE80211_RADIOTAP_VENDOR_NAMESPACE then
        (let it = it\<lparr>rt_reset_on_ext := True, rt_is_radiotap_ns := False,
               rt_this_arg_index := IEEE80211_RADIOTAP_VENDOR_NAMESPACE\<rparr>
         in Some (if rt_current_namespace it = NS_Null then Return RT_HIT (next_entry it)
                  else Continue (next_entry it)))
      else if idx = IEEE80211_RADIOTAP_RADIOTAP_NAMESPACE then
        Some (Continue (next_entry (it\<lparr>rt_reset_on_ext := True,
          rt_current_namespace := NS_Radiotap, rt_is_radiotap_ns := True\<rparr>)))
      else if idx = IEEE80211_RADIOTAP_EXT then
        (case get_unaligned_le32 h (rt_next_bitmap it) of
           None \<Rightarrow> None
         | Some w \<Rightarrow> Some (Continue (it\<lparr>rt_bitmap_shifter := w,
             rt_next_bitmap := rt_next_bitmap it + 4,
             rt_arg_index := (if rt_reset_on_ext it then 0 else rt_arg_index it + 1),
             rt_reset_on_ext := False\<rparr>)))
      else Some (Return RT_HIT (next_entry it)))"

definition rt_round_step :: "u8 list \<Rightarrow> rt_iterator \<Rightarrow> rt_round option" where
  "rt_round_step h it =
     (let idx = rt_arg_index it mod 32 in
      if idx = IEEE80211_RADIOTAP_EXT \<and> \<not> bit (rt_bitmap_shifter it) 0 then Some (Return RT_ENOENT it)
      else if \<not> bit (rt_bitmap_shifter it) 0 then Some (Continue (next_entry it))
      else case rt_align_size it of
        None \<Rightarrow> Some (Return RT_ENOENT it)
      | Some (align, sz) \<Rightarrow>
          if align = 0 then
            Some (Continue (next_entry (it\<lparr>rt_arg := rt_next_ns_data it,
              rt_current_namespace := NS_Null\<rparr>)))
          else
            let it = it\<lparr>rt_arg := rt_pad (rt_arg it) align\<rparr> in
            if idx = IEEE80211_RADIOTAP_VENDOR_NAMESPACE then
              (if unat (rt_arg it + of_nat sz) > rt_max_length it then Some (Return RT_EINVAL it)
               else case rt_vendor h it sz of
                 None \<Rightarrow> None
               | Some (it, sz) \<Rightarrow> rt_take h it sz)
            else rt_take h it sz)"

section \<open>The iterator\<close>

text \<open>Each round moves to a later bit of the bitmap or to a later bitmap of the header.\<close>

definition rt_left :: "u8 list \<Rightarrow> rt_iterator \<Rightarrow> nat" where
  "rt_left h it = 32 * (length h - rt_next_bitmap it) + (31 - rt_arg_index it mod 32)"

lemma next_entry_left:
  assumes "rt_arg_index it mod 32 \<noteq> 31"
  shows "rt_left h (next_entry it) < rt_left h it"
proof -
  have "Suc (rt_arg_index it) mod 32 = Suc (rt_arg_index it mod 32)"
    using assms by (simp add: mod_Suc)
  moreover have "rt_arg_index it mod 32 < 31" using assms by presburger
  ultimately show ?thesis by (simp add: rt_left_def next_entry_def)
qed

lemma rt_left_cong:
  "rt_next_bitmap it = rt_next_bitmap it' \<Longrightarrow> rt_arg_index it = rt_arg_index it' \<Longrightarrow>
     rt_left h it = rt_left h it'"
  by (simp add: rt_left_def)

lemma next_entry_left_upd:
  assumes "rt_arg_index it mod 32 \<noteq> 31"
    and "rt_next_bitmap it' = rt_next_bitmap it" and "rt_arg_index it' = rt_arg_index it"
  shows "rt_left h (next_entry it') < rt_left h it"
  using next_entry_left [of it' h] rt_left_cong [OF assms(2,3)] assms by simp

lemma get_le32_bound: "get_unaligned_le32 h off = Some w \<Longrightarrow> off + 4 \<le> length h"
  by (auto simp: get_unaligned_le32_def rt_read_def split: if_splits)

lemma rt_take_left:
  assumes "rt_take h it sz = Some (Continue it')"
  shows "rt_left h it' < rt_left h it"
proof -
  let ?idx = "rt_arg_index it mod 32"
  consider (entry) it2 where "it' = next_entry it2" "rt_next_bitmap it2 = rt_next_bitmap it"
      "rt_arg_index it2 = rt_arg_index it" "?idx \<noteq> 31"
    | (ext) w where "get_unaligned_le32 h (rt_next_bitmap it) = Some w" "?idx = 31"
      "rt_next_bitmap it' = rt_next_bitmap it + 4"
    using assms by (auto simp: rt_take_def Let_def split: if_splits option.splits)
  then show ?thesis
  proof cases
    case entry
    then show ?thesis using next_entry_left_upd by blast
  next
    case ext
    have "rt_arg_index it' mod 32 \<le> 31" by simp
    then show ?thesis using get_le32_bound [OF ext(1)] ext(2,3) by (simp add: rt_left_def)
  qed
qed

lemma rt_vendor_fields:
  "rt_vendor h it sz = Some (it', sz') \<Longrightarrow>
     rt_next_bitmap it' = rt_next_bitmap it \<and> rt_arg_index it' = rt_arg_index it"
  by (auto simp: rt_vendor_def find_ns_def Let_def split: option.splits)

lemma rt_align_special:
  "rt_arg_index it mod 32 = 31 \<Longrightarrow> rt_align_size it = Some (1, 0)"
  by (simp add: rt_align_size_def Let_def)

lemma rt_round_left:
  assumes "rt_round_step h it = Some (Continue it')"
  shows "rt_left h it' < rt_left h it"
proof -
  let ?idx = "rt_arg_index it mod 32"
  consider (entry) it2 where "it' = next_entry it2" "rt_next_bitmap it2 = rt_next_bitmap it"
      "rt_arg_index it2 = rt_arg_index it" "?idx \<noteq> 31"
    | (take) it2 sz where "rt_take h it2 sz = Some (Continue it')"
      "rt_next_bitmap it2 = rt_next_bitmap it" "rt_arg_index it2 = rt_arg_index it"
    using assms rt_align_special [of it]
    by (fastforce simp: rt_round_step_def Let_def split: if_splits option.splits prod.splits
        dest: rt_vendor_fields)
  then show ?thesis
  proof cases
    case entry
    then show ?thesis using next_entry_left_upd by blast
  next
    case take
    then show ?thesis using rt_take_left [OF take(1)] rt_left_cong [OF take(2,3)] by simp
  qed
qed

function ieee80211_radiotap_iterator_next ::
  "u8 list \<Rightarrow> rt_iterator \<Rightarrow> (rt_status \<times> rt_iterator) option" where
  "ieee80211_radiotap_iterator_next h it =
     (case rt_round_step h it of
        None \<Rightarrow> None
      | Some (Return st it') \<Rightarrow> Some (st, it')
      | Some (Continue it') \<Rightarrow> ieee80211_radiotap_iterator_next h it')"
  by pat_completeness auto
termination
  by (relation "measure (\<lambda>(h, it). rt_left h it)") (auto dest: rt_round_left)

declare ieee80211_radiotap_iterator_next.simps [simp del]

lemma rt_round_return_left:
  assumes "rt_round_step h it = Some (Return RT_HIT it')"
  shows "rt_left h it' < rt_left h it"
proof -
  have "\<exists>it2. it' = next_entry it2 \<and> rt_next_bitmap it2 = rt_next_bitmap it \<and>
      rt_arg_index it2 = rt_arg_index it \<and> rt_arg_index it mod 32 \<noteq> 31"
    using assms
    by (fastforce simp: rt_round_step_def rt_take_def Let_def split: if_splits option.splits prod.splits
        dest: rt_vendor_fields)
  then show ?thesis using next_entry_left_upd by blast
qed

lemma rt_next_left:
  "ieee80211_radiotap_iterator_next h it = Some (RT_HIT, it') \<Longrightarrow> rt_left h it' < rt_left h it"
proof (induction h it rule: ieee80211_radiotap_iterator_next.induct)
  case (1 h it)
  show ?case
  proof (cases "rt_round_step h it")
    case (Some r)
    show ?thesis
    proof (cases r)
      case (Continue it2)
      then have "rt_left h it' < rt_left h it2"
        using 1 Some ieee80211_radiotap_iterator_next.simps [of h it] by simp
      then show ?thesis using rt_round_left [of h it it2] Some Continue by simp
    next
      case (Return st it2)
      then show ?thesis
        using 1(2) Some rt_round_return_left [of h it it'] ieee80211_radiotap_iterator_next.simps [of h it]
        by simp
    qed
  qed (use 1(2) ieee80211_radiotap_iterator_next.simps [of h it] in simp)
qed

text \<open>All arguments a caller visits that calls the iterator until it stops returning 0.\<close>

function rt_all :: "u8 list \<Rightarrow> rt_iterator \<Rightarrow> (rt_iterator list \<times> rt_status) option" where
  "rt_all h it =
     (case ieee80211_radiotap_iterator_next h it of
        None \<Rightarrow> None
      | Some (RT_HIT, it') \<Rightarrow> map_option (\<lambda>(hits, st). (it' # hits, st)) (rt_all h it')
      | Some (st, it') \<Rightarrow> Some ([], st))"
  by pat_completeness auto
termination
  by (relation "measure (\<lambda>(h, it). rt_left h it)") (auto dest: rt_next_left)

declare rt_all.simps [simp del]

section \<open>Memory safety\<close>

text \<open>The chain of extended bitmaps from \<open>nb\<close> on lies inside the header.\<close>

inductive rt_chain :: "u8 list \<Rightarrow> nat \<Rightarrow> nat \<Rightarrow> bool" for h max_len where
  rt_chain: "nb + 4 \<le> max_len \<Longrightarrow> get_unaligned_le32 h nb = Some w \<Longrightarrow>
    (bit w 31 \<Longrightarrow> rt_chain h max_len (nb + 4)) \<Longrightarrow> rt_chain h max_len nb"

inductive_cases rt_chainE: "rt_chain h max_len nb"

abbreviation rt_limit :: nat where "rt_limit \<equiv> 2 ^ 32 - 2 ^ 18"

definition rt_inv :: "u8 list \<Rightarrow> rt_iterator \<Rightarrow> bool" where
  "rt_inv h it \<longleftrightarrow> rt_max_length it \<le> length h \<and> rt_max_length it < 65536 \<and> rt_vns it = None \<and>
     unat (rt_arg it) \<le> rt_limit \<and> unat (rt_next_ns_data it) \<le> rt_limit \<and>
     (rt_current_namespace it = NS_Null \<or> rt_current_namespace it = NS_Radiotap) \<and>
     (bit (rt_bitmap_shifter it) (31 - rt_arg_index it mod 32) \<longrightarrow>
        rt_chain h (rt_max_length it) (rt_next_bitmap it))"

text \<open>What the caller may rely on when the iterator returns 0.\<close>

definition rt_hit_ok :: "rt_iterator \<Rightarrow> bool" where
  "rt_hit_ok it \<longleftrightarrow> unat (rt_this_arg it) + rt_this_arg_size it \<le> rt_max_length it \<and>
     (rt_is_radiotap_ns it \<longrightarrow>
        rt_this_arg_index it < length rtap_namespace_sizes \<and>
        rt_this_arg_size it = snd (rtap_namespace_sizes ! rt_this_arg_index it) \<and>
        0 < rt_this_arg_size it \<and>
        unat (rt_this_arg it) mod fst (rtap_namespace_sizes ! rt_this_arg_index it) = 0)"

lemma next_entry_inv:
  assumes "rt_inv h it" and "rt_arg_index it mod 32 \<noteq> 31"
  shows "rt_inv h (next_entry it)"
proof -
  have "Suc (rt_arg_index it) mod 32 = Suc (rt_arg_index it mod 32)"
    using assms(2) by (simp add: mod_Suc)
  moreover have "rt_arg_index it mod 32 < 31" using assms(2) by presburger
  then have "Suc (31 - Suc (rt_arg_index it mod 32)) = 31 - rt_arg_index it mod 32" by simp
  ultimately show ?thesis
    using assms(1) by (simp add: rt_inv_def next_entry_def bit_drop_bit_eq)
qed

lemma unat_add_small: "unat a + n < 2 ^ 32 \<Longrightarrow> unat (a + of_nat n) = unat a + n" for a :: ulong
  by (simp add: unat_word_ariths unat_word_of_nat)

definition align_up :: "nat \<Rightarrow> nat \<Rightarrow> nat" where
  "align_up off align = (if off mod align = 0 then off else off + (align - off mod align))"

lemma rt_pad_exact:
  assumes "unat a \<le> rt_limit" and "k \<le> 3"
  shows "unat (rt_pad a (2 ^ k)) = align_up (unat a) (2 ^ k)"
proof -
  let ?p = "a AND (of_nat (2 ^ k) - 1)"
  have "(of_nat (2 ^ k) - 1 :: ulong) = mask k" by (simp add: mask_eq_exp_minus_1)
  then have p: "unat ?p = unat a mod 2 ^ k"
    by (simp only: take_bit_eq_mask [symmetric] unsigned_take_bit_eq) (simp only: take_bit_eq_mod)
  have k8: "(2 :: nat) ^ k \<le> 8" using power_increasing [OF assms(2), of "2 :: nat"] by simp
  show ?thesis
  proof (cases "?p = 0")
    case True
    then have "unat a mod 2 ^ k = 0" using p by simp
    then show ?thesis using True by (simp add: rt_pad_def align_up_def Let_def)
  next
    case False
    then have nz: "unat a mod 2 ^ k \<noteq> 0" using p by (metis unsigned_eq_0_iff)
    have lt: "unat ?p < 2 ^ k" using p by simp
    have u: "unat (of_nat (2 ^ k) :: ulong) = 2 ^ k"
      using k8 by (simp only: unat_word_of_nat) simp
    have "?p \<le> of_nat (2 ^ k)" using lt u by (simp add: word_le_nat_alt)
    then have "unat (of_nat (2 ^ k) - ?p) = 2 ^ k - unat a mod 2 ^ k"
      using u p by (simp add: unat_sub)
    then have "unat (a + (of_nat (2 ^ k) - ?p)) = unat a + (2 ^ k - unat a mod 2 ^ k)"
      using assms(1) k8 by (simp add: unat_word_ariths)
    then show ?thesis using False nz by (simp add: rt_pad_def align_up_def Let_def)
  qed
qed

lemma align_up_props:
  assumes "0 < align"
  shows "off \<le> align_up off align" and "align_up off align \<le> off + align"
    and "align_up off align mod align = 0"
proof -
  have "(off + (align - off mod align)) mod align = 0"
  proof -
    have "off mod align < align" using assms by simp
    then have "off + (align - off mod align) = align * (off div align) + align"
      using mult_div_mod_eq [of align off] by linarith
    then show ?thesis by simp
  qed
  then show "align_up off align mod align = 0" by (simp add: align_up_def)
qed (auto simp: align_up_def)

lemma rt_pad_aligned:
  assumes "unat a \<le> rt_limit" and "k \<le> 3"
  shows "unat a \<le> unat (rt_pad a (2 ^ k)) \<and> unat (rt_pad a (2 ^ k)) \<le> unat a + 2 ^ k \<and>
    unat (rt_pad a (2 ^ k)) mod 2 ^ k = 0"
  unfolding rt_pad_exact [OF assms] using align_up_props [of "2 ^ k" "unat a"] by simp

text \<open>The table: every entry but number 18 has a power of two as its alignment.\<close>

lemma rtap_sizes:
  assumes "i < length rtap_namespace_sizes" and "rtap_namespace_sizes ! i = (align, sz)" and "align \<noteq> 0"
  shows "(\<exists>k\<le>3. align = 2 ^ k) \<and> 0 < sz \<and> sz \<le> 12"
proof -
  have "list_all (\<lambda>(al, sz). al = 0 \<or> (al = 2 ^ 0 \<or> al = 2 ^ 1 \<or> al = 2 ^ 2 \<or> al = 2 ^ 3) \<and> 0 < sz \<and> sz \<le> 12)
      rtap_namespace_sizes"
    by (simp add: rtap_namespace_sizes_def)
  then have "align = 0 \<or> (align = 2 ^ 0 \<or> align = 2 ^ 1 \<or> align = 2 ^ 2 \<or> align = 2 ^ 3) \<and> 0 < sz \<and> sz \<le> 12"
    using assms(1,2) by (auto simp: list_all_length)
  with assms(3) have sz: "0 < sz" "sz \<le> 12"
    and "align = 2 ^ 0 \<or> align = 2 ^ 1 \<or> align = 2 ^ 2 \<or> align = 2 ^ 3" by blast+
  then obtain k :: nat where "align = 2 ^ k" and "k \<in> {0, 1, 2, 3}" by blast
  then show ?thesis using sz by auto
qed

lemma rt_take_safe:
  assumes inv: "rt_max_length it \<le> length h" "rt_max_length it < 65536" "rt_vns it = None"
    and arg: "unat (rt_arg it) \<le> rt_limit + 16" and next_ns: "unat (rt_next_ns_data it) \<le> rt_limit"
    and ns: "rt_current_namespace it = NS_Null \<or> rt_current_namespace it = NS_Radiotap"
    and chain: "bit (rt_bitmap_shifter it) (31 - rt_arg_index it mod 32) \<Longrightarrow>
      rt_chain h (rt_max_length it) (rt_next_bitmap it)"
    and bit0: "bit (rt_bitmap_shifter it) 0" and sz: "sz \<le> 65541"
    and field: "rt_arg_index it mod 32 \<notin> {29, 30, 31} \<Longrightarrow>
      rt_arg_index it < length rtap_namespace_sizes \<and> 0 < sz \<and>
      sz = snd (rtap_namespace_sizes ! rt_arg_index it) \<and>
      unat (rt_arg it) mod fst (rtap_namespace_sizes ! rt_arg_index it) = 0"
  shows "case rt_take h it sz of None \<Rightarrow> False
    | Some (Continue it') \<Rightarrow> rt_inv h it'
    | Some (Return st it') \<Rightarrow> st = RT_HIT \<longrightarrow> rt_inv h it' \<and> rt_hit_ok it'"
proof -
  let ?idx = "rt_arg_index it mod 32"
  let ?it = "it\<lparr>rt_this_arg_index := rt_arg_index it, rt_this_arg := rt_arg it,
    rt_this_arg_size := sz, rt_arg := rt_arg it + of_nat sz\<rparr>"
  have fin_eq: "unat (rt_arg it + of_nat sz) = unat (rt_arg it) + sz"
    using arg sz by (intro unat_add_small) simp
  show ?thesis
  proof (cases "unat (rt_arg it) + sz \<le> rt_max_length it")
    case False
    then show ?thesis by (simp add: rt_take_def Let_def fin_eq)
  next
    case True
    have base: "rt_inv h ?it"
      using inv next_ns ns chain True fin_eq by (simp add: rt_inv_def)
    have entry: "rt_inv h (next_entry it')"
      if "rt_inv h it'" "rt_arg_index it' = rt_arg_index it" "?idx \<noteq> 31" for it'
      using that by (intro next_entry_inv) simp_all
    consider "?idx = 30" | "?idx = 29" | "?idx = 31" | "?idx \<notin> {29, 30, 31}" by blast
    then show ?thesis
    proof cases
      case 1
      have "rt_inv h (next_entry (?it\<lparr>rt_reset_on_ext := True, rt_is_radiotap_ns := False,
          rt_this_arg_index := 30\<rparr>))"
        by (rule entry) (use base 1 in \<open>simp_all add: rt_inv_def\<close>)
      then show ?thesis
        using 1 True by (simp add: rt_take_def Let_def fin_eq rt_hit_ok_def next_entry_def)
    next
      case 2
      have "rt_inv h (next_entry (?it\<lparr>rt_reset_on_ext := True,
          rt_current_namespace := NS_Radiotap, rt_is_radiotap_ns := True\<rparr>))"
        by (rule entry) (use base 2 in \<open>simp_all add: rt_inv_def\<close>)
      then show ?thesis using 2 True by (simp add: rt_take_def Let_def fin_eq)
    next
      case 3
      then have "rt_chain h (rt_max_length it) (rt_next_bitmap it)" using chain bit0 by simp
      then obtain w where w: "get_unaligned_le32 h (rt_next_bitmap it) = Some w"
        and more: "bit w 31 \<Longrightarrow> rt_chain h (rt_max_length it) (rt_next_bitmap it + 4)"
        by (auto elim: rt_chainE)
      have idx0: "(if rt_reset_on_ext it then 0 else rt_arg_index it + 1) mod 32 = 0"
        using 3 by (simp add: mod_Suc)
      have "rt_inv h (?it\<lparr>rt_bitmap_shifter := w, rt_next_bitmap := rt_next_bitmap it + 4,
          rt_arg_index := (if rt_reset_on_ext it then 0 else rt_arg_index it + 1),
          rt_reset_on_ext := False\<rparr>)"
        using base more idx0 by (simp add: rt_inv_def)
      then show ?thesis
        using 3 True by (cases "rt_reset_on_ext it") (simp_all add: rt_take_def Let_def fin_eq w)
    next
      case 4
      have "rt_inv h (next_entry ?it)" by (rule entry) (use base 4 in simp_all)
      then show ?thesis
        using 4 True field by (simp add: rt_take_def Let_def fin_eq rt_hit_ok_def next_entry_def)
    qed
  qed
qed

lemma rt_round_safe:
  assumes inv: "rt_inv h it"
  shows "case rt_round_step h it of None \<Rightarrow> False
    | Some (Continue it') \<Rightarrow> rt_inv h it'
    | Some (Return st it') \<Rightarrow> st = RT_HIT \<longrightarrow> rt_inv h it' \<and> rt_hit_ok it'"
proof -
  let ?idx = "rt_arg_index it mod 32"
  note I = inv [unfolded rt_inv_def]
  consider (absent) "\<not> bit (rt_bitmap_shifter it) 0"
    | (stop) "bit (rt_bitmap_shifter it) 0" "rt_align_size it = None"
    | (skip) sz where "bit (rt_bitmap_shifter it) 0" "rt_align_size it = Some (0, sz)"
    | (arg) align sz where "bit (rt_bitmap_shifter it) 0" "rt_align_size it = Some (align, sz)" "align \<noteq> 0"
    by (cases "rt_align_size it") auto
  then show ?thesis
  proof cases
    case absent
    then show ?thesis
      using next_entry_inv [OF inv] by (simp add: rt_round_step_def Let_def)
  next
    case stop
    then show ?thesis by (simp add: rt_round_step_def Let_def)
  next
    case skip
    then have "?idx \<noteq> 31" using rt_align_special [of it] by auto
    moreover have "rt_inv h (it\<lparr>rt_arg := rt_next_ns_data it, rt_current_namespace := NS_Null\<rparr>)"
      using I by (simp add: rt_inv_def)
    ultimately show ?thesis
      using skip by (simp add: rt_round_step_def Let_def next_entry_inv)
  next
    case arg
    let ?a = "rt_pad (rt_arg it) align"
    have field: "rt_arg_index it < length rtap_namespace_sizes \<and>
        rtap_namespace_sizes ! rt_arg_index it = (align, sz)" if "?idx \<notin> {29, 30, 31}"
      using arg that I by (auto simp: rt_align_size_def Let_def split: if_splits)
    have special: "align = 1 \<and> sz = 0" if "?idx = 29 \<or> ?idx = 31"
      using arg that by (auto simp: rt_align_size_def Let_def)
    have vendor: "align = 2 \<and> sz = 6" if "?idx = 30"
      using arg that by (auto simp: rt_align_size_def Let_def)
    obtain k where k: "k \<le> 3" "align = 2 ^ k" and sz: "sz \<le> 12" and pos: "?idx \<notin> {29, 30, 31} \<longrightarrow> 0 < sz"
    proof (cases "?idx \<in> {29, 30, 31}")
      case True
      then show thesis using special vendor that [of 0] that [of 1] by auto
    next
      case False
      then show thesis using rtap_sizes [OF _ _ arg(3)] field that by blast
    qed
    have a: "unat ?a \<le> rt_limit + 8" "unat ?a mod align = 0"
      using rt_pad_aligned [of "rt_arg it" k] I k power_increasing [OF k(1), of "2 :: nat"] by auto
    show ?thesis
    proof (cases "?idx = 30")
      case False
      have "case rt_take h (it\<lparr>rt_arg := ?a\<rparr>) sz of None \<Rightarrow> False
        | Some (Continue it') \<Rightarrow> rt_inv h it'
        | Some (Return st it') \<Rightarrow> st = RT_HIT \<longrightarrow> rt_inv h it' \<and> rt_hit_ok it'"
        by (rule rt_take_safe) (use I a sz arg(1) field pos in auto)
      then show ?thesis using arg False by (simp add: rt_round_step_def Let_def)
    next
      case True
      have sz6: "sz = 6" using vendor True by simp
      have e: "unat (?a + of_nat sz) = unat ?a + 6"
        using a(1) sz6 by (subst unat_add_small) simp_all
      show ?thesis
      proof (cases "unat ?a + 6 \<le> rt_max_length it")
        case fits: True
        then have "rt_read h (unat ?a) 6 = Some (slice h (unat ?a) 6)"
          using I by (simp add: rt_read_def)
        then obtain it2 sz2 where v: "rt_vendor h (it\<lparr>rt_arg := ?a\<rparr>) sz = Some (it2, sz2)"
          by (auto simp: rt_vendor_def Let_def)
        define n where "n = unat (le_word (slice (slice h (unat ?a) 6) 4 2) :: u16)"
        have n: "n < 65536" unfolding n_def using unat_bound [where ?'a = 16] by simp
        have it2: "it2 = it\<lparr>rt_arg := ?a, rt_current_namespace := NS_Null,
            rt_next_ns_data := ?a + of_nat sz + of_nat n\<rparr>" and sz2: "sz2 = 6 + n"
          using v I sz6 fits
          by (auto simp: rt_vendor_def rt_read_def find_ns_def Let_def n_def)
        have next_ns: "unat (?a + of_nat sz + of_nat n) = unat ?a + 6 + n"
          using e n fits I by (subst unat_add_small) auto
        have "case rt_take h it2 sz2 of None \<Rightarrow> False
          | Some (Continue it') \<Rightarrow> rt_inv h it'
          | Some (Return st it') \<Rightarrow> st = RT_HIT \<longrightarrow> rt_inv h it' \<and> rt_hit_ok it'"
          by (rule rt_take_safe) (use I a(1) n fits next_ns True arg(1) in \<open>auto simp: it2 sz2\<close>)
        then show ?thesis
          using arg True fits v e by (simp add: rt_round_step_def Let_def)
      qed (use arg True e in \<open>simp add: rt_round_step_def Let_def\<close>)
    qed
  qed
qed


lemma rt_next_safe:
  "rt_inv h it \<Longrightarrow> \<exists>st it'. ieee80211_radiotap_iterator_next h it = Some (st, it') \<and>
     (st = RT_HIT \<longrightarrow> rt_inv h it' \<and> rt_hit_ok it')"
proof (induction h it rule: ieee80211_radiotap_iterator_next.induct)
  case (1 h it)
  note safe = rt_round_safe [OF 1(2)]
  then obtain r where r: "rt_round_step h it = Some r" by (cases "rt_round_step h it") auto
  show ?case
  proof (cases r)
    case (Continue it2)
    then have "rt_inv h it2" using safe r by simp
    then show ?thesis
      using 1(1) [OF r Continue] r Continue ieee80211_radiotap_iterator_next.simps [of h it] by simp
  next
    case (Return st it2)
    then show ?thesis
      using safe r ieee80211_radiotap_iterator_next.simps [of h it] by simp
  qed
qed

lemma rt_all_safe:
  "rt_inv h it \<Longrightarrow> \<exists>hits st. rt_all h it = Some (hits, st) \<and> st \<noteq> RT_HIT \<and>
     (\<forall>hit \<in> set hits. rt_hit_ok hit \<and> rt_max_length hit \<le> length h)"
proof (induction h it rule: rt_all.induct)
  case (1 h it)
  obtain st it' where n: "ieee80211_radiotap_iterator_next h it = Some (st, it')"
    and ok: "st = RT_HIT \<longrightarrow> rt_inv h it' \<and> rt_hit_ok it'"
    using rt_next_safe [OF 1(2)] by blast
  show ?case
  proof (cases "st = RT_HIT")
    case True
    then have "rt_inv h it'" and hit: "rt_hit_ok it'" using ok by simp_all
    then obtain hits st' where "rt_all h it' = Some (hits, st')" "st' \<noteq> RT_HIT"
      "\<forall>hit \<in> set hits. rt_hit_ok hit \<and> rt_max_length hit \<le> length h"
      using 1(1) [OF n refl True] by blast
    moreover have "rt_max_length it' \<le> length h" using \<open>rt_inv h it'\<close> by (simp add: rt_inv_def)
    ultimately show ?thesis using n True hit rt_all.simps [of h it] by simp
  next
    case False
    then have "rt_all h it = Some ([], st)"
      using n rt_all.simps [of h it] by (cases st) simp_all
    then show ?thesis using False by simp
  qed
qed

lemma rt_skip_ext_safe:
  "arg + 4 \<le> max_len \<Longrightarrow> max_len \<le> length h \<Longrightarrow> rt_skip_ext h max_len arg \<noteq> None \<and>
     (\<forall>a. rt_skip_ext h max_len arg = Some (Some a) \<longrightarrow> rt_chain h max_len arg \<and> a \<le> max_len)"
proof (induction h max_len arg rule: rt_skip_ext.induct)
  case (1 h max_len arg)
  then obtain w where w: "get_unaligned_le32 h arg = Some w"
    by (auto simp: get_unaligned_le32_def rt_read_def)
  consider (more) "bit w 31" "arg + 4 + 4 \<le> max_len" | (refuse) "bit w 31" "max_len < arg + 4 + 4"
    | (last) "\<not> bit w 31"
    by fastforce
  then show ?case
  proof cases
    case more
    then show ?thesis
      using 1(1) [OF w] 1(2,3) w rt_skip_ext.simps [of h max_len arg]
      by (auto intro: rt_chain)
  next
    case refuse
    then show ?thesis using w rt_skip_ext.simps [of h max_len arg] by simp
  next
    case last
    then show ?thesis
      using 1(2) w rt_skip_ext.simps [of h max_len arg] by (auto intro: rt_chain)
  qed
qed

lemma rt_init_safe:
  assumes "n = int (length h)" and "unat (rt_next_ns_data mem) \<le> rt_limit"
  shows "\<exists>st it. ieee80211_radiotap_iterator_init mem h n None = Some (st, it) \<and>
    (st = RT_HIT \<longrightarrow> rt_inv h it \<and> 8 \<le> length h \<and>
       rt_max_length it = unat (le_word (slice h 2 2) :: u16))"
proof (cases "n < 8")
  case True
  then show ?thesis by (simp add: ieee80211_radiotap_iterator_init_def)
next
  case False
  then have len: "8 \<le> length h" using assms(1) by simp
  define l where "l = (le_word (slice h 2 2) :: u16)"
  define w where "w = (le_word (slice h 4 4) :: u32)"
  have r: "rt_read h 0 1 = Some (slice h 0 1)" "get_unaligned_le16 h 2 = Some l"
    "get_unaligned_le32 h 4 = Some w"
    using len by (simp_all add: rt_read_def get_unaligned_le16_def get_unaligned_le32_def l_def w_def)
  have l: "unat l < 65536" using unat_bound [of l] by simp
  have fit: "unat l \<le> length h" if "\<not> n < uint l"
  proof -
    have "int (unat l) = uint l" by simp
    then show ?thesis using that assms(1) by linarith
  qed
  let ?it = "mem\<lparr>rt_max_length := unat l, rt_arg_index := 0,
    rt_bitmap_shifter := w, rt_arg := 8, rt_reset_on_ext := False,
    rt_next_bitmap := 8, rt_vns := None, rt_current_namespace := NS_Radiotap,
    rt_is_radiotap_ns := True\<rparr>"
  have init: "ieee80211_radiotap_iterator_init mem h n None =
    (if h ! 0 \<noteq> 0 \<or> n < uint l then Some (RT_EINVAL, mem)
     else if bit w 31 then
       (if unat l < 12 then Some (RT_EINVAL, ?it)
        else case rt_skip_ext h (unat l) 8 of
          None \<Rightarrow> None
        | Some None \<Rightarrow> Some (RT_EINVAL, ?it)
        | Some (Some a) \<Rightarrow> Some (RT_HIT, ?it\<lparr>rt_arg := of_nat a, rt_this_arg := of_nat a\<rparr>))
     else Some (RT_HIT, ?it\<lparr>rt_this_arg := 8\<rparr>))"
    unfolding ieee80211_radiotap_iterator_init_def r using False len by (simp add: Let_def)
  consider (bad) "h ! 0 \<noteq> 0 \<or> n < uint l" | (plain) "h ! 0 = 0" "\<not> n < uint l" "\<not> bit w 31"
    | (short) "h ! 0 = 0" "\<not> n < uint l" "bit w 31" "unat l < 12"
    | (ext) "h ! 0 = 0" "\<not> n < uint l" "bit w 31" "12 \<le> unat l"
    by linarith
  then show ?thesis
  proof cases
    case bad
    then show ?thesis by (simp add: init)
  next
    case plain
    have "rt_inv h (?it\<lparr>rt_this_arg := 8\<rparr>)"
      using plain fit l assms(2) by (simp add: rt_inv_def)
    then show ?thesis
      using plain len by (simp add: init l_def)
  next
    case short
    then show ?thesis
      by (simp add: init)
  next
    case ext
    have skip: "rt_skip_ext h (unat l) 8 \<noteq> None \<and>
        (\<forall>a. rt_skip_ext h (unat l) 8 = Some (Some a) \<longrightarrow> rt_chain h (unat l) 8 \<and> a \<le> unat l)"
      by (rule rt_skip_ext_safe) (use ext fit in auto)
    then obtain x where x: "rt_skip_ext h (unat l) 8 = Some x" by auto
    show ?thesis
    proof (cases x)
      case None
      then show ?thesis
        using ext x by (simp add: init)
    next
      case (Some a)
      then have a: "rt_chain h (unat l) 8" "a \<le> unat l" using skip x by simp_all
      then have "unat (of_nat a :: ulong) = a" using l by (simp add: unat_word_of_nat)
      then have "rt_inv h (?it\<lparr>rt_arg := of_nat a, rt_this_arg := of_nat a\<rparr>)"
        using a ext fit l assms(2) by (simp add: rt_inv_def)
      then show ?thesis
        using ext x Some len by (simp add: init l_def [symmetric])
    qed
  qed
qed


text \<open>An iterator whose memory is not initialised holds some value like this one.\<close>

definition sample_iterator :: "ulong \<Rightarrow> rt_iterator" where
  "sample_iterator garbage = \<lparr>rt_vns = None, rt_current_namespace = NS_Null, rt_arg = 0,
     rt_next_ns_data = garbage, rt_next_bitmap = 0, rt_this_arg = 0, rt_this_arg_index = 0,
     rt_this_arg_size = 0, rt_is_radiotap_ns = False, rt_max_length = 0, rt_arg_index = 0,
     rt_bitmap_shifter = 0, rt_reset_on_ext = False\<rparr>"



section \<open>The arguments of a plain header\<close>

text \<open>The layout the standard prescribes: the arguments of the set bits in order, each at the
  next offset of its alignment.\<close>

fun rt_layout :: "u32 \<Rightarrow> nat list \<Rightarrow> nat \<Rightarrow> (nat \<times> nat \<times> nat) list" where
  "rt_layout w [] off = []"
| "rt_layout w (i # is) off =
     (if bit w i then
        (let (align, sz) = rtap_namespace_sizes ! i; start = align_up off align
         in (i, start, sz) # rt_layout w is (start + sz))
      else rt_layout w is off)"

definition rt_fits :: "nat \<Rightarrow> (nat \<times> nat \<times> nat) list \<Rightarrow> bool" where
  "rt_fits max_len fs \<longleftrightarrow> list_all (\<lambda>(i, start, sz). start + sz \<le> max_len) fs"

definition rt_field :: "rt_iterator \<Rightarrow> nat \<times> nat \<times> nat" where
  "rt_field it = (rt_this_arg_index it, unat (rt_this_arg it), rt_this_arg_size it)"

lemma rt_all_continue:
  assumes "rt_round_step h it = Some (Continue it')"
  shows "rt_all h it = rt_all h it'"
  using assms rt_all.simps [of h it] rt_all.simps [of h it']
    ieee80211_radiotap_iterator_next.simps [of h it] by simp

lemma rt_all_return:
  assumes "rt_round_step h it = Some (Return st it')"
  shows "rt_all h it = (if st = RT_HIT then map_option (\<lambda>(hits, st). (it' # hits, st)) (rt_all h it')
    else Some ([], st))"
  using assms rt_all.simps [of h it] ieee80211_radiotap_iterator_next.simps [of h it]
  by (cases st) simp_all

definition rt_plain :: "u32 \<Rightarrow> nat \<Rightarrow> nat \<Rightarrow> nat \<Rightarrow> rt_iterator \<Rightarrow> bool" where
  "rt_plain w max_len k off it \<longleftrightarrow> rt_arg_index it = k \<and> rt_bitmap_shifter it = drop_bit k w \<and>
     unat (rt_arg it) = off \<and> rt_current_namespace it = NS_Radiotap \<and>
     rt_max_length it = max_len \<and> rt_is_radiotap_ns it"

lemma rt_plain_tail:
  "rt_plain w max_len k off it \<Longrightarrow> k \<le> 31 \<Longrightarrow> (\<And>i. k \<le> i \<Longrightarrow> \<not> bit w i) \<Longrightarrow>
     rt_all h it = Some ([], RT_ENOENT)"
proof (induction "31 - k" arbitrary: k it)
  case 0
  then have "rt_round_step h it = Some (Return RT_ENOENT it)"
    by (simp add: rt_round_step_def rt_plain_def bit_drop_bit_eq)
  then show ?case by (simp add: rt_all_return)
next
  case (Suc d)
  then have "k \<noteq> 31" "k < 31" by simp_all
  then have step: "rt_round_step h it = Some (Continue (next_entry it))"
    using Suc.prems by (simp add: rt_round_step_def rt_plain_def bit_drop_bit_eq Let_def)
  have "rt_plain w max_len (Suc k) off (next_entry it)"
    using Suc.prems(1) by (simp add: rt_plain_def next_entry_def drop_bit_drop_bit)
  moreover have "d = 31 - Suc k" "Suc k \<le> 31" using Suc.hyps(2) \<open>k < 31\<close> by simp_all
  moreover have "\<And>i. Suc k \<le> i \<Longrightarrow> \<not> bit w i" using Suc.prems(3) by simp
  ultimately have "rt_all h (next_entry it) = Some ([], RT_ENOENT)"
    using Suc.hyps(1) [of "Suc k" "next_entry it"] by blast
  then show ?case using step by (simp add: rt_all_continue)
qed


lemma rt_plain_absent:
  assumes "rt_plain w max_len k off it" and "k < 31" and "\<not> bit w k"
  shows "rt_all h it = rt_all h (next_entry it) \<and> rt_plain w max_len (Suc k) off (next_entry it)"
proof -
  have "rt_round_step h it = Some (Continue (next_entry it))"
    using assms by (simp add: rt_round_step_def rt_plain_def bit_drop_bit_eq Let_def)
  then show ?thesis
    using assms(1) by (simp add: rt_all_continue rt_plain_def next_entry_def drop_bit_drop_bit)
qed

lemma rt_plain_present:
  assumes plain: "rt_plain w max_len k off it" and k: "k < 23" "k \<noteq> 18" and bit: "bit w k"
    and sizes: "rtap_namespace_sizes ! k = (align, sz)" and off: "off \<le> max_len" "max_len < 65536"
    and fits: "align_up off align + sz \<le> max_len"
  shows "\<exists>it'. rt_all h it = map_option (\<lambda>(hits, st). (it' # hits, st)) (rt_all h it') \<and>
    rt_field it' = (k, align_up off align, sz) \<and> rt_is_radiotap_ns it' \<and>
    rt_plain w max_len (Suc k) (align_up off align + sz) it'"
proof -
  have len: "length rtap_namespace_sizes = 23" by (simp add: rtap_namespace_sizes_def)
  have "k \<in> {0..<23}" using k(1) by simp
  then have "align \<noteq> 0"
    using sizes k(2) by (auto simp: rtap_namespace_sizes_def atLeastLessThan_nat_numeral)
  then obtain j where j: "align = 2 ^ j" "j \<le> 3" and sz: "sz \<le> 12"
    using rtap_sizes [of k align sz] k(1) sizes len by auto
  have P: "rt_arg_index it = k" "rt_bitmap_shifter it = drop_bit k w" "unat (rt_arg it) = off"
    "rt_current_namespace it = NS_Radiotap" "rt_max_length it = max_len" "rt_is_radiotap_ns it"
    using plain by (simp_all add: rt_plain_def)
  let ?a = "rt_pad (rt_arg it) align"
  have a: "unat ?a = align_up off align"
    using rt_pad_exact [of "rt_arg it" j] P(3) j off by simp
  have e: "unat (?a + of_nat sz) = align_up off align + sz"
    using a fits off(2) by (subst unat_add_small) simp_all
  have idx: "k mod 32 = k" using k(1) by simp
  have as: "rt_align_size it = Some (align, sz)"
    using k len P sizes by (simp add: rt_align_size_def idx Let_def)
  let ?it = "it\<lparr>rt_this_arg_index := k, rt_this_arg := ?a, rt_this_arg_size := sz,
    rt_arg := ?a + of_nat sz\<rparr>"
  have "rt_round_step h it = Some (Return RT_HIT (next_entry ?it))"
    using k P bit as e fits \<open>align \<noteq> 0\<close>
    by (simp add: rt_round_step_def rt_take_def idx bit_drop_bit_eq Let_def)
  then have "rt_all h it = map_option (\<lambda>(hits, st). (next_entry ?it # hits, st))
      (rt_all h (next_entry ?it))"
    by (simp add: rt_all_return)
  then show ?thesis
    using P a e by (intro exI [of _ "next_entry ?it"])
      (simp add: rt_field_def rt_plain_def next_entry_def drop_bit_drop_bit)
qed

lemma rt_plain_all:
  "rt_plain w max_len k off it \<Longrightarrow> k \<le> 23 \<Longrightarrow> (\<And>i. 23 \<le> i \<Longrightarrow> \<not> bit w i) \<Longrightarrow> \<not> bit w 18 \<Longrightarrow>
     off \<le> max_len \<Longrightarrow> max_len < 65536 \<Longrightarrow> rt_fits max_len (rt_layout w [k..<23] off) \<Longrightarrow>
     \<exists>hits. rt_all h it = Some (hits, RT_ENOENT) \<and> map rt_field hits = rt_layout w [k..<23] off \<and>
       (\<forall>hit \<in> set hits. rt_is_radiotap_ns hit)"
proof (induction "23 - k" arbitrary: k it off)
  case 0
  then have k: "k = 23" by simp
  have "rt_all h it = Some ([], RT_ENOENT)"
    by (rule rt_plain_tail [OF 0(2)]) (use 0(4) k in simp_all)
  then show ?case using k by simp
next
  case (Suc d)
  then have k: "k < 23" and d: "d = 23 - Suc k" and upt: "[k..<23] = k # [Suc k..<23]"
    by (simp_all add: upt_conv_Cons)
  show ?case
  proof (cases "bit w k")
    case False
    note step = rt_plain_absent [OF Suc.prems(1) _ False, of h]
    have lay: "rt_layout w [k..<23] off = rt_layout w [Suc k..<23] off" using False upt by simp
    have "\<exists>hits. rt_all h (next_entry it) = Some (hits, RT_ENOENT) \<and>
        map rt_field hits = rt_layout w [Suc k..<23] off \<and> (\<forall>hit \<in> set hits. rt_is_radiotap_ns hit)"
      by (rule Suc.hyps(1) [OF d conjunct2 [OF step]])
        (use Suc.prems(3-6) Suc.prems(7) [unfolded lay] k in simp_all)
    then show ?thesis using step k lay by simp
  next
    case True
    obtain align sz where sizes: "rtap_namespace_sizes ! k = (align, sz)" by force
    have lay: "rt_layout w [k..<23] off = (k, align_up off align, sz) #
        rt_layout w [Suc k..<23] (align_up off align + sz)"
      using True sizes by (simp add: upt Let_def)
    then have fits: "align_up off align + sz \<le> max_len"
      "rt_fits max_len (rt_layout w [Suc k..<23] (align_up off align + sz))"
      using Suc.prems(7) by (simp_all add: rt_fits_def)
    have "k \<noteq> 18" using True Suc.prems(4) by blast
    then obtain it' where it': "rt_all h it = map_option (\<lambda>(hits, st). (it' # hits, st)) (rt_all h it')"
      "rt_field it' = (k, align_up off align, sz)" "rt_is_radiotap_ns it'"
      "rt_plain w max_len (Suc k) (align_up off align + sz) it'"
      using rt_plain_present [OF Suc.prems(1) k _ True sizes Suc.prems(5,6) fits(1), of h] by blast
    have "\<exists>hits. rt_all h it' = Some (hits, RT_ENOENT) \<and>
        map rt_field hits = rt_layout w [Suc k..<23] (align_up off align + sz) \<and>
        (\<forall>hit \<in> set hits. rt_is_radiotap_ns hit)"
      by (rule Suc.hyps(1) [OF d it'(4)]) (use Suc.prems(3,4,6) fits k in simp_all)
    then show ?thesis using it' lay by auto
  qed
qed

lemma radiotap_fields_correct:
  assumes "n = int (length h)" and "8 \<le> length h" and "h ! 0 = 0"
    and len: "len = unat (le_word (slice h 2 2) :: u16)" "8 \<le> len" "len \<le> length h"
    and w: "w = le_word (slice h 4 4)" "\<And>i. 23 \<le> i \<Longrightarrow> \<not> bit w i" "\<not> bit w 18"
    and fits: "rt_fits len (rt_layout w [0..<23] 8)"
  shows "\<exists>it hits. ieee80211_radiotap_iterator_init mem h n None = Some (RT_HIT, it) \<and>
    rt_all h it = Some (hits, RT_ENOENT) \<and> map rt_field hits = rt_layout w [0..<23] 8 \<and>
    (\<forall>hit \<in> set hits. rt_is_radiotap_ns hit)"
proof -
  have r: "rt_read h 0 1 = Some (slice h 0 1)" "get_unaligned_le16 h 2 = Some (le_word (slice h 2 2))"
    "get_unaligned_le32 h 4 = Some w"
    using assms(2) by (simp_all add: rt_read_def get_unaligned_le16_def get_unaligned_le32_def w(1))
  let ?it = "mem\<lparr>rt_max_length := len, rt_arg_index := 0, rt_bitmap_shifter := w, rt_arg := 8,
    rt_reset_on_ext := False, rt_next_bitmap := 8, rt_vns := None,
    rt_current_namespace := NS_Radiotap, rt_is_radiotap_ns := True, rt_this_arg := 8\<rparr>"
  have "int (unat (le_word (slice h 2 2) :: u16)) = uint (le_word (slice h 2 2) :: u16)" by simp
  then have "\<not> n < uint (le_word (slice h 2 2) :: u16)" using assms(1) len by linarith
  then have "ieee80211_radiotap_iterator_init mem h n None = Some (RT_HIT, ?it)"
    unfolding ieee80211_radiotap_iterator_init_def r
    using assms(1-3) w(2) [of 31] len by (simp add: Let_def)
  moreover have "rt_plain w len 0 8 ?it" by (simp add: rt_plain_def)
  then obtain hits where "rt_all h ?it = Some (hits, RT_ENOENT)"
    "map rt_field hits = rt_layout w [0..<23] 8" "\<forall>hit \<in> set hits. rt_is_radiotap_ns hit"
    using rt_plain_all [of w len 0 8 ?it h] w len fits unat_bound [of "le_word (slice h 2 2) :: u16"]
    by auto
  ultimately show ?thesis by blast
qed



lemma bits_above: "w < 2 ^ n \<Longrightarrow> n \<le> i \<Longrightarrow> \<not> bit (w :: u32) i"
  by (metis less_mask_eq bit_take_bit_iff not_le take_bit_eq_mask)


end
