(* ===== verification/Rx.thy ===== *)
theory Rx
  imports Wire State Radiotap Packed
begin

text \<open>
  rx.c: the receive path, from a captured frame with its radiotap header down to the records
  of action frames and the payload of data frames. A handler returns the result code with the
  structures it may have changed: on a record that is too short the fields stored before the
  failing read keep their new values, as in the code. Callbacks are recorded as events.
\<close>

section \<open>Result codes\<close>

abbreviation RX_IGNORE_PEER :: int where "RX_IGNORE_PEER \<equiv> 6"
abbreviation RX_IGNORE_RSSI :: int where "RX_IGNORE_RSSI \<equiv> 5"
abbreviation RX_IGNORE_FAILED_CRC :: int where "RX_IGNORE_FAILED_CRC \<equiv> 4"
abbreviation RX_IGNORE_NOPROMISC :: int where "RX_IGNORE_NOPROMISC \<equiv> 3"
abbreviation RX_IGNORE_FROM_SELF :: int where "RX_IGNORE_FROM_SELF \<equiv> 2"
abbreviation RX_IGNORE :: int where "RX_IGNORE \<equiv> 1"
abbreviation RX_OK :: int where "RX_OK \<equiv> 0"
abbreviation RX_UNEXPECTED_FORMAT :: int where "RX_UNEXPECTED_FORMAT \<equiv> -1"
abbreviation RX_UNEXPECTED_TYPE :: int where "RX_UNEXPECTED_TYPE \<equiv> -2"
abbreviation RX_UNEXPECTED_VALUE :: int where "RX_UNEXPECTED_VALUE \<equiv> -3"
abbreviation RX_TOO_SHORT :: int where "RX_TOO_SHORT \<equiv> -3"

abbreviation APPLE_P2P_SYNC_THRESHOLD :: int where "APPLE_P2P_SYNC_THRESHOLD \<equiv> 3"

section \<open>The records of an action frame\<close>

definition apple_p2p_handle_sync_params_tlv ::
  "apple_p2p_peer \<Rightarrow> buf \<Rightarrow> apple_p2p_state \<Rightarrow> u64 \<Rightarrow> int \<times> apple_p2p_state" where
  "apple_p2p_handle_sync_params_tlv src val state now =
     (if \<not> apple_p2p_election_is_sync_master (s_election state) (p_addr src) then (RX_IGNORE, state)
      else CHECKED_READ (read_le16 val 1) (RX_TOO_SHORT, state) (\<lambda>time_to_next_aw_master.
        CHECKED_READ (read_le16 val 29) (RX_TOO_SHORT, state) (\<lambda>aw_counter_master.
          let sync = (s_sync state)\<lparr>meas_total := meas_total (s_sync state) + 1\<rparr>;
              sync_err_tu = apple_p2p_sync_error_tu now time_to_next_aw_master aw_counter_master sync;
              sync = (if sync_err_tu > APPLE_P2P_SYNC_THRESHOLD \<or> sync_err_tu < - APPLE_P2P_SYNC_THRESHOLD
                      then sync\<lparr>meas_err := meas_err sync + 1\<rparr> else sync);
              sync = apple_p2p_sync_update_last now time_to_next_aw_master aw_counter_master sync
          in (RX_OK, state\<lparr>s_sync := sync\<rparr>))))"

text \<open>Copying one or two bytes into a channel: \<open>c\<close> is what the array held before.\<close>

fun chan_store :: "apple_p2p_chan \<Rightarrow> u8 list \<Rightarrow> apple_p2p_chan" where
  "chan_store c [] = c"
| "chan_store c [x] = Chan x (chan_val1 c)"
| "chan_store c (x # y # _) = Chan x y"

text \<open>The loop that fills the array \<open>list\<close>, whose uninitialised contents are the argument.\<close>

fun read_chan_list :: "buf \<Rightarrow> int \<Rightarrow> int \<Rightarrow> apple_p2p_chan list \<Rightarrow> apple_p2p_chan list option" where
  "read_chan_list val sz offset [] = Some []"
| "read_chan_list val sz offset (c # cs) =
     CHECKED_READ (read_bytes_copy val offset sz) None (\<lambda>bs.
       map_option (\<lambda>rest. chan_store c bs # rest) (read_chan_list val sz (offset + sz) cs))"

text \<open>\<open>stack\<close> is the uninitialised array of sixteen channels on the stack.\<close>

definition apple_p2p_handle_chanseq_tlv ::
  "apple_p2p_chan list \<Rightarrow> apple_p2p_peer \<Rightarrow> buf \<Rightarrow> apple_p2p_state \<Rightarrow> int \<times> apple_p2p_peer" where
  "apple_p2p_handle_chanseq_tlv stack src val state =
     CHECKED_READ (read_u8 val 0) (RX_TOO_SHORT, src) (\<lambda>count.
     if uint count + 1 \<noteq> int APPLE_P2P_CHANSEQ_LENGTH then (RX_UNEXPECTED_VALUE, src) else
     CHECKED_READ (read_u8 val 2) (RX_TOO_SHORT, src) (\<lambda>duplicate_count.
     if duplicate_count > 0 then (RX_UNEXPECTED_VALUE, src) else
     CHECKED_READ (read_u8 val 3) (RX_TOO_SHORT, src) (\<lambda>step_count.
     if uint step_count + 1 \<noteq> uint (presence_mode (s_sync state)) then (RX_UNEXPECTED_VALUE, src) else
     CHECKED_READ (read_le16 val 4) (RX_TOO_SHORT, src) (\<lambda>fill_channel.
     if fill_channel \<noteq> 0xffff then (RX_UNEXPECTED_VALUE, src) else
     CHECKED_READ (read_u8 val 1) (RX_TOO_SHORT, src) (\<lambda>encoding.
     let sz = apple_p2p_chan_encoding_size (uint encoding) in
     if sz < 1 then (RX_UNEXPECTED_VALUE, src) else
     case read_chan_list val sz 6 stack of
       None \<Rightarrow> (RX_TOO_SHORT, src)
     | Some list \<Rightarrow>
         (RX_OK, if p_sequence src \<noteq> list then src\<lparr>p_sequence := list\<rparr> else src))))))"

text \<open>An assignment to a field of \<open>src->election\<close>.\<close>

definition set_election ::
  "(apple_p2p_election_state \<Rightarrow> apple_p2p_election_state) \<Rightarrow> apple_p2p_peer \<Rightarrow> apple_p2p_peer" where
  "set_election f src = src\<lparr>p_election := f (p_election src)\<rparr>"

definition apple_p2p_handle_election_params_tlv ::
  "apple_p2p_peer \<Rightarrow> buf \<Rightarrow> int \<times> apple_p2p_peer" where
  "apple_p2p_handle_election_params_tlv src val =
     (if p_supports_v2 src then (0, src) else
     CHECKED_READ (read_u8 val 3) (RX_TOO_SHORT, src) (\<lambda>distance_to_master.
     let src = set_election (\<lambda>e. e\<lparr>e_height := ucast distance_to_master\<rparr>) src in
     CHECKED_READ (read_ether_addr val 5) (RX_TOO_SHORT, src) (\<lambda>master_addr.
     let src = set_election (\<lambda>e. e\<lparr>e_master_addr := master_addr\<rparr>) src in
     CHECKED_READ (read_le32 val 11) (RX_TOO_SHORT, src) (\<lambda>master_metric.
     let src = set_election (\<lambda>e. e\<lparr>e_master_metric := master_metric\<rparr>) src in
     CHECKED_READ (read_le32 val 15) (RX_TOO_SHORT, src) (\<lambda>self_metric.
     let src = set_election (\<lambda>e. e\<lparr>e_self_metric := self_metric\<rparr>) src in
     (RX_OK, src))))))"

definition apple_p2p_handle_election_params_v2_tlv ::
  "apple_p2p_peer \<Rightarrow> buf \<Rightarrow> int \<times> apple_p2p_peer" where
  "apple_p2p_handle_election_params_v2_tlv src val =
     CHECKED_READ (read_le32 val 16) (RX_TOO_SHORT, src) (\<lambda>height.
     let src = set_election (\<lambda>e. e\<lparr>e_height := height\<rparr>) src in
     CHECKED_READ (read_ether_addr val 0) (RX_TOO_SHORT, src) (\<lambda>master_addr.
     let src = set_election (\<lambda>e. e\<lparr>e_master_addr := master_addr\<rparr>) src in
     CHECKED_READ (read_ether_addr val 6) (RX_TOO_SHORT, src) (\<lambda>sync_addr.
     let src = set_election (\<lambda>e. e\<lparr>e_sync_addr := sync_addr\<rparr>) src in
     CHECKED_READ (read_le32 val 12) (RX_TOO_SHORT, src) (\<lambda>master_counter.
     let src = set_election (\<lambda>e. e\<lparr>e_master_counter := master_counter\<rparr>) src in
     CHECKED_READ (read_le32 val 20) (RX_TOO_SHORT, src) (\<lambda>master_metric.
     let src = set_election (\<lambda>e. e\<lparr>e_master_metric := master_metric\<rparr>) src in
     CHECKED_READ (read_le32 val 24) (RX_TOO_SHORT, src) (\<lambda>self_metric.
     let src = set_election (\<lambda>e. e\<lparr>e_self_metric := self_metric\<rparr>) src in
     CHECKED_READ (read_le32 val 36) (RX_TOO_SHORT, src) (\<lambda>self_counter.
     let src = set_election (\<lambda>e. e\<lparr>e_self_counter := self_counter\<rparr>) src in
     (RX_OK, src\<lparr>p_supports_v2 := True\<rparr>))))))))"

definition apple_p2p_handle_arpa_tlv :: "apple_p2p_peer \<Rightarrow> buf \<Rightarrow> int \<times> apple_p2p_peer" where
  "apple_p2p_handle_arpa_tlv src val =
     CHECKED_READ (read_int_string val 1 (int HOST_NAME_LENGTH_MAX)) (RX_TOO_SHORT, src) (\<lambda>name.
       (RX_OK, src\<lparr>p_name := name\<rparr>))"

text \<open>One optional field: \<open>skip\<close> when the flag is absent, otherwise the read and its use.\<close>

definition flag_set :: "u16 \<Rightarrow> u16 \<Rightarrow> bool" where
  "flag_set flags f \<longleftrightarrow> flags AND f \<noteq> 0"

definition apple_p2p_handle_data_path_state_tlv :: "apple_p2p_peer \<Rightarrow> buf \<Rightarrow> int \<times> apple_p2p_peer" where
  "apple_p2p_handle_data_path_state_tlv src val =
     CHECKED_READ (read_le16 val 0) (RX_TOO_SHORT, src) (\<lambda>flags.
     let
       address = (\<lambda>src offset.
         if flag_set flags APPLE_P2P_DATA_PATH_FLAG_APPLE_P2P_ADDRESS then
           CHECKED_READ (read_ether_addr val offset) (RX_TOO_SHORT, src) (\<lambda>_. (RX_OK, src))
         else (RX_OK, src));
       infra_address = (\<lambda>src offset.
         if flag_set flags APPLE_P2P_DATA_PATH_FLAG_INFRA_ADDRESS then
           CHECKED_READ (read_ether_addr val offset) (RX_TOO_SHORT, src) (\<lambda>a.
             address (src\<lparr>p_infra_addr := a\<rparr>) (offset + 6))
         else address src offset);
       infra_info = (\<lambda>src offset.
         if flag_set flags APPLE_P2P_DATA_PATH_FLAG_INFRA_INFO then
           CHECKED_READ (read_ether_addr val offset) (RX_TOO_SHORT, src) (\<lambda>_.
           CHECKED_READ (read_le16 val (offset + 6)) (RX_TOO_SHORT, src) (\<lambda>_.
             infra_address src (offset + 6 + 2)))
         else infra_address src offset);
       social = (\<lambda>src offset.
         if flag_set flags APPLE_P2P_DATA_PATH_FLAG_SOCIAL_CHANNEL_MAP then
           CHECKED_READ (read_le16 val offset) (RX_TOO_SHORT, src) (\<lambda>_. infra_info src (offset + 2))
         else infra_info src offset);
       country = (\<lambda>src offset.
         if flag_set flags APPLE_P2P_DATA_PATH_FLAG_COUNTRY_CODE then
           CHECKED_READ (read_bytes_copy val offset 3) (RX_TOO_SHORT, src) (\<lambda>cc.
             social (src\<lparr>p_country_code := cc\<rparr>) (offset + 3))
         else social src offset)
     in country src 2)"

definition apple_p2p_handle_version_tlv :: "apple_p2p_peer \<Rightarrow> buf \<Rightarrow> int \<times> apple_p2p_peer" where
  "apple_p2p_handle_version_tlv src val =
     CHECKED_READ (read_u8 val 0) (RX_TOO_SHORT, src) (\<lambda>version.
     CHECKED_READ (read_u8 val 1) (RX_TOO_SHORT, src) (\<lambda>devclass.
       (RX_OK, src\<lparr>p_version := version, p_devclass := devclass\<rparr>)))"

definition apple_p2p_handle_tlv ::
  "apple_p2p_chan list \<Rightarrow> apple_p2p_peer \<Rightarrow> u8 \<Rightarrow> buf \<Rightarrow> apple_p2p_state \<Rightarrow> u64 \<Rightarrow>
    int \<times> apple_p2p_peer \<times> apple_p2p_state" where
  "apple_p2p_handle_tlv stack src typ val state tsft =
     (if typ = APPLE_P2P_SYNCHRONIZATON_PARAMETERS_TLV then
        (let (r, state) = apple_p2p_handle_sync_params_tlv src val state tsft in (r, src, state))
      else
        let peer_only = (\<lambda>(r, src). (r, src, state)) in
        if typ = APPLE_P2P_CHAN_SEQ_TLV then peer_only (apple_p2p_handle_chanseq_tlv stack src val state)
        else if typ = APPLE_P2P_ELECTION_PARAMETERS_TLV then
          peer_only (apple_p2p_handle_election_params_tlv src val)
        else if typ = APPLE_P2P_ELECTION_PARAMETERS_V2_TLV then
          peer_only (apple_p2p_handle_election_params_v2_tlv src val)
        else if typ = APPLE_P2P_ARPA_TLV then peer_only (apple_p2p_handle_arpa_tlv src val)
        else if typ = APPLE_P2P_DATA_PATH_STATE_TLV then
          peer_only (apple_p2p_handle_data_path_state_tlv src val)
        else if typ = APPLE_P2P_VERSION_TLV then peer_only (apple_p2p_handle_version_tlv src val)
        else (RX_IGNORE, src, state))"


section \<open>Action frames\<close>

text \<open>\<open>sizeof\<close> of the packed structures.\<close>

abbreviation sizeof_action :: int where "sizeof_action \<equiv> 16"
abbreviation sizeof_llc_hdr :: int where "sizeof_llc_hdr \<equiv> 8"
abbreviation sizeof_data :: int where "sizeof_data \<equiv> 8"
abbreviation sizeof_ieee80211_hdr :: int where "sizeof_ieee80211_hdr \<equiv> 24"

text \<open>The subtype of a valid header, or \<open>-1\<close>.\<close>

definition apple_p2p_parse_action_hdr :: "buf \<Rightarrow> int" where
  "apple_p2p_parse_action_hdr frame =
     CHECKED_READ (read_bytes frame 0 sizeof_action) (-1) (\<lambda>_.
       let af = buf_data frame;
           valid = (af ! 0 = IEEE80211_VENDOR_SPECIFIC \<and> memcmp (slice af 1 3) APPLE_P2P_OUI = 0 \<and>
             af ! 4 = APPLE_P2P_TYPE \<and> af ! 5 = APPLE_P2P_VERSION_COMPAT);
           subtype = af ! 6
       in if valid \<and> (subtype = APPLE_P2P_ACTION_PSF \<or> subtype = APPLE_P2P_ACTION_MIF)
          then uint subtype else -1)"

text \<open>Calls of the callbacks \<open>peer_cb\<close> and \<open>tlv_cb\<close>.\<close>

datatype rx_event = Peer_Added apple_p2p_peer | Tlv_Seen apple_p2p_peer u8 "u8 list"

text \<open>
  The loop over the records. \<open>stack n\<close> is the uninitialised channel array of the handler
  called when \<open>n\<close> bytes are left. The first component is \<open>Some\<close> when the function returns
  from within the loop.
\<close>

function rx_tlv_loop ::
  "(int \<Rightarrow> apple_p2p_chan list) \<Rightarrow> u64 \<Rightarrow> buf \<Rightarrow> apple_p2p_peer \<Rightarrow> apple_p2p_state \<Rightarrow>
    int option \<times> buf \<times> apple_p2p_peer \<times> apple_p2p_state \<times> rx_event list" where
  "rx_tlv_loop stack tsft frame peer state =
     (case read_tlv frame 0 of
        Inr (len, tlv_type, tlv_len, tlv_value) \<Rightarrow>
          if len > 0 then
            (case buf_new_const tlv_value (uint tlv_len) of
               None \<Rightarrow> (None, frame, peer, state, [])
             | Some tlv_buf \<Rightarrow>
                 let (result, peer, state) =
                       apple_p2p_handle_tlv (stack (b_len frame)) peer tlv_type tlv_buf state tsft;
                     ev = (if s_tlv_cb state then [Tlv_Seen peer tlv_type tlv_value] else [])
                 in if result < 0 then (Some RX_UNEXPECTED_FORMAT, frame, peer, state, ev)
                    else let (r, frame, peer, state, evs) =
                               rx_tlv_loop stack tsft (snd (buf_strip frame len)) peer state
                         in (r, frame, peer, state, ev @ evs))
          else (None, frame, peer, state, [])
      | Inl _ \<Rightarrow> (None, frame, peer, state, []))"
  by pat_completeness auto

lemma read_tlv_strip:
  "read_tlv b off = Inr (n, t, l, v) \<Longrightarrow> 0 \<le> off \<and> n = uint l + 3 \<and> off + n \<le> b_len b"
  by (auto simp: read_tlv_def CHECKED_READ_def wire_defs split: sum.splits if_splits)

lemma strip_tlv_less:
  assumes "read_tlv b 0 = Inr (n, t, l, v)"
  shows "0 < b_len b" and "b_len (snd (buf_strip b n)) < b_len b"
proof -
  have "n = uint l + 3" "n \<le> b_len b" "0 \<le> uint l" using read_tlv_strip [OF assms] by simp_all
  then have n: "0 < n" "n \<le> b_len b" by linarith+
  then show "0 < b_len b" by simp
  show "b_len (snd (buf_strip b n)) < b_len b" using n by (simp add: buf_strip_def)
qed

termination rx_tlv_loop
  by (relation "measure (\<lambda>(stack, tsft, frame, peer, state). nat (b_len frame))")
    (auto simp: strip_tlv_less)

declare rx_tlv_loop.simps [simp del]

text \<open>
  The environment of a reception: fuel and success of allocations for the hash map, the bytes
  \<open>malloc\<close> returns for a new peer and for the \<open>i\<close>-th delivered buffer, the uninitialised
  locals (channel list, radiotap iterator, signal strength and radiotap flags), and the
  reading of the clock.
\<close>

record rx_env =
  re_fuel :: nat
  re_calloc_ok :: "nat \<Rightarrow> bool"
  re_peer_mem :: apple_p2p_peer
  re_heap :: "nat \<Rightarrow> nat \<Rightarrow> u8"
  re_stack :: "int \<Rightarrow> apple_p2p_chan list"
  re_iter :: rt_iterator
  re_rssi :: u8
  re_flags :: u8
  re_clock :: "(int \<times> int) option"

text \<open>The two functions of the peer table on the state.\<close>

definition state_peer_add ::
  "rx_env \<Rightarrow> apple_p2p_state \<Rightarrow> ether_addr \<Rightarrow> u64 \<Rightarrow> (peers_status \<times> apple_p2p_state \<times> rx_event list) option" where
  "state_peer_add env state src tsft =
     map_option (\<lambda>(status, peers, calls).
         (status, state\<lparr>s_peers := (s_peers state)\<lparr>ps_peers := peers\<rparr>\<rparr>, map Peer_Added calls))
       (apple_p2p_peer_add (re_fuel env) (re_calloc_ok env) (re_peer_mem env)
          (ps_peers (s_peers state)) src tsft (s_peer_cb state))"

text \<open>What was changed through the pointer \<open>peer\<close>.\<close>

definition state_peer_write :: "apple_p2p_state \<Rightarrow> ether_addr \<Rightarrow> apple_p2p_peer \<Rightarrow> apple_p2p_state" where
  "state_peer_write state src peer =
     state\<lparr>s_peers := (s_peers state)\<lparr>ps_peers := peer_write (ps_peers (s_peers state)) src peer\<rparr>\<rparr>"

text \<open>The filter on the signal strength: \<open>signed char\<close> values, added in \<open>int\<close>.\<close>

definition rssi_ignored :: "apple_p2p_state \<Rightarrow> u8 \<Rightarrow> ether_addr \<Rightarrow> bool" where
  "rssi_ignored state rssi src \<longleftrightarrow>
     s_filter_rssi state \<noteq> 0 \<and>
     (let status = fst (apple_p2p_peer_get (ps_peers (s_peers state)) src) in
      status = PEERS_OK \<and> sint rssi < sint (s_rssi_threshold state) + sint (s_rssi_grace state) \<or>
      status = PEERS_MISSING \<and> sint rssi < sint (s_rssi_threshold state))"

text \<open>\<open>None\<close>: the hash map ran out of fuel, or a NULL peer is used.\<close>

definition apple_p2p_rx_action ::
  "rx_env \<Rightarrow> buf \<Rightarrow> u8 \<Rightarrow> u64 \<Rightarrow> ether_addr \<Rightarrow> ether_addr \<Rightarrow> apple_p2p_state \<Rightarrow>
    (int \<times> apple_p2p_state \<times> rx_event list) option" where
  "apple_p2p_rx_action env frame rssi tsft src dst state =
     (let subtype = apple_p2p_parse_action_hdr frame in
      if subtype < 0 then Some (RX_IGNORE, state, [])
      else
        let frame = snd (buf_strip frame sizeof_action) in
        if rssi_ignored state rssi src then Some (RX_IGNORE_RSSI, state, [])
        else
          let state = state\<lparr>s_stats := (s_stats state)\<lparr>st_rx_action := st_rx_action (s_stats state) + 1\<rparr>\<rparr> in
          case state_peer_add env state src tsft of
            None \<Rightarrow> None
          | Some (status, state, ev1) \<Rightarrow>
              if peers_status_code status < 0 then Some (RX_IGNORE, state, ev1)
              else case apple_p2p_peer_get (ps_peers (s_peers state)) src of
                (PEERS_OK, None) \<Rightarrow> None
              | (PEERS_OK, Some peer) \<Rightarrow>
                  (let (ret, frame, peer, state, ev2) = rx_tlv_loop (re_stack env) tsft frame peer state in
                   case ret of
                     Some r \<Rightarrow> Some (r, state_peer_write state src peer, ev1 @ ev2)
                   | None \<Rightarrow>
                       if buf_len frame > 0 then
                         Some (RX_UNEXPECTED_FORMAT, state_peer_write state src peer, ev1 @ ev2)
                       else
                         let peer = (if subtype = uint APPLE_P2P_ACTION_MIF
                                     then peer\<lparr>p_sent_mif := True\<rparr> else peer);
                             state = state_peer_write state src peer
                         in case state_peer_add env state src tsft of
                              None \<Rightarrow> None
                            | Some (_, state, ev3) \<Rightarrow> Some (RX_OK, state, ev1 @ ev2 @ ev3))
              | _ \<Rightarrow> Some (RX_IGNORE, state, ev1))"

section \<open>Data frames\<close>

text \<open>\<open>llc\<close> is the structure before: a frame that is too short leaves its rest unset.\<close>

definition llc_parse :: "buf \<Rightarrow> llc_hdr \<Rightarrow> int \<times> llc_hdr" where
  "llc_parse frame llc =
     CHECKED_READ (read_u8 frame 0) (RX_TOO_SHORT, llc) (\<lambda>dsap.
     let llc = llc\<lparr>llc_dsap := dsap\<rparr> in
     CHECKED_READ (read_u8 frame 1) (RX_TOO_SHORT, llc) (\<lambda>ssap.
     let llc = llc\<lparr>llc_ssap := ssap\<rparr> in
     CHECKED_READ (read_u8 frame 2) (RX_TOO_SHORT, llc) (\<lambda>control.
     let llc = llc\<lparr>llc_control := control\<rparr> in
     CHECKED_READ (read_bytes_copy frame 3 3) (RX_TOO_SHORT, llc) (\<lambda>oui.
     let llc = llc\<lparr>llc_oui := oui\<rparr> in
     CHECKED_READ (read_be16 frame 6) (RX_TOO_SHORT, llc) (\<lambda>pid.
     (RX_OK, llc\<lparr>llc_pid := pid\<rparr>))))))"

definition llc_unset :: llc_hdr where
  "llc_unset = \<lparr>llc_dsap = 0, llc_ssap = 0, llc_control = 0, llc_oui = [0, 0, 0], llc_pid = 0\<rparr>"

definition apple_p2p_valid_llc_header :: "buf \<Rightarrow> bool" where
  "apple_p2p_valid_llc_header frame =
     (let (r, llc) = llc_parse frame llc_unset in
      if r < 0 then False
      else \<not> (llc_dsap llc \<noteq> 0xaa \<or> llc_ssap llc \<noteq> 0xaa \<or> llc_control llc \<noteq> 0x03 \<or>
              llc_pid llc \<noteq> APPLE_P2P_LLC_PROTOCOL_ID))"

abbreviation ETHER_MAX_LEN :: int where "ETHER_MAX_LEN \<equiv> 1518"

text \<open>The Ethernet frame handed to the host; the return codes of the writes are only added up.\<close>

definition rx_ethernet_frame :: "(nat \<Rightarrow> u8) \<Rightarrow> ether_addr \<Rightarrow> ether_addr \<Rightarrow> u16 \<Rightarrow> buf \<Rightarrow> buf option" where
  "rx_ethernet_frame heap dst src ether_type frame =
     map_option (\<lambda>out.
       let offset = 0;
           (n, out) = write_ether_addr out offset dst; offset = offset + n;
           (n, out) = write_ether_addr out offset src; offset = offset + n;
           (n, out) = write_be16 out offset ether_type; offset = offset + n;
           (n, out) = write_bytes out offset (buf_data frame) (buf_len frame)
       in out) (buf_new_owned heap ETHER_MAX_LEN)"

text \<open>\<open>out\<close> lists the buffers stored through the output pointer so far.\<close>

definition apple_p2p_rx_data ::
  "rx_env \<Rightarrow> buf \<Rightarrow> buf list \<Rightarrow> ether_addr \<Rightarrow> ether_addr \<Rightarrow> apple_p2p_state \<Rightarrow> int \<times> buf list \<times> apple_p2p_state" where
  "apple_p2p_rx_data env frame out src dst state =
     (let state = state\<lparr>s_stats := (s_stats state)\<lparr>st_rx_data := st_rx_data (s_stats state) + 1\<rparr>\<rparr> in
      if fst (apple_p2p_peer_get (ps_peers (s_peers state)) src) \<noteq> PEERS_OK
      then (RX_IGNORE_PEER, out, state)
      else if \<not> apple_p2p_valid_llc_header frame then (RX_UNEXPECTED_FORMAT, out, state)
      else
        let frame = snd (buf_strip frame sizeof_llc_hdr) in
        if buf_len frame < sizeof_data then (RX_TOO_SHORT, out, state)
        else
          let ether_type = (case read_be16 frame 6 of Inr (_, v) \<Rightarrow> v | Inl _ \<Rightarrow> 0);
              frame = snd (buf_strip frame sizeof_data)
          in case rx_ethernet_frame (re_heap env (length out)) dst src ether_type frame of
               None \<Rightarrow> (RX_OK, out, state)
             | Some b \<Rightarrow> (RX_OK, out @ [b], state))"

text \<open>The alignment of the subframes of an A-MSDU.\<close>

definition amsdu_padding :: "u16 \<Rightarrow> int" where
  "amsdu_padding len_a = (4 - ((14 + uint len_a) mod 4)) mod 4"


text \<open>The loop over the subframes.\<close>

function apple_p2p_rx_data_amsdu ::
  "rx_env \<Rightarrow> buf \<Rightarrow> buf list \<Rightarrow> apple_p2p_state \<Rightarrow> int \<times> buf list \<times> apple_p2p_state" where
  "apple_p2p_rx_data_amsdu env frame out state =
     (if buf_len frame > 0 then
        CHECKED_READ (read_ether_addr frame 0) (RX_TOO_SHORT, out, state) (\<lambda>dst_a.
        CHECKED_READ (read_ether_addr frame 6) (RX_TOO_SHORT, out, state) (\<lambda>src_a.
        CHECKED_READ (read_be16 frame 12) (RX_TOO_SHORT, out, state) (\<lambda>len_a.
        case buf_strip frame 14 of (r1, frame1) \<Rightarrow>
        if r1 < 0 then (RX_TOO_SHORT, out, state) else
        if uint len_a > buf_len frame1 then (RX_TOO_SHORT, out, state) else
        case buf_new_const (buf_data frame1) (uint len_a) of
          None \<Rightarrow> (RX_TOO_SHORT, out, state)
        | Some subframe \<Rightarrow>
            (case apple_p2p_rx_data env subframe out src_a dst_a state of (err, out, state) \<Rightarrow>
             if err < 0 then (err, out, state) else
             case buf_strip frame1 (uint len_a) of (r2, frame2) \<Rightarrow>
             if r2 < 0 then (RX_TOO_SHORT, out, state) else
             if buf_len frame2 > 0 then
               (case buf_strip frame2 (amsdu_padding len_a) of (r3, frame3) \<Rightarrow>
                if r3 < 0 then (RX_TOO_SHORT, out, state)
                else apple_p2p_rx_data_amsdu env frame3 out state)
             else apple_p2p_rx_data_amsdu env frame2 out state))))
      else (RX_OK, out, state))"
  by pat_completeness auto

lemma strip_prod:
  assumes "(r, b') = buf_strip b n" and "\<not> r < 0"
  shows "b_len b' = b_len b - n \<and> 0 \<le> n \<and> n \<le> b_len b"
  using assms by (auto simp: buf_strip_def split: if_splits)

lemma amsdu_padding_bounds: "0 \<le> amsdu_padding l \<and> amsdu_padding l < 4"
  by (simp add: amsdu_padding_def)

lemma subframe_positive: "- uint l - amsdu_padding l < 14" "- uint l < 14" for l :: u16
proof -
  have "0 \<le> uint l" "0 \<le> amsdu_padding l" using amsdu_padding_bounds by simp_all
  then show "- uint l - amsdu_padding l < 14" "- uint l < 14" by linarith+
qed

termination apple_p2p_rx_data_amsdu
proof (relation "measure (\<lambda>(env, frame, out, state). nat (b_len frame))", goal_cases)
  case 1 show ?case by simp
next
  case (2 env frame out state)
  then show ?case by (auto dest!: strip_prod simp: buf_len_def subframe_positive)
next
  case (3 env frame out state)
  then show ?case by (auto dest!: strip_prod simp: buf_len_def)
qed

declare apple_p2p_rx_data_amsdu.simps [simp del]


section \<open>The radiotap header\<close>

abbreviation IEEE80211_RADIOTAP_F_FCS :: u8 where "IEEE80211_RADIOTAP_F_FCS \<equiv> 0x10"
abbreviation IEEE80211_RADIOTAP_F_BADFCS :: u8 where "IEEE80211_RADIOTAP_F_BADFCS \<equiv> 0x40"
abbreviation IEEE80211_QOS_CTL_LEN :: int where "IEEE80211_QOS_CTL_LEN \<equiv> 2"
abbreviation IEEE80211_QOS_CTL_A_MSDU_PRESENT :: u16 where "IEEE80211_QOS_CTL_A_MSDU_PRESENT \<equiv> 0x0080"

text \<open>The three outputs; an output whose pointer is NULL is \<open>None\<close> and stays so.\<close>

record radiotap_out =
  ro_rssi :: "u8 option"
  ro_flags :: "u8 option"
  ro_tsft :: "u64 option"

text \<open>The body of the loop: storing one argument. \<open>None\<close> is a read outside the frame.\<close>

definition radiotap_visit :: "u8 list \<Rightarrow> rt_iterator \<Rightarrow> radiotap_out \<Rightarrow> radiotap_out option" where
  "radiotap_visit h it out =
     (let arg = unat (rt_this_arg it) in
      if \<not> rt_is_radiotap_ns it then Some out
      else if rt_this_arg_index it = IEEE80211_RADIOTAP_TSFT then
        (if ro_tsft out = None then Some out
         else map_option (\<lambda>bs. out\<lparr>ro_tsft := Some (le_word bs)\<rparr>) (rt_read h arg 8))
      else if rt_this_arg_index it = IEEE80211_RADIOTAP_FLAGS then
        (if ro_flags out = None then Some out
         else map_option (\<lambda>bs. out\<lparr>ro_flags := Some (le_word bs)\<rparr>) (rt_read h arg 1))
      else if rt_this_arg_index it = IEEE80211_RADIOTAP_DBM_ANTSIGNAL then
        (if ro_rssi out = None then Some out
         else map_option (\<lambda>bs. out\<lparr>ro_rssi := Some (le_word bs)\<rparr>) (rt_read h arg 1))
      else Some out)"

function radiotap_loop :: "u8 list \<Rightarrow> rt_iterator \<Rightarrow> radiotap_out \<Rightarrow> (rt_status \<times> radiotap_out) option" where
  "radiotap_loop h it out =
     (case ieee80211_radiotap_iterator_next h it of
        None \<Rightarrow> None
      | Some (RT_HIT, it') \<Rightarrow>
          (case radiotap_visit h it' out of
             None \<Rightarrow> None
           | Some out \<Rightarrow> radiotap_loop h it' out)
      | Some (st, it') \<Rightarrow> Some (st, out))"
  by pat_completeness auto
termination
  by (relation "measure (\<lambda>(h, it, out). rt_left h it)") (auto dest: rt_next_left)

declare radiotap_loop.simps [simp del]

text \<open>\<open>mem\<close> is the uninitialised iterator. The header is read in the view of the frame.\<close>

definition radiotap_parse :: "rt_iterator \<Rightarrow> buf \<Rightarrow> radiotap_out \<Rightarrow> (int \<times> radiotap_out) option" where
  "radiotap_parse mem frame out =
     (let h = take (nat (buf_len frame)) (buf_data frame) in
      case ieee80211_radiotap_iterator_init mem h (buf_len frame) None of
        None \<Rightarrow> None
      | Some (err, it) \<Rightarrow>
          if rt_code err < 0 then Some (RX_UNEXPECTED_FORMAT, out)
          else case radiotap_loop h it out of
            None \<Rightarrow> None
          | Some (err, out) \<Rightarrow>
              Some (if err \<noteq> RT_ENOENT then RX_UNEXPECTED_FORMAT else RX_OK, out))"

definition check_fcs :: "buf \<Rightarrow> u8 \<Rightarrow> int \<times> buf" where
  "check_fcs frame radiotap_flags =
     (if radiotap_flags AND IEEE80211_RADIOTAP_F_BADFCS \<noteq> 0 then (-1, frame)
      else if radiotap_flags AND IEEE80211_RADIOTAP_F_FCS \<noteq> 0
      then BUF_TAKE frame 4 (\<lambda>frame. (-1, frame)) (\<lambda>frame. (0, frame))
      else (0, frame))"

section \<open>Reception\<close>

text \<open>The result code, the delivered buffers, the state and the calls of callbacks; \<open>None\<close>
  stands for behaviour C leaves undefined (clock overflow, a read outside the frame, a NULL
  peer) or a lack of fuel.\<close>

type_synonym rx_result = "(int \<times> buf list \<times> apple_p2p_state \<times> rx_event list) option"

definition rx_frame_type :: "rx_env \<Rightarrow> u16 \<Rightarrow> buf \<Rightarrow> buf list \<Rightarrow> u8 \<Rightarrow> u64 \<Rightarrow> ether_addr \<Rightarrow> ether_addr \<Rightarrow>
    apple_p2p_state \<Rightarrow> rx_result" where
  "rx_frame_type env fc frame out rssi tsft from_addr to_addr state =
     (let kind = fc AND (IEEE80211_FCTL_FTYPE OR IEEE80211_FCTL_STYPE);
          data = (\<lambda>frame. let (r, out, state) = apple_p2p_rx_data env frame out from_addr to_addr state
                          in Some (r, out, state, []))
      in if kind = IEEE80211_FTYPE_MGMT OR IEEE80211_STYPE_ACTION then
           map_option (\<lambda>(r, state, ev). (r, out, state, ev))
             (apple_p2p_rx_action env frame rssi tsft from_addr to_addr state)
         else if kind = IEEE80211_FTYPE_DATA OR IEEE80211_STYPE_DATA OR IEEE80211_STYPE_QOS_DATA then
           CHECKED_READ (read_le16 frame 0) (Some (RX_TOO_SHORT, out, state, [])) (\<lambda>qosc.
           BUF_STRIP frame IEEE80211_QOS_CTL_LEN (\<lambda>_. Some (RX_TOO_SHORT, out, state, [])) (\<lambda>frame.
             if qosc AND IEEE80211_QOS_CTL_A_MSDU_PRESENT \<noteq> 0 then
               let (r, out, state) = apple_p2p_rx_data_amsdu env frame out state
               in Some (r, out, state, [])
             else data frame))
         else if kind = IEEE80211_FTYPE_DATA OR IEEE80211_STYPE_DATA then data frame
         else Some (RX_UNEXPECTED_TYPE, out, state, []))"

definition apple_p2p_rx :: "rx_env \<Rightarrow> buf \<Rightarrow> buf list \<Rightarrow> apple_p2p_state \<Rightarrow> rx_result" where
  "apple_p2p_rx env frame out state =
     (case clock_time_us (re_clock env) of None \<Rightarrow> None | Some tsft \<Rightarrow>
      case radiotap_parse (re_iter env) frame
             \<lparr>ro_rssi = Some (re_rssi env), ro_flags = Some (re_flags env), ro_tsft = None\<rparr> of
        None \<Rightarrow> None
      | Some (r, ro) \<Rightarrow>
        if r < 0 then Some (RX_UNEXPECTED_FORMAT, out, state, []) else
        let rssi = the (ro_rssi ro); flags = the (ro_flags ro);
            it_len = uint (le_word (slice (buf_data frame) 2 2) :: u16)
        in BUF_STRIP frame it_len (\<lambda>_. Some (RX_TOO_SHORT, out, state, [])) (\<lambda>frame.
           let (bad, frame) = check_fcs frame flags in
           if bad \<noteq> 0 then Some (RX_IGNORE_FAILED_CRC, out, state, []) else
           CHECKED_READ (read_bytes frame 0 sizeof_ieee80211_hdr) (Some (RX_TOO_SHORT, out, state, [])) (\<lambda>_.
             let ieee80211 = buf_data frame;
                 fc = le_word (slice ieee80211 0 2) :: u16;
                 to_addr = ether_of (slice ieee80211 4 6);
                 from_addr = ether_of (slice ieee80211 10 6)
             in if memcmp (octets from_addr) (octets (s_self_address state)) = 0
                then Some (RX_IGNORE_FROM_SELF, out, state, [])
                else BUF_STRIP frame sizeof_ieee80211_hdr (\<lambda>_. Some (RX_TOO_SHORT, out, state, []))
                  (\<lambda>frame. rx_frame_type env fc frame out rssi tsft from_addr to_addr state))))"


section \<open>What a record may change\<close>

text \<open>The arrays of a peer keep their lengths; \<open>keeps_peer\<close> lists the fields no record may
  touch, the ones the table and the validity check rely on.\<close>

definition peer_wf :: "apple_p2p_peer \<Rightarrow> bool" where
  "peer_wf p \<longleftrightarrow> length (p_sequence p) = 16 \<and> length (p_name p) \<le> HOST_NAME_LENGTH_MAX \<and>
     length (p_country_code p) = 3"

definition keeps_peer :: "apple_p2p_peer \<Rightarrow> apple_p2p_peer \<Rightarrow> bool" where
  "keeps_peer p q \<longleftrightarrow> p_addr q = p_addr p \<and> p_last_update q = p_last_update p \<and>
     p_is_valid q = p_is_valid p \<and> p_sent_mif q = p_sent_mif p \<and>
     e_self_addr (p_election q) = e_self_addr (p_election p) \<and> p_sync_offset q = p_sync_offset p"

definition record_ok :: "apple_p2p_peer \<Rightarrow> int \<times> apple_p2p_peer \<Rightarrow> bool" where
  "record_ok p = (\<lambda>(r, q). (r = RX_OK \<or> r = RX_IGNORE \<or> r = RX_TOO_SHORT) \<and> keeps_peer p q \<and>
     (peer_wf p \<longrightarrow> peer_wf q))"

lemmas record_defs = record_ok_def keeps_peer_def peer_wf_def set_election_def

lemma keeps_peer_refl [simp]: "keeps_peer p p"
  by (simp add: keeps_peer_def)

lemma keeps_peer_trans: "keeps_peer p q \<Longrightarrow> keeps_peer q r \<Longrightarrow> keeps_peer p r"
  by (simp add: keeps_peer_def)

lemma record_ok_unchanged [simp]:
  "record_ok p (0, p)" "record_ok p (1, p)" "record_ok p (-3, p)"
  by (simp_all add: record_ok_def)

lemma record_ok_read:
  "(\<And>n v. r = Inr (n, v) \<Longrightarrow> record_ok p (k v)) \<Longrightarrow> record_ok p q \<Longrightarrow> record_ok p (CHECKED_READ r q k)"
  by (auto simp: CHECKED_READ_def split: sum.split)

lemma record_ok_if: "(c \<Longrightarrow> record_ok p a) \<Longrightarrow> (\<not> c \<Longrightarrow> record_ok p b) \<Longrightarrow> record_ok p (if c then a else b)"
  by simp

lemma read_chan_list_length: "read_chan_list val sz off cs = Some cs' \<Longrightarrow> length cs' = length cs"
  by (induction cs arbitrary: off cs') (auto simp: CHECKED_READ_def split: sum.splits if_splits)

lemma read_int_string_length:
  assumes "read_int_string b off n = Inr (r, str)" and "0 \<le> n" "n < 256"
  shows "int (length str) \<le> n"
proof -
  have "length str \<le> unat (word_of_int n :: u8) \<or> (\<exists>l :: u8. uint l \<le> n \<and> length str \<le> unat l)"
    using assms(1) unfolding read_int_string_def CHECKED_READ_def Let_def
    by (auto simp: read_bytes_copy_def fetch_def not_less split: sum.splits if_splits)
      (metis min.cobounded1)
  moreover have "unat (word_of_int n :: u8) = nat n"
    using assms(2,3) by (simp add: unat_word_of_int)
  moreover have "int (unat l) = uint l" for l :: u8 by simp
  ultimately show ?thesis using assms(2) by (metis int_nat_eq of_nat_mono order_trans)
qed

lemma chanseq_record:
  "length stack = 16 \<Longrightarrow> record_ok src (apple_p2p_handle_chanseq_tlv stack src val state)"
  unfolding apple_p2p_handle_chanseq_tlv_def Let_def
  by (intro record_ok_read record_ok_if)
    (auto split: option.splits simp: record_defs dest: read_chan_list_length)

lemma election_record: "record_ok src (apple_p2p_handle_election_params_tlv src val)"
  unfolding apple_p2p_handle_election_params_tlv_def Let_def
  by (intro record_ok_read record_ok_if) (simp_all add: record_defs)

lemma election_v2_record: "record_ok src (apple_p2p_handle_election_params_v2_tlv src val)"
  unfolding apple_p2p_handle_election_params_v2_tlv_def Let_def
  by (intro record_ok_read) (simp_all add: record_defs)

lemma arpa_record: "record_ok src (apple_p2p_handle_arpa_tlv src val)"
  unfolding apple_p2p_handle_arpa_tlv_def
  by (intro record_ok_read) (auto simp: record_defs dest!: read_int_string_length)

lemma version_record: "record_ok src (apple_p2p_handle_version_tlv src val)"
  unfolding apple_p2p_handle_version_tlv_def
  by (intro record_ok_read) (simp_all add: record_defs)

lemma read_bytes_copy_length:
  "wf_buf val \<Longrightarrow> read_bytes_copy val off 3 = Inr (n, cc) \<Longrightarrow> length cc = 3"
  using length_fetch [of val off 3] by (auto simp: read_bytes_copy_def split: if_splits)

lemma data_path_record:
  "wf_buf val \<Longrightarrow> record_ok src (apple_p2p_handle_data_path_state_tlv src val)"
  unfolding apple_p2p_handle_data_path_state_tlv_def Let_def
  by (intro record_ok_read record_ok_if)
    (simp_all add: record_defs read_bytes_copy_length)

definition handled_ok ::
  "apple_p2p_peer \<Rightarrow> apple_p2p_state \<Rightarrow> int \<times> apple_p2p_peer \<times> apple_p2p_state \<Rightarrow> bool" where
  "handled_ok p s = (\<lambda>(r, q, t). record_ok p (r, q) \<and> t = s\<lparr>s_sync := s_sync t\<rparr> \<and>
     (sync_wf (s_sync s) \<longrightarrow> sync_wf (s_sync t)))"

lemma sync_record:
  assumes "apple_p2p_handle_sync_params_tlv src val state now = (r, state')"
  shows "(r = RX_OK \<or> r = RX_IGNORE \<or> r = RX_TOO_SHORT) \<and> state' = state\<lparr>s_sync := s_sync state'\<rparr> \<and>
    (sync_wf (s_sync state) \<longrightarrow> sync_wf (s_sync state'))"
  using assms unfolding apple_p2p_handle_sync_params_tlv_def CHECKED_READ_def Let_def
  by (auto simp: sync_wf_def apple_p2p_sync_update_last_def Let_def split: sum.splits if_splits)

lemma handle_tlv_handled:
  assumes "wf_buf val" and "length stack = 16"
  shows "handled_ok src state (apple_p2p_handle_tlv stack src typ val state tsft)"
proof -
  have lift: "handled_ok src state ((\<lambda>(r, src). (r, src, state)) x)" if "record_ok src x" for x
    using that by (cases x) (simp add: handled_ok_def)
  have sync: "handled_ok src state (let (r, state) = apple_p2p_handle_sync_params_tlv src val state tsft
      in (r, src, state))"
    using sync_record [of src val state tsft]
    by (cases "apple_p2p_handle_sync_params_tlv src val state tsft")
      (auto simp: handled_ok_def record_ok_def)
  note records = chanseq_record [OF assms(2)] election_record election_v2_record arpa_record
    version_record data_path_record [OF assms(1)]
  have ign: "handled_ok src state (RX_IGNORE, src, state)" by (simp add: handled_ok_def)
  show ?thesis
    unfolding apple_p2p_handle_tlv_def Let_def [of "\<lambda>(r, src). (r, src, state)"]
    using sync ign lift [OF records(1)] lift [OF records(2)] lift [OF records(3)]
      lift [OF records(4)] lift [OF records(5)] lift [OF records(6)]
    by (simp only: split: if_split) blast
qed


text \<open>C14: whatever bytes a record has, its handler reports success, \<open>RX_IGNORE\<close> or one of the
  two errors (which share a number), keeps the lengths of the peer's arrays, never touches the
  fields the peer table and the validity check own, and of the node's state changes nothing
  but the synchronisation.\<close>

theorem handle_tlv_preserves:
  assumes "wf_buf val" and "length stack = 16" and "peer_wf src" and "sync_wf (s_sync state)"
    and "apple_p2p_handle_tlv stack src typ val state tsft = (r, peer, state')"
  shows "(r = RX_OK \<or> r = RX_IGNORE \<or> r = RX_TOO_SHORT) \<and> peer_wf peer \<and> keeps_peer src peer \<and>
    state' = state\<lparr>s_sync := s_sync state'\<rparr> \<and> sync_wf (s_sync state')"
  using handle_tlv_handled [OF assms(1,2), of src state "typ" tsft] assms(3-5)
  by (simp add: handled_ok_def record_ok_def)

lemma sample_peer_wf: "peer_wf (sample_peer n)"
  by (simp add: peer_wf_def sample_peer_def bytes_of_def)

theorem handle_tlv_preserves_witness:
  "\<exists>m r peer state'. apple_p2p_handle_tlv (replicate 16 CHAN_NULL) (sample_peer 9) 21
      (const_buf [0x34]) (sample_state m) 5 = (r, peer, state') \<and> peer_wf peer \<and>
    p_addr peer = EtherAddr 2 0 0 0 0 9"
proof -
  obtain m where m: "apple_p2p_peers_init (\<lambda>n. n \<le> 4096) = Some m" by (rule empty_peers)
  obtain r peer state' where e: "apple_p2p_handle_tlv (replicate 16 CHAN_NULL) (sample_peer 9) 21
      (const_buf [0x34]) (sample_state m) 5 = (r, peer, state')"
    using prod_cases3 by blast
  show ?thesis
    using handle_tlv_preserves [OF _ _ sample_peer_wf _ e] e
    by (auto simp: sample_state_def keeps_peer_def sample_peer_def)
qed

section \<open>The record loop\<close>

text \<open>The records of a list handled one after the other; \<open>n\<close> bytes are left.\<close>

fun run_tlvs ::
  "(int \<Rightarrow> apple_p2p_chan list) \<Rightarrow> u64 \<Rightarrow> int \<Rightarrow> (u8 \<times> u8 list) list \<Rightarrow> apple_p2p_peer \<Rightarrow> apple_p2p_state \<Rightarrow>
    int option \<times> apple_p2p_peer \<times> apple_p2p_state \<times> rx_event list" where
  "run_tlvs stack tsft n [] peer state = (None, peer, state, [])"
| "run_tlvs stack tsft n ((t, v) # tlvs) peer state =
     (let (result, peer, state) = apple_p2p_handle_tlv (stack n) peer t (const_buf v) state tsft;
          ev = (if s_tlv_cb state then [Tlv_Seen peer t v] else [])
      in if result < 0 then (Some RX_UNEXPECTED_FORMAT, peer, state, ev)
         else let (r, peer, state, evs) = run_tlvs stack tsft (n - 3 - int (length v)) tlvs peer state
              in (r, peer, state, ev @ evs))"

definition tlvs_bytes :: "(u8 \<times> u8 list) list \<Rightarrow> u8 list" where
  "tlvs_bytes tlvs = concat (map (\<lambda>(t, v). tlv_bytes t v) tlvs)"

lemma tlvs_bytes_simps [simp]:
  "tlvs_bytes [] = []" "tlvs_bytes ((t, v) # tlvs) = tlv_bytes t v @ tlvs_bytes tlvs"
  "tlvs_bytes (xs @ ys) = tlvs_bytes xs @ tlvs_bytes ys"
  by (simp_all add: tlvs_bytes_def)

text \<open>No further record: fewer bytes than a record header, or than it announces.\<close>

definition no_tlv :: "u8 list \<Rightarrow> bool" where
  "no_tlv bs \<longleftrightarrow> length bs < 3 + unat (le_word (slice bs 1 2) :: u16)"

lemma read_tlv_none: "wf_buf b \<Longrightarrow> no_tlv (buf_view b) \<Longrightarrow> read_tlv b 0 = Inl OUT_OF_BOUNDS"
  by (simp add: read_tlv_view Let_def no_tlv_def)

lemma rx_tlv_loop_run:
  "wf_buf frame \<Longrightarrow> buf_view frame = tlvs_bytes tlvs @ rest \<Longrightarrow> no_tlv rest \<Longrightarrow>
     \<forall>(t, v) \<in> set tlvs. length v < 65536 \<Longrightarrow>
     \<exists>frame'. rx_tlv_loop stack tsft frame peer state =
       (let (r, peer, state, ev) = run_tlvs stack tsft (b_len frame) tlvs peer state
        in (r, frame', peer, state, ev)) \<and>
       (fst (run_tlvs stack tsft (b_len frame) tlvs peer state) = None \<longrightarrow>
          b_len frame' = int (length rest))"
proof (induction tlvs arbitrary: frame peer state)
  case Nil
  then have "read_tlv frame 0 = Inl OUT_OF_BOUNDS" and "b_len frame = int (length rest)"
    using read_tlv_none [of frame] b_len_view [of frame] by simp_all
  then show ?case by (simp add: rx_tlv_loop.simps [of stack tsft frame])
next
  case (Cons tv tlvs)
  obtain t v where tv: "tv = (t, v)" by force
  then have len: "length v < 65536" using Cons.prems(4) by simp
  have view: "buf_view frame = tlv_bytes t v @ tlvs_bytes tlvs @ rest" using Cons.prems(2) tv by simp
  note rd = read_tlv_append [OF Cons.prems(1) view len]
  have u: "uint (of_nat (length v) :: u16) = int (length v)"
    using len by (simp add: unsigned_of_nat take_bit_nat_eq_self)
  let ?frame = "snd (buf_strip frame (3 + int (length v)))"
  have total: "3 + int (length v) \<le> b_len frame"
    using b_len_view [OF Cons.prems(1)] view by simp
  note strip = buf_strip_ok [OF Cons.prems(1) _ total]
  have view': "wf_buf ?frame" "buf_view ?frame = tlvs_bytes tlvs @ rest"
    "b_len ?frame = b_len frame - 3 - int (length v)"
    using strip view by (simp_all add: nat_add_distrib)
  obtain res peer' state' where h: "apple_p2p_handle_tlv (stack (b_len frame)) peer t (const_buf v) state tsft
      = (res, peer', state')"
    using prod_cases3 by blast
  show ?case
  proof (cases "res < 0")
    case True
    then show ?thesis
      using h by (auto simp: tv rx_tlv_loop.simps [of stack tsft frame] rd u)
  next
    case False
    obtain r p s ev where run: "run_tlvs stack tsft (b_len frame - 3 - int (length v)) tlvs peer' state'
        = (r, p, s, ev)"
      by (rule prod_cases4)
    have "\<exists>frame'. rx_tlv_loop stack tsft ?frame peer' state' =
       (let (r, peer, state, ev) = run_tlvs stack tsft (b_len ?frame) tlvs peer' state'
        in (r, frame', peer, state, ev)) \<and>
       (fst (run_tlvs stack tsft (b_len ?frame) tlvs peer' state') = None \<longrightarrow>
          b_len frame' = int (length rest))"
      by (rule Cons.IH [OF view'(1,2) Cons.prems(3)]) (use Cons.prems(4) in simp)
    then obtain frame' where loop: "rx_tlv_loop stack tsft ?frame peer' state' = (r, frame', p, s, ev)"
      and fin_len: "r = None \<longrightarrow> b_len frame' = int (length rest)"
      unfolding view'(3) run by auto
    have "rx_tlv_loop stack tsft frame peer state = (r, frame', p, s,
        (if s_tlv_cb state' then [Tlv_Seen peer' t v] else []) @ ev)"
      unfolding rx_tlv_loop.simps [of stack tsft frame] rd
      using False loop by (simp add: u h)
    moreover have "run_tlvs stack tsft (b_len frame) (tv # tlvs) peer state = (r, p, s,
        (if s_tlv_cb state' then [Tlv_Seen peer' t v] else []) @ ev)"
      using False by (simp add: tv h run)
    ultimately show ?thesis using fin_len by simp
  qed
qed

text \<open>The reference parser: a byte string is a list of records and a rest that holds none.\<close>

function parse_tlvs :: "u8 list \<Rightarrow> (u8 \<times> u8 list) list \<times> u8 list" where
  "parse_tlvs bs =
     (if no_tlv bs then ([], bs)
      else let n = unat (le_word (slice bs 1 2) :: u16);
               (tlvs, rest) = parse_tlvs (drop (3 + n) bs)
           in ((bs ! 0, slice bs 3 n) # tlvs, rest))"
  by pat_completeness auto
termination
  by (relation "measure length") (auto simp: no_tlv_def)

declare parse_tlvs.simps [simp del]

lemma tlv_bytes_split:
  assumes "\<not> no_tlv bs"
  shows "bs = tlv_bytes (bs ! 0) (slice bs 3 (unat (le_word (slice bs 1 2) :: u16))) @
    drop (3 + unat (le_word (slice bs 1 2) :: u16)) bs"
proof -
  define n where "n = unat (le_word (slice bs 1 2) :: u16)"
  have len: "3 + n \<le> length bs" using assms by (simp add: no_tlv_def n_def)
  have "length (slice bs 3 n) = n" using len by simp
  then have "le_bytes 2 (of_nat (length (slice bs 3 n)) :: u16) = slice bs 1 2"
    using le_bytes_le_word [of "slice bs 1 2", where ?'a = 16] len by (simp add: n_def)
  moreover have "slice bs 1 2 @ slice bs 3 n = slice bs 1 (2 + n)"
    using slice_add [of bs 1 2 n] by (simp add: eval_nat_numeral)
  moreover have "bs = bs ! 0 # drop 1 bs"
    using len by (cases bs) simp_all
  then have "bs = bs ! 0 # slice bs 1 (2 + n) @ drop (3 + n) bs"
    using append_take_drop_id [of "2 + n" "drop 1 bs"] by (simp add: slice_def eval_nat_numeral)
  ultimately show ?thesis
    unfolding tlv_bytes_def n_def [symmetric] by (metis append_Cons append_assoc)
qed

lemma parse_tlvs_sound:
  "parse_tlvs bs = (tlvs, rest) \<Longrightarrow> bs = tlvs_bytes tlvs @ rest \<and> no_tlv rest \<and>
     (\<forall>(t, v) \<in> set tlvs. length v < 65536)"
proof (induction bs arbitrary: tlvs rest rule: parse_tlvs.induct)
  case (1 bs)
  show ?case
  proof (cases "no_tlv bs")
    case True
    then show ?thesis using 1(2) parse_tlvs.simps [of bs] by simp
  next
    case False
    define n where "n = unat (le_word (slice bs 1 2) :: u16)"
    obtain ts rs where r: "parse_tlvs (drop (3 + n) bs) = (ts, rs)" by force
    then have ih: "drop (3 + n) bs = tlvs_bytes ts @ rs \<and> no_tlv rs \<and> (\<forall>(t, v) \<in> set ts. length v < 65536)"
      using 1(1) [OF False refl] by (simp add: n_def)
    have "parse_tlvs bs = ((bs ! 0, slice bs 3 n) # ts, rs)"
      by (subst parse_tlvs.simps) (use False r in \<open>simp add: n_def Let_def\<close>)
    then have e: "tlvs = (bs ! 0, slice bs 3 n) # ts" "rest = rs" using 1(2) by simp_all
    have "bs = tlv_bytes (bs ! 0) (slice bs 3 n) @ drop (3 + n) bs"
      using tlv_bytes_split [OF False] by (simp only: n_def [symmetric])
    moreover have "length (slice bs 3 n) < 65536"
      using unat_bound [of "le_word (slice bs 1 2) :: u16"] by (simp add: n_def min_def)
    ultimately show ?thesis using ih e by simp
  qed
qed

lemma rx_tlv_loop_parsed:
  assumes "wf_buf frame" and "parse_tlvs (buf_view frame) = (tlvs, rest)"
  shows "\<exists>frame'. rx_tlv_loop stack tsft frame peer state =
       (let (r, peer, state, ev) = run_tlvs stack tsft (b_len frame) tlvs peer state
        in (r, frame', peer, state, ev)) \<and>
       (fst (run_tlvs stack tsft (b_len frame) tlvs peer state) = None \<longrightarrow>
          b_len frame' = int (length rest))"
  using parse_tlvs_sound [OF assms(2)] by (intro rx_tlv_loop_run [OF assms(1)]) auto

text \<open>C13: the loop of the action handler is the reference parser followed by the handlers, in
  order: it ends, stops at the first record whose handler fails, and otherwise leaves exactly
  the bytes that hold no further record.\<close>

theorem rx_tlv_loop_is_parser:
  assumes "wf_buf frame" and "parse_tlvs (buf_view frame) = (tlvs, rest)"
  shows "\<exists>frame'. rx_tlv_loop stack tsft frame peer state =
       (let (r, peer, state, ev) = run_tlvs stack tsft (b_len frame) tlvs peer state
        in (r, frame', peer, state, ev)) \<and>
       (fst (run_tlvs stack tsft (b_len frame) tlvs peer state) = None \<longrightarrow>
          b_len frame' = int (length rest))"
  using assms by (rule rx_tlv_loop_parsed)

theorem rx_tlv_loop_is_parser_witness:
  "\<exists>m frame' peer state. rx_tlv_loop (\<lambda>_. replicate 16 CHAN_NULL) 5
      (const_buf [21, 2, 0, 0x41, 2, 9, 9]) (sample_peer 3) (sample_state m) = (None, frame', peer, state, []) \<and>
    p_version peer = 0x41 \<and> p_devclass peer = 2 \<and> b_len frame' = 2"
proof -
  obtain m where m: "apple_p2p_peers_init (\<lambda>n. n \<le> 4096) = Some m" by (rule empty_peers)
  have tl: "parse_tlvs [9, 9] = ([], [9, 9])" by (simp add: parse_tlvs.simps no_tlv_def)
  have "parse_tlvs (buf_view (const_buf [21, 2, 0, 0x41, 2, 9, 9])) = ([(21, [0x41, 2])], [9, 9])"
    using tl by (simp add: parse_tlvs.simps [of "[21, 2, 0, 0x41, 2, 9, 9]"] no_tlv_def slice_def)
  note p = rx_tlv_loop_is_parser [OF wf_const_buf this, of "\<lambda>_. replicate 16 CHAN_NULL" 5
      "sample_peer 3" "sample_state m"]
  have len: "b_len (const_buf [21, 2, 0, 0x41, 2, 9, 9]) = 7" by simp
  have run: "run_tlvs (\<lambda>_. replicate 16 CHAN_NULL) 5 7 [(21, [0x41, 2])] (sample_peer 3) (sample_state m) =
      (None, (sample_peer 3)\<lparr>p_version := 0x41, p_devclass := 2\<rparr>, sample_state m, [])"
    by (simp add: apple_p2p_handle_tlv_def apple_p2p_handle_version_tlv_def read_u8_view Let_def
        sample_state_def)
  obtain frame' where "rx_tlv_loop (\<lambda>_. replicate 16 CHAN_NULL) 5
      (const_buf [21, 2, 0, 0x41, 2, 9, 9]) (sample_peer 3) (sample_state m) =
      (None, frame', (sample_peer 3)\<lparr>p_version := 0x41, p_devclass := 2\<rparr>, sample_state m, [])"
    and "b_len frame' = 2"
    using p [unfolded len run] by auto
  then show ?thesis by fastforce
qed


section \<open>Action frames keep the node state well formed\<close>

definition stack_ok :: "(int \<Rightarrow> apple_p2p_chan list) \<Rightarrow> bool" where
  "stack_ok stack \<longleftrightarrow> (\<forall>n. length (stack n) = 16)"

lemma sync_only_trans:
  assumes "t = s\<lparr>s_sync := s_sync t\<rparr>" and "u = t\<lparr>s_sync := s_sync u\<rparr>"
  shows "u = s\<lparr>s_sync := s_sync u\<rparr>"
proof -
  have "t\<lparr>s_sync := x\<rparr> = s\<lparr>s_sync := x\<rparr>" for x by (subst assms(1)) simp
  then show ?thesis using assms(2) by simp
qed

lemma run_tlvs_preserves:
  "stack_ok stack \<Longrightarrow> run_tlvs stack tsft n tlvs src state = (r, peer, state', ev) \<Longrightarrow>
     (r = None \<or> r = Some RX_UNEXPECTED_FORMAT) \<and> keeps_peer src peer \<and>
     (peer_wf src \<longrightarrow> peer_wf peer) \<and> state' = state\<lparr>s_sync := s_sync state'\<rparr> \<and>
     (sync_wf (s_sync state) \<longrightarrow> sync_wf (s_sync state'))"
proof (induction tlvs arbitrary: n src state r ev)
  case Nil
  then show ?case by auto
next
  case (Cons tv tlvs)
  obtain t v where tv: "tv = (t, v)" by force
  obtain res peer1 state1 where h: "apple_p2p_handle_tlv (stack n) src t (const_buf v) state tsft
      = (res, peer1, state1)"
    using prod_cases3 by blast
  have ok: "handled_ok src state (res, peer1, state1)"
    using handle_tlv_handled [of "const_buf v" "stack n" src state t tsft] Cons.prems(1) h
    by (simp add: stack_ok_def)
  show ?case
  proof (cases "res < 0")
    case True
    then show ?thesis using Cons.prems(2) h ok by (auto simp: tv handled_ok_def record_ok_def)
  next
    case False
    obtain r2 p2 s2 e2 where run: "run_tlvs stack tsft (n - 3 - int (length v)) tlvs peer1 state1
        = (r2, p2, s2, e2)"
      by (rule prod_cases4)
    then have e: "r2 = r" "p2 = peer" "s2 = state'"
      using Cons.prems(2) False h by (simp_all add: tv)
    show ?thesis
      using Cons.IH [OF Cons.prems(1) run [unfolded e]] ok keeps_peer_trans [of src peer1 peer]
        sync_only_trans [of state1 state state']
      by (auto simp: handled_ok_def record_ok_def)
  qed
qed

definition peers_wf :: "peers_table \<Rightarrow> bool" where
  "peers_wf m \<longleftrightarrow> peers_inv m \<and> (\<forall>a p. peer_map m a = Some p \<longrightarrow> peer_wf p)"

abbreviation speers :: "apple_p2p_state \<Rightarrow> peers_table" where
  "speers s \<equiv> ps_peers (s_peers s)"

definition rx_env_ok :: "rx_env \<Rightarrow> bool" where
  "rx_env_ok env \<longleftrightarrow> stack_ok (re_stack env) \<and> 0 < re_fuel env \<and>
     (\<exists>limit. (\<forall>n. re_calloc_ok env n \<longrightarrow> n \<le> limit) \<and> 2 * limit < 2 ^ re_fuel env)"

lemma new_peer_wf: "peer_wf (apple_p2p_peer_new mem a)"
  by (simp add: peer_wf_def apple_p2p_peer_new_def bytes_of_def)

lemma added_peer_wf: "(\<And>p. old = Some p \<Longrightarrow> peer_wf p) \<Longrightarrow> peer_wf (added_peer mem old a now)"
  using new_peer_wf [of mem a]
  by (cases old) (simp_all add: added_peer_def peer_wf_def Let_def)

lemma added_peer_addr:
  "(\<And>p. old = Some p \<Longrightarrow> p_addr p = a) \<Longrightarrow> p_addr (added_peer mem old a now) = a"
  by (cases old) (simp_all add: added_peer_def Let_def)

lemma state_peer_add_spec:
  assumes wf: "peers_wf (speers s)" and env: "rx_env_ok env"
  shows "\<exists>st m ev. state_peer_add env s a now = Some (st, s\<lparr>s_peers := (s_peers s)\<lparr>ps_peers := m\<rparr>\<rparr>, ev) \<and>
    peers_wf m \<and>
    (st = PEERS_INTERNAL \<and> peer_map (speers s) a = None \<and> peer_map m \<subseteq>\<^sub>m peer_map (speers s) \<or>
     st = (if peer_map (speers s) a = None then PEERS_OK else PEERS_UPDATE) \<and>
     peer_map m = (peer_map (speers s))(a \<mapsto> added_peer (re_peer_mem env) (peer_map (speers s) a) a now) \<and>
     ev = (if s_peer_cb s \<and> turned_valid (peer_map (speers s) a)
           then [Peer_Added (added_peer (re_peer_mem env) (peer_map (speers s) a) a now)] else []))"
proof -
  let ?m = "speers s"
  let ?new = "added_peer (re_peer_mem env) (peer_map ?m a) a now"
  have inv: "peers_inv ?m" using wf by (simp add: peers_wf_def)
  obtain limit where lim: "\<And>n. re_calloc_ok env n \<Longrightarrow> n \<le> limit" "2 * limit < 2 ^ re_fuel env"
    using env by (auto simp: rx_env_ok_def)
  have "0 < hm_table_size ?m" using inv by (simp add: peers_inv_def hm_inv_def)
  then have "2 ^ re_fuel env \<le> (2 ^ re_fuel env * hm_table_size ?m :: nat)" by simp
  then have "2 * limit < 2 ^ re_fuel env * hm_table_size ?m" using lim(2) by linarith
  then have "\<exists>st m calls.
    apple_p2p_peer_add (re_fuel env) (re_calloc_ok env) (re_peer_mem env) ?m a now (s_peer_cb s)
      = Some (st, m, calls) \<and> peers_inv m \<and>
    (st = PEERS_INTERNAL \<and> peer_map ?m a = None \<and> peer_map m \<subseteq>\<^sub>m peer_map ?m \<and> calls = [] \<or>
     st = (if peer_map ?m a = None then PEERS_OK else PEERS_UPDATE) \<and>
     peer_map m = (peer_map ?m)(a \<mapsto> ?new) \<and>
     calls = (if s_peer_cb s \<and> turned_valid (peer_map ?m a) then [?new] else []))"
    using lim(1) env by (intro peer_add_correct [OF inv]) (simp_all add: rx_env_ok_def)
  then obtain st m calls where
    add: "apple_p2p_peer_add (re_fuel env) (re_calloc_ok env) (re_peer_mem env) ?m a now (s_peer_cb s)
        = Some (st, m, calls)" and m: "peers_inv m"
    and alt: "st = PEERS_INTERNAL \<and> peer_map ?m a = None \<and> peer_map m \<subseteq>\<^sub>m peer_map ?m \<and> calls = [] \<or>
       st = (if peer_map ?m a = None then PEERS_OK else PEERS_UPDATE) \<and>
       peer_map m = (peer_map ?m)(a \<mapsto> ?new) \<and>
       calls = (if s_peer_cb s \<and> turned_valid (peer_map ?m a) then [?new] else [])"
    by blast
  have new: "peer_wf ?new" using wf by (intro added_peer_wf) (simp add: peers_wf_def)
  have "peers_wf m"
    using alt
  proof (elim disjE conjE)
    assume "peer_map m \<subseteq>\<^sub>m peer_map ?m"
    then show ?thesis using m wf by (auto simp: peers_wf_def map_le_def) (metis domI)
  next
    assume "peer_map m = (peer_map ?m)(a \<mapsto> ?new)"
    then show ?thesis using m wf new by (auto simp: peers_wf_def)
  qed
  moreover have "state_peer_add env s a now =
      Some (st, s\<lparr>s_peers := (s_peers s)\<lparr>ps_peers := m\<rparr>\<rparr>, map Peer_Added calls)"
    by (simp add: state_peer_add_def add)
  moreover have "st = PEERS_INTERNAL \<and> peer_map ?m a = None \<and> peer_map m \<subseteq>\<^sub>m peer_map ?m \<or>
     st = (if peer_map ?m a = None then PEERS_OK else PEERS_UPDATE) \<and>
     peer_map m = (peer_map ?m)(a \<mapsto> ?new) \<and>
     map Peer_Added calls = (if s_peer_cb s \<and> turned_valid (peer_map ?m a) then [Peer_Added ?new] else [])"
    using alt
  proof (elim disjE)
    assume "st = PEERS_INTERNAL \<and> peer_map ?m a = None \<and> peer_map m \<subseteq>\<^sub>m peer_map ?m \<and> calls = []"
    then show ?thesis by blast
  next
    assume "st = (if peer_map ?m a = None then PEERS_OK else PEERS_UPDATE) \<and>
       peer_map m = (peer_map ?m)(a \<mapsto> ?new) \<and>
       calls = (if s_peer_cb s \<and> turned_valid (peer_map ?m a) then [?new] else [])"
    then show ?thesis by (simp only: list.map if_distrib [of "map Peer_Added"] simp_thms)
  qed
  ultimately show ?thesis by blast
qed

lemma state_peer_write_spec:
  assumes "peers_wf (speers s)" and "peer_map (speers s) a = Some p" and "p_addr q = a" and "peer_wf q"
  shows "\<exists>m. state_peer_write s a q = s\<lparr>s_peers := (s_peers s)\<lparr>ps_peers := m\<rparr>\<rparr> \<and> peers_wf m \<and>
    peer_map m = (peer_map (speers s))(a \<mapsto> q)"
proof (intro exI conjI)
  let ?m = "peer_write (speers s) a q"
  show "state_peer_write s a q = s\<lparr>s_peers := (s_peers s)\<lparr>ps_peers := ?m\<rparr>\<rparr>"
    by (simp add: state_peer_write_def)
  show m: "peer_map ?m = (peer_map (speers s))(a \<mapsto> q)"
    using peer_table.replace_abs [of "speers s" a p q] assms by (simp add: peers_wf_def)
  show "peers_wf ?m"
    using peer_table.replace_invar [of "speers s" a p q] m assms by (simp add: peers_wf_def)
qed

text \<open>What a reception may do to the state: only the peer table, the synchronisation and the
  counters change, and only the sender's entry of the table.\<close>

definition rx_preserves :: "apple_p2p_state \<Rightarrow> ether_addr \<Rightarrow> apple_p2p_state \<Rightarrow> bool" where
  "rx_preserves s src t \<longleftrightarrow>
     t = s\<lparr>s_sync := s_sync t, s_peers := (s_peers s)\<lparr>ps_peers := speers t\<rparr>, s_stats := s_stats t\<rparr> \<and>
     peers_wf (speers t) \<and> (sync_wf (s_sync s) \<longrightarrow> sync_wf (s_sync t)) \<and>
     (\<forall>a. a \<noteq> src \<longrightarrow> peer_map (speers t) a = peer_map (speers s) a)"

text \<open>The exception: a new sender for whom an allocation failed is not stored, and the table may
  have lost entries.\<close>

definition rx_dropped :: "apple_p2p_state \<Rightarrow> ether_addr \<Rightarrow> apple_p2p_state \<Rightarrow> bool" where
  "rx_dropped s src t \<longleftrightarrow> peer_map (speers s) src = None \<and>
     t = s\<lparr>s_peers := (s_peers s)\<lparr>ps_peers := speers t\<rparr>, s_stats := s_stats t\<rparr> \<and>
     peers_wf (speers t) \<and> peer_map (speers t) \<subseteq>\<^sub>m peer_map (speers s)"

text \<open>The table cannot take a new sender: the insertion fails, since it needs an allocation that
  fails.\<close>

definition no_room :: "rx_env \<Rightarrow> apple_p2p_state \<Rightarrow> ether_addr \<Rightarrow> u64 \<Rightarrow> bool" where
  "no_room env s a now \<longleftrightarrow> (\<exists>t ev. state_peer_add env s a now = Some (PEERS_INTERNAL, t, ev))"

lemma no_room_stats: "no_room env (s\<lparr>s_stats := x\<rparr>) a now = no_room env s a now"
  by (auto simp: no_room_def state_peer_add_def)

lemma rx_preserves_refl: "peers_wf (speers s) \<Longrightarrow> rx_preserves s src s"
  by (simp add: rx_preserves_def)

lemma rx_preserves_trans: "rx_preserves s a t \<Longrightarrow> rx_preserves t a u \<Longrightarrow> rx_preserves s a u"
proof -
  assume st: "rx_preserves s a t" and tu: "rx_preserves t a u"
  have t: "t = s\<lparr>s_sync := s_sync t, s_peers := (s_peers s)\<lparr>ps_peers := speers t\<rparr>, s_stats := s_stats t\<rparr>"
    using st by (simp add: rx_preserves_def)
  have "t\<lparr>s_sync := x, s_peers := (s_peers t)\<lparr>ps_peers := y\<rparr>, s_stats := z\<rparr> =
      s\<lparr>s_sync := x, s_peers := (s_peers s)\<lparr>ps_peers := y\<rparr>, s_stats := z\<rparr>" for x y z
    by (subst (1 2) t) simp
  then show ?thesis using st tu by (auto simp: rx_preserves_def)
qed

lemma rx_preserves_peers:
  "peers_wf m \<Longrightarrow> (\<And>a. a \<noteq> src \<Longrightarrow> peer_map m a = peer_map (speers s) a) \<Longrightarrow>
     rx_preserves s src (s\<lparr>s_peers := (s_peers s)\<lparr>ps_peers := m\<rparr>\<rparr>)"
  by (simp add: rx_preserves_def)


text \<open>The handlers read and write neither the peer table nor the counters.\<close>

lemma handle_tlv_frame:
  "apple_p2p_handle_tlv stack src typ val (s\<lparr>s_peers := x, s_stats := y\<rparr>) now =
     (let (r, p, t) = apple_p2p_handle_tlv stack src typ val s now
      in (r, p, t\<lparr>s_peers := x, s_stats := y\<rparr>))"
proof -
  have sync: "apple_p2p_handle_sync_params_tlv src val (s\<lparr>s_peers := x, s_stats := y\<rparr>) now =
     (let (r, t) = apple_p2p_handle_sync_params_tlv src val s now in (r, t\<lparr>s_peers := x, s_stats := y\<rparr>))"
    by (simp add: apple_p2p_handle_sync_params_tlv_def CHECKED_READ_def Let_def split: sum.split prod.split)
  have chan: "apple_p2p_handle_chanseq_tlv stack src val (s\<lparr>s_peers := x, s_stats := y\<rparr>) =
      apple_p2p_handle_chanseq_tlv stack src val s"
    by (simp add: apple_p2p_handle_chanseq_tlv_def cong: if_cong)
  show ?thesis
    unfolding apple_p2p_handle_tlv_def sync chan by (simp add: Let_def split: prod.split)
qed

lemma handle_tlv_tlv_cb:
  "apple_p2p_handle_tlv stack src typ val s now = (r, p, t) \<Longrightarrow> s_tlv_cb t = s_tlv_cb s"
  by (auto simp: apple_p2p_handle_tlv_def apple_p2p_handle_sync_params_tlv_def CHECKED_READ_def Let_def
      split: if_splits prod.splits sum.splits)

lemma run_tlvs_frame:
  "run_tlvs stack now n tlvs src (s\<lparr>s_peers := x, s_stats := y\<rparr>) =
     (let (r, p, t, ev) = run_tlvs stack now n tlvs src s in (r, p, t\<lparr>s_peers := x, s_stats := y\<rparr>, ev))"
proof (induction tlvs arbitrary: n src s)
  case (Cons tv tlvs)
  obtain t v where tv: "tv = (t, v)" by force
  obtain r p s' where h: "apple_p2p_handle_tlv (stack n) src t (const_buf v) s now = (r, p, s')"
    using prod_cases3 by blast
  obtain r2 p2 s2 e2 where run: "run_tlvs stack now (n - 3 - int (length v)) tlvs p s' = (r2, p2, s2, e2)"
    by (rule prod_cases4)
  show ?case by (simp add: tv handle_tlv_frame h run Cons.IH)
qed simp

text \<open>The announcement of a peer that has just turned valid.\<close>

definition announce :: "rx_env \<Rightarrow> apple_p2p_state \<Rightarrow> ether_addr \<Rightarrow> u64 \<Rightarrow> apple_p2p_peer option \<Rightarrow> rx_event list" where
  "announce env s a now old =
     (if s_peer_cb s \<and> turned_valid old then [Peer_Added (added_peer (re_peer_mem env) old a now)] else [])"

lemma state_peer_add_known:
  assumes "peers_wf (speers s)" and "peer_map (speers s) a = Some p"
  shows "\<exists>m. state_peer_add env s a now =
      Some (PEERS_UPDATE, s\<lparr>s_peers := (s_peers s)\<lparr>ps_peers := m\<rparr>\<rparr>, announce env s a now (Some p)) \<and>
    peers_wf m \<and> peer_map m = (peer_map (speers s))(a \<mapsto> added_peer (re_peer_mem env) (Some p) a now)"
proof -
  let ?new = "added_peer (re_peer_mem env) (Some p) a now"
  have inv: "peers_inv (speers s)" using assms(1) by (simp add: peers_wf_def)
  obtain m where add: "apple_p2p_peer_add (re_fuel env) (re_calloc_ok env) (re_peer_mem env) (speers s) a now
      (s_peer_cb s) = Some (PEERS_UPDATE, m,
        if s_peer_cb s \<and> turned_valid (Some p) then [?new] else [])"
    and m: "peers_inv m" "peer_map m = (peer_map (speers s))(a \<mapsto> ?new)"
    using peer_add_known [OF inv assms(2)] by blast
  have "peer_wf ?new" using assms by (intro added_peer_wf) (simp add: peers_wf_def)
  then have "peers_wf m" using m assms(1) by (auto simp: peers_wf_def)
  moreover have "state_peer_add env s a now =
      Some (PEERS_UPDATE, s\<lparr>s_peers := (s_peers s)\<lparr>ps_peers := m\<rparr>\<rparr>, announce env s a now (Some p))"
    by (simp add: state_peer_add_def add announce_def)
  ultimately show ?thesis using m(2) by blast
qed

text \<open>What an accepted action frame makes of the sender's entry: the records are applied to the
  touched entry, and a frame without errors touches it again.\<close>

definition marked_mif :: "int \<Rightarrow> apple_p2p_peer \<Rightarrow> apple_p2p_peer" where
  "marked_mif subtype p = (if subtype = uint APPLE_P2P_ACTION_MIF then p\<lparr>p_sent_mif := True\<rparr> else p)"

definition action_peer :: "rx_env \<Rightarrow> ether_addr \<Rightarrow> u64 \<Rightarrow> int \<Rightarrow> bool \<Rightarrow> apple_p2p_peer \<Rightarrow> apple_p2p_peer" where
  "action_peer env src tsft subtype ok p =
     (if ok then added_peer (re_peer_mem env) (Some (marked_mif subtype p)) src tsft else p)"

text \<open>The callbacks of an action frame: the sender may turn valid when it is touched first, the
  records are reported, and it may turn valid when it is touched at the end.\<close>

definition action_events :: "rx_env \<Rightarrow> apple_p2p_state \<Rightarrow> ether_addr \<Rightarrow> u64 \<Rightarrow> int \<Rightarrow> bool \<Rightarrow> apple_p2p_peer \<Rightarrow>
    rx_event list \<Rightarrow> rx_event list" where
  "action_events env s src tsft subtype ok p ev =
     announce env s src tsft (peer_map (speers s) src) @ ev @
     (if ok then announce env s src tsft (Some (marked_mif subtype p)) else [])"

lemma parse_action_hdr_len:
  assumes "0 \<le> apple_p2p_parse_action_hdr frame"
  shows "16 \<le> b_len frame"
  using assms by (auto simp: apple_p2p_parse_action_hdr_def CHECKED_READ_def read_bytes_def
      split: sum.splits if_splits)


lemma rx_action_correct:
  assumes wf: "peers_wf (speers s)" and env: "rx_env_ok env" and frame: "wf_buf frame"
    and hdr: "apple_p2p_parse_action_hdr frame = subtype" "0 \<le> subtype"
    and strong: "\<not> rssi_ignored s rssi src"
    and parse: "parse_tlvs (drop 16 (buf_view frame)) = (tlvs, rest)"
    and run: "run_tlvs (re_stack env) tsft (b_len frame - 16) tlvs
      (added_peer (re_peer_mem env) (peer_map (speers s) src) src tsft) s = (ret, p1, t, ev)"
  defines "ok \<equiv> ret = None \<and> rest = []"
  shows "\<exists>r s' evs. apple_p2p_rx_action env frame rssi tsft src dst s = Some (r, s', evs) \<and>
    (r = RX_IGNORE \<and> rx_dropped s src s' \<and> no_room env s src tsft \<or>
     r = (if ok then RX_OK else RX_UNEXPECTED_FORMAT) \<and> rx_preserves s src s' \<and>
     s_sync s' = s_sync t \<and> evs = action_events env s src tsft subtype ok p1 ev \<and>
     s_stats s' = (s_stats s)\<lparr>st_rx_action := st_rx_action (s_stats s) + 1\<rparr> \<and>
     peer_map (speers s') src = Some (action_peer env src tsft subtype ok p1))"
proof -
  let ?s0 = "s\<lparr>s_stats := (s_stats s)\<lparr>st_rx_action := st_rx_action (s_stats s) + 1\<rparr>\<rparr>"
  let ?p0 = "added_peer (re_peer_mem env) (peer_map (speers s) src) src tsft"
  let ?frame = "snd (buf_strip frame sizeof_action)"
  have len: "16 \<le> b_len frame" using parse_action_hdr_len hdr by simp
  note strip = buf_strip_ok [OF frame _ len]
  have fr: "wf_buf ?frame" "buf_view ?frame = drop 16 (buf_view frame)" "b_len ?frame = b_len frame - 16"
    using strip by simp_all
  have "peers_wf (speers ?s0)" using wf by simp
  from state_peer_add_spec [OF this env, of src tsft] obtain st m ev1 where
    add: "state_peer_add env ?s0 src tsft = Some (st, ?s0\<lparr>s_peers := (s_peers s)\<lparr>ps_peers := m\<rparr>\<rparr>, ev1)"
    and m: "peers_wf m"
    and alt: "st = PEERS_INTERNAL \<and> peer_map (speers s) src = None \<and> peer_map m \<subseteq>\<^sub>m peer_map (speers s) \<or>
      (st = PEERS_OK \<or> st = PEERS_UPDATE) \<and> peer_map m = (peer_map (speers s))(src \<mapsto> ?p0) \<and>
      ev1 = announce env s src tsft (peer_map (speers s) src)"
    by (auto simp: announce_def)
  from alt consider (failed) "st = PEERS_INTERNAL" "peer_map (speers s) src = None"
        "peer_map m \<subseteq>\<^sub>m peer_map (speers s)"
    | (added) "st = PEERS_OK \<or> st = PEERS_UPDATE" "peer_map m = (peer_map (speers s))(src \<mapsto> ?p0)"
        "ev1 = announce env s src tsft (peer_map (speers s) src)"
    by argo
  then show ?thesis
  proof cases
    case failed
    have "no_room env ?s0 src tsft" unfolding no_room_def using add failed(1) by blast
    then show ?thesis
      using failed hdr strong add m by (simp add: apple_p2p_rx_action_def rx_dropped_def no_room_stats Let_def)
  next
    case added
    note st = added(1) and pm = added(2) and ev1 = added(3)
    let ?x = "(s_peers s)\<lparr>ps_peers := m\<rparr>"
    let ?y = "(s_stats s)\<lparr>st_rx_action := st_rx_action (s_stats s) + 1\<rparr>"
    have s1: "?s0\<lparr>s_peers := ?x\<rparr> = s\<lparr>s_peers := ?x, s_stats := ?y\<rparr>" by simp
    have get: "apple_p2p_peer_get m src = (PEERS_OK, Some ?p0)"
      using peer_get_spec [of m src] m pm by (simp add: peers_wf_def)
    have pm0: "peer_map m src = Some ?p0" using pm by simp
    have p0: "peer_wf ?p0" "p_addr ?p0 = src"
      using m pm0 peer_map_addr [of m src ?p0] unfolding peers_wf_def by blast+
    have stack: "stack_ok (re_stack env)" using env by (simp add: rx_env_ok_def)
    note pres = run_tlvs_preserves [OF stack run]
    obtain frame' where loop: "rx_tlv_loop (re_stack env) tsft ?frame ?p0 (s\<lparr>s_peers := ?x, s_stats := ?y\<rparr>) =
        (ret, frame', p1, t\<lparr>s_peers := ?x, s_stats := ?y\<rparr>, ev)"
      and left: "ret = None \<longrightarrow> b_len frame' = int (length rest)"
      using rx_tlv_loop_parsed [OF fr(1), unfolded fr(2), OF parse, of "re_stack env" tsft ?p0
          "s\<lparr>s_peers := ?x, s_stats := ?y\<rparr>"]
      unfolding fr(3) run_tlvs_frame run by auto
    let ?t = "t\<lparr>s_peers := ?x, s_stats := ?y\<rparr>"
    have t: "?t = s\<lparr>s_sync := s_sync t, s_peers := ?x, s_stats := ?y\<rparr>"
      by (subst conjunct1 [OF conjunct2 [OF conjunct2 [OF conjunct2 [OF pres]]]]) simp
    have base: "rx_preserves s src ?t"
      unfolding rx_preserves_def t using m pm pres by simp
    have p1: "p_addr p1 = src" "peer_wf p1" using pres p0 by (simp_all add: keeps_peer_def)
    have wr: "\<exists>m2. state_peer_write ?t src q = ?t\<lparr>s_peers := (s_peers ?t)\<lparr>ps_peers := m2\<rparr>\<rparr> \<and>
        peers_wf m2 \<and> peer_map m2 = (peer_map m)(src \<mapsto> q)" if "p_addr q = src" "peer_wf q" for q
      using state_peer_write_spec [of ?t src ?p0 q] m pm that by simp
    have keep: "rx_preserves s src (?t\<lparr>s_peers := (s_peers ?t)\<lparr>ps_peers := m2\<rparr>\<rparr>)"
      if "peers_wf m2" "\<And>a. a \<noteq> src \<Longrightarrow> peer_map m2 a = peer_map m a" for m2
      using rx_preserves_trans [OF base rx_preserves_peers [OF that(1), of src ?t]] that(2) by simp
    show ?thesis
    proof (cases ok)
      case False
      obtain m2 where w: "state_peer_write ?t src p1 = ?t\<lparr>s_peers := (s_peers ?t)\<lparr>ps_peers := m2\<rparr>\<rparr>"
        and m2: "peers_wf m2" "peer_map m2 = (peer_map m)(src \<mapsto> p1)"
        using wr [OF p1] by blast
      have "apple_p2p_rx_action env frame rssi tsft src dst s =
          Some (RX_UNEXPECTED_FORMAT, state_peer_write ?t src p1, ev1 @ ev)"
        using hdr strong add st get loop s1 left False pres
        by (auto simp: apple_p2p_rx_action_def Let_def ok_def buf_len_def split: option.split)
      then show ?thesis
        using False w m2 keep [of m2] ev1 by (auto simp: action_peer_def action_events_def)
    next
      case True
      define q where "q = marked_mif subtype p1"
      have q: "p_addr q = src" "peer_wf q" using p1 by (simp_all add: q_def marked_mif_def peer_wf_def)
      obtain m2 where w: "state_peer_write ?t src q = ?t\<lparr>s_peers := (s_peers ?t)\<lparr>ps_peers := m2\<rparr>\<rparr>"
        and m2: "peers_wf m2" "peer_map m2 = (peer_map m)(src \<mapsto> q)"
        using wr [OF q] by blast
      have "peer_map (speers (state_peer_write ?t src q)) src = Some q" "peers_wf (speers (state_peer_write ?t src q))"
        using w m2 by simp_all
      from state_peer_add_known [OF this(2,1), of env tsft] obtain m3 where
        add3: "state_peer_add env (state_peer_write ?t src q) src tsft =
          Some (PEERS_UPDATE, ?t\<lparr>s_peers := (s_peers ?t)\<lparr>ps_peers := m3\<rparr>\<rparr>, announce env (state_peer_write ?t src q) src tsft (Some q))"
        and m3: "peers_wf m3" "peer_map m3 = (peer_map m2)(src \<mapsto> added_peer (re_peer_mem env) (Some q) src tsft)"
        using w by auto
      have "apple_p2p_rx_action env frame rssi tsft src dst s =
          Some (RX_OK, ?t\<lparr>s_peers := (s_peers ?t)\<lparr>ps_peers := m3\<rparr>\<rparr>,
            ev1 @ ev @ announce env (state_peer_write ?t src q) src tsft (Some q))"
        using hdr strong add st get loop s1 left True add3
        by (auto simp: apple_p2p_rx_action_def Let_def ok_def buf_len_def q_def marked_mif_def)
      moreover have "announce env (state_peer_write ?t src q) src tsft (Some q) = announce env s src tsft (Some q)"
        unfolding announce_def w by (subst t) simp
      ultimately show ?thesis
        using True m2 m3 keep [of m3] ev1 by (auto simp: action_peer_def action_events_def q_def)
    qed
  qed
qed



text \<open>An environment to instantiate lemmas with, and the header of an action frame.\<close>

definition sample_env :: rx_env where
  "sample_env = \<lparr>re_fuel = 32, re_calloc_ok = (\<lambda>n. n \<le> 4096), re_peer_mem = sample_peer 9,
     re_heap = (\<lambda>_ _. 0), re_stack = (\<lambda>_. replicate 16 CHAN_NULL), re_iter = sample_iterator 5,
     re_rssi = 0, re_flags = 0, re_clock = Some (1, 0)\<rparr>"

lemma sample_env_ok: "rx_env_ok sample_env"
  by (auto simp: rx_env_ok_def sample_env_def stack_ok_def intro!: exI [of _ 4096])

definition sample_action :: "u8 list \<Rightarrow> u8 list" where
  "sample_action body = [127, 0x00, 0x17, 0xf2, 8, 0x10, 3, 0, 1, 0, 0, 0, 2, 0, 0, 0] @ body"

lemma version_compat [simp]: "APPLE_P2P_VERSION_COMPAT = 0x10"
  by (simp add: APPLE_P2P_VERSION_COMPAT_def apple_p2p_version_def)

lemma sample_action_hdr: "apple_p2p_parse_action_hdr (const_buf (sample_action body)) = 3"
  by (simp add: apple_p2p_parse_action_hdr_def read_bytes_view buf_data_def const_buf_def [of "_ @ _"]
      sample_action_def slice_def APPLE_P2P_OUI_def) (simp add: const_buf_def slice_def)

lemma empty_peers_wf:
  obtains m where "peers_wf m" and "peer_map m = Map.empty"
proof -
  obtain m where "peers_inv m" "peer_map m = Map.empty" by (rule empty_peers)
  then show thesis using that by (simp add: peers_wf_def)
qed



section \<open>Valid peers and their announcement\<close>

definition valid_peers :: "apple_p2p_state \<Rightarrow> ether_addr set" where
  "valid_peers s = {a. \<exists>p. peer_map (speers s) a = Some p \<and> p_is_valid p}"

definition announced :: "rx_event list \<Rightarrow> ether_addr set" where
  "announced evs = {p_addr p |p. Peer_Added p \<in> set evs}"

lemma announced_simps [simp]:
  "announced [] = {}" "announced (xs @ ys) = announced xs \<union> announced ys"
  by (auto simp: announced_def)

lemma added_peer_valid:
  "p_is_valid (added_peer mem old a now) \<longleftrightarrow> (\<exists>p. old = Some p \<and> p_is_valid p) \<or> turned_valid old"
  by (cases old) (auto simp: added_peer_def turned_valid_def Let_def)

lemma announce_announced:
  assumes "s_peer_cb s" and "\<And>p. old = Some p \<Longrightarrow> p_addr p = a"
  shows "announced (announce env s a now old) = (if turned_valid old then {a} else {})"
  using assms added_peer_addr [of old a "re_peer_mem env" now] by (auto simp: announce_def announced_def)

text \<open>Whoever turns valid is announced.\<close>

lemma action_valid:
  assumes wf: "peers_wf (speers s)" and cb: "s_peer_cb s"
    and keeps: "keeps_peer (added_peer (re_peer_mem env) (peer_map (speers s) src) src tsft) p1"
    and others: "\<And>a. a \<noteq> src \<Longrightarrow> peer_map (speers s') a = peer_map (speers s) a"
    and src: "peer_map (speers s') src = Some (action_peer env src tsft subtype ok p1)"
  shows "valid_peers s' \<subseteq> valid_peers s \<union> announced (action_events env s src tsft subtype ok p1 ev)"
proof
  fix a
  assume a: "a \<in> valid_peers s'"
  let ?old = "peer_map (speers s) src"
  show "a \<in> valid_peers s \<union> announced (action_events env s src tsft subtype ok p1 ev)"
  proof (cases "a = src")
    case False
    then show ?thesis using a others by (simp add: valid_peers_def)
  next
    case True
    have old: "\<And>p. ?old = Some p \<Longrightarrow> p_addr p = src"
      using peer_map_addr wf by (auto simp: peers_wf_def)
    have p1: "p_is_valid p1 \<longleftrightarrow> (\<exists>p. ?old = Some p \<and> p_is_valid p) \<or> turned_valid ?old" "p_addr p1 = src"
      using keeps added_peer_addr [of ?old src "re_peer_mem env" tsft] old
      by (simp_all add: keeps_peer_def added_peer_valid)
    then have q: "p_is_valid (marked_mif subtype p1) = p_is_valid p1" "p_addr (marked_mif subtype p1) = src"
      by (simp_all add: marked_mif_def)
    have "p_is_valid (action_peer env src tsft subtype ok p1)"
      using a src True by (auto simp: valid_peers_def)
    then consider "\<exists>p. ?old = Some p \<and> p_is_valid p" | "turned_valid ?old"
      | "ok" "turned_valid (Some (marked_mif subtype p1))"
      using p1(1) q(1) by (auto simp: action_peer_def added_peer_valid split: if_splits)
    then show ?thesis
    proof cases
      case 1
      then show ?thesis using True by (simp add: valid_peers_def)
    next
      case 2
      then show ?thesis using True announce_announced [OF cb old, where env = env and now = tsft] by (simp add: action_events_def)
    next
      case 3
      then show ?thesis
        using True announce_announced [OF cb, where old = "Some (marked_mif subtype p1)" and a = src and env = env and now = tsft] q(2)
        by (simp add: action_events_def)
    qed
  qed
qed

lemma rx_dropped_valid: "rx_dropped s src s' \<Longrightarrow> valid_peers s' \<subseteq> valid_peers s"
  unfolding rx_dropped_def valid_peers_def map_le_def by (auto simp: dom_def)

lemma rx_action_safe_lemma:
  assumes wf: "peers_wf (speers s)" and env: "rx_env_ok env" and frame: "wf_buf frame"
  shows "\<exists>r s' evs. apple_p2p_rx_action env frame rssi tsft src dst s = Some (r, s', evs) \<and>
    (r = RX_IGNORE \<and> rx_dropped s src s' \<or> rx_preserves s src s') \<and>
    (s_peer_cb s \<longrightarrow> valid_peers s' \<subseteq> valid_peers s \<union> announced evs) \<and>
    (apple_p2p_parse_action_hdr frame < 0 \<or> rssi_ignored s rssi src \<longrightarrow> s' = s \<and> evs = [] \<and> 0 < r)"
proof (cases "apple_p2p_parse_action_hdr frame < 0 \<or> rssi_ignored s rssi src")
  case True
  then show ?thesis
    using rx_preserves_refl [OF wf] by (auto simp: apple_p2p_rx_action_def Let_def)
next
  case False
  obtain tlvs rest where parse: "parse_tlvs (drop 16 (buf_view frame)) = (tlvs, rest)" by force
  obtain ret p1 t ev where run: "run_tlvs (re_stack env) tsft (b_len frame - 16) tlvs
      (added_peer (re_peer_mem env) (peer_map (speers s) src) src tsft) s = (ret, p1, t, ev)"
    by (rule prod_cases4)
  have "stack_ok (re_stack env)" using env by (simp add: rx_env_ok_def)
  then have keeps: "keeps_peer (added_peer (re_peer_mem env) (peer_map (speers s) src) src tsft) p1"
    using run_tlvs_preserves run by blast
  let ?ok = "ret = None \<and> rest = []"
  from rx_action_correct [OF wf env frame refl _ _ parse run, of rssi dst] False
  obtain r s' evs where rx: "apple_p2p_rx_action env frame rssi tsft src dst s = Some (r, s', evs)"
    and post: "r = RX_IGNORE \<and> rx_dropped s src s' \<or>
      rx_preserves s src s' \<and> evs = action_events env s src tsft (apple_p2p_parse_action_hdr frame) ?ok p1 ev \<and>
      peer_map (speers s') src = Some (action_peer env src tsft (apple_p2p_parse_action_hdr frame) ?ok p1)"
    by (auto simp: not_less)
  have "valid_peers s' \<subseteq> valid_peers s \<union> announced evs" if "s_peer_cb s"
    using post rx_dropped_valid action_valid [OF wf that keeps, of s' "apple_p2p_parse_action_hdr frame" ?ok ev]
    by (elim disjE conjE) (blast | simp add: rx_preserves_def)+
  then show ?thesis using rx post False by blast
qed

text \<open>Whatever an action frame contains, its reception ends without touching memory it does
  not own, and changes only the sender's entry, the synchronisation and the counters; whoever
  turns valid is announced by a callback; a frame whose header is not ours, or that is weaker
  than the threshold (relaxed by the grace value for known senders), changes nothing at all.\<close>

theorem rx_action_safe:
  assumes "peers_wf (speers s)" and "rx_env_ok env" and "wf_buf frame"
  shows "\<exists>r s' evs. apple_p2p_rx_action env frame rssi tsft src dst s = Some (r, s', evs) \<and>
    (r = RX_IGNORE \<and> rx_dropped s src s' \<or> rx_preserves s src s') \<and>
    (s_peer_cb s \<longrightarrow> valid_peers s' \<subseteq> valid_peers s \<union> announced evs) \<and>
    (apple_p2p_parse_action_hdr frame < 0 \<or> rssi_ignored s rssi src \<longrightarrow> s' = s \<and> evs = [] \<and> 0 < r)"
  using assms by (rule rx_action_safe_lemma)

theorem rx_action_safe_witness:
  "\<exists>m. apple_p2p_rx_action sample_env (const_buf (sample_action [1, 2, 3])) (-66) 7
      (EtherAddr 2 0 0 0 0 3) ETHER_BROADCAST (sample_state m) = Some (RX_IGNORE_RSSI, sample_state m, [])"
proof -
  obtain m where m: "peers_wf m" "peer_map m = Map.empty" by (rule empty_peers_wf)
  let ?s = "sample_state m" and ?src = "EtherAddr 2 0 0 0 0 3"
  have sm: "speers ?s = m" by (simp add: sample_state_def)
  have weak: "rssi_ignored ?s (-66) ?src"
    using peer_get_spec [of m ?src] m
    by (simp add: rssi_ignored_def sample_state_def peers_wf_def Let_def)
  show ?thesis
    using rx_action_safe [OF _ sample_env_ok wf_const_buf, of ?s "sample_action [1, 2, 3]" "-66" 7 ?src
        ETHER_BROADCAST] m weak
    unfolding sm
    by (auto simp: apple_p2p_rx_action_def sample_action_hdr Let_def)
qed

end
