(* ===== verification/Tx_Layout.thy ===== *)
theory Tx_Layout
  imports Tx Rx
begin

text \<open>
  What the functions of tx.c write, as byte strings: every record is a type-length-value
  record with a correct length field, a complete action frame is the concatenation of its
  headers and records, and the only ways to fail are a host name that does not fit, an
  overflow of the clock, and an array that is too short.
\<close>

section \<open>Sequences of stores\<close>

lemma emit_first': "(\<And>mem ptr. f mem ptr = put mem ptr bs) \<Longrightarrow> emit f (start, mem) = emitted mem start bs"
  by (simp add: emitted_def emit_def put_def)

lemma emitted_patched:
  assumes "pos = start + length as" and "\<And>n. length (h n) = length bs"
  shows "Option.bind (emitted mem start (as @ bs @ cs))
      (\<lambda>st. Option.bind (put (snd st) pos (h (fst st))) (\<lambda>(_, mem). Some (fst st - start, mem))) =
    put mem start (as @ h (start + length (as @ bs @ cs)) @ cs)"
proof -
  let ?n = "start + length (as @ bs @ cs)"
  have *: "Option.bind (emitted mem start (as @ bs @ cs))
      (\<lambda>st. Option.bind (put (snd st) pos (h (fst st))) (\<lambda>(_, mem). Some (fst st - start, mem))) =
    Option.bind (emitted mem start (as @ bs @ cs))
      (\<lambda>st. Option.bind (put (snd st) pos (h ?n)) (\<lambda>(_, mem). Some (fst st - start, mem)))"
    by (simp add: emitted_def)
  show ?thesis
    unfolding * by (subst emitted_patch [OF assms(1)]) (simp_all add: assms(2) emitted_def put_def)
qed

lemmas emit_plain = refl [THEN emit_puts(1)] refl [THEN emit_puts(2)] emit_first' [OF refl]

section \<open>Records\<close>

definition chanseq_body :: "apple_p2p_channel_state \<Rightarrow> u8 list" where
  "chanseq_body ch = apple_p2p_chanseq_bytes
       \<lparr>c_count = 15, c_encoding = word_of_int (ch_enc ch), c_duplicate_count = 0, c_step_count = 3,
        c_fill_channel = 0xffff\<rparr> @
     concat (map (\<lambda>c. take (apple_p2p_chan_encoding_length (ch_enc ch)) (chan_bytes c)) (ch_sequence ch))"

lemma chanseq_copy_eq:
  "Option.bind (emitted mem start as) (chanseq_copy n cs) =
     emitted mem start (as @ concat (map (\<lambda>c. take n (chan_bytes c)) cs))"
proof (induction cs arbitrary: as)
  case Nil
  show ?case by (simp cong: Option.bind_cong)
next
  case (Cons c cs)
  have "Option.bind (emitted mem start as) (\<lambda>st. chanseq_copy n (c # cs) st) =
      Option.bind (emitted mem start (as @ take n (chan_bytes c))) (chanseq_copy n cs)"
    by (simp add: emit_plain)
  then show ?case by (simp add: Cons.IH)
qed

lemma chanseq_copy_bind:
  "Option.bind (emitted mem start as) (\<lambda>st. Option.bind (chanseq_copy n cs st) g) =
     Option.bind (emitted mem start (as @ concat (map (\<lambda>c. take n (chan_bytes c)) cs))) g"
  unfolding chanseq_copy_eq [symmetric] by (rule Option.bind_assoc [symmetric])

lemma init_chanseq_eq:
  "apple_p2p_init_chanseq state mem buf = put mem buf (chanseq_body (s_channel state))"
  by (simp add: apple_p2p_init_chanseq_def emit_plain chanseq_copy_bind from_start_emitted chanseq_body_def Let_def)

lemmas emit_chanseq = init_chanseq_eq [THEN emit_puts(2)]

text \<open>The values of the records.\<close>

definition sync_value :: "u64 \<Rightarrow> apple_p2p_state \<Rightarrow> u8 list" where
  "sync_value now s =
     (let sync = s_sync s; enc = ch_enc (s_channel s); p = presence_mode sync;
          down = apple_p2p_sync_next_aw_tu now sync; aw = apple_p2p_sync_current_aw now sync
      in apple_p2p_chan_num (ch_current (s_channel s)) enc # le_bytes 2 down @
         [apple_p2p_chan_num (ch_master (s_channel s)) enc, 0] @
         le_bytes 2 (aw_period sync) @ le_bytes 2 (s_psf_interval s) @ le_bytes 2 (0x1800 :: u16) @
         le_bytes 2 (aw_period sync) @ le_bytes 2 (aw_period sync) @
         le_bytes 2 (remaining_aw_length (aw_period sync) (aw_period sync) p down) @
         [p - 1, p - 1, p - 1, p - 1] @ octets (e_master_addr (s_election s)) @ [p, 0] @
         le_bytes 2 aw @ le_bytes 2 aw @ chanseq_body (s_channel s) @ [0, 0])"

definition chanseq_value :: "apple_p2p_state \<Rightarrow> u8 list" where
  "chanseq_value s = chanseq_body (s_channel s) @ [0, 0, 0]"

definition election_value :: "apple_p2p_election_state \<Rightarrow> u8 list" where
  "election_value e = [0, 0, 0, ucast (e_height e), 0] @ octets (e_master_addr e) @
     le_bytes 4 (e_master_metric e) @ le_bytes 4 (e_self_metric e) @ [0, 0]"

definition election_v2_value :: "apple_p2p_election_state \<Rightarrow> u8 list" where
  "election_v2_value e = octets (e_master_addr e) @ octets (e_sync_addr e) @
     le_bytes 4 (e_master_counter e) @ le_bytes 4 (e_height e) @ le_bytes 4 (e_master_metric e) @
     le_bytes 4 (e_self_metric e) @ replicate 8 0 @ le_bytes 4 (e_self_counter e)"

definition service_params_value :: "u8 list" where "service_params_value = replicate 9 0"

definition ht_value :: "u8 list" where "ht_value = [0, 0, 0xee, 0x01, 0x19, 0, 0, 0]"

definition data_path_value :: "apple_p2p_state \<Rightarrow> u8 list" where
  "data_path_value s = le_bytes 2 (0x8f64 :: u16) @ [67, 78, 0] @ le_bytes 2 (social_channels s) @
     octets (s_self_address s) @ [0, 0]"

definition arpa_value :: "u8 list \<Rightarrow> u8 list" where
  "arpa_value name = [3, of_nat (length name)] @ name @ [0xc0, 0x0c]"

definition version_value :: "apple_p2p_state \<Rightarrow> u8 list" where
  "version_value s = [s_version s, s_dev_class s]"

definition enc_ok :: "apple_p2p_state \<Rightarrow> bool" where
  "enc_ok s \<longleftrightarrow> length (ch_sequence (s_channel s)) = 16 \<and> ch_enc (s_channel s) = APPLE_P2P_CHAN_ENC_OPCLASS"

lemma chan_bytes_opclass [simp]: "take 2 (chan_bytes c) = chan_bytes c" "length (chan_bytes c) = 2"
  by (cases c; simp)+

lemma length_chanseq_body [simp]:
  "length (ch_sequence ch) = 16 \<Longrightarrow> ch_enc ch = APPLE_P2P_CHAN_ENC_OPCLASS \<Longrightarrow> length (chanseq_body ch) = 38"
  by (simp add: chanseq_body_def apple_p2p_chan_encoding_length_def length_concat comp_def sum_list_triv)

lemma chan_encoding_length_le: "apple_p2p_chan_encoding_length enc \<le> 2"
  by (simp add: apple_p2p_chan_encoding_length_def)

lemma init_sync_params_eq:
  "apple_p2p_init_sync_params_tlv reading s mem buf =
     do { now \<leftarrow> clock_time_us reading;
          put mem buf (tlv_bytes APPLE_P2P_SYNCHRONIZATON_PARAMETERS_TLV (sync_value now s)) }"
proof (cases "clock_time_us reading")
  case None
  then show ?thesis by (simp add: apple_p2p_init_sync_params_tlv_def)
next
  case (Some now)
  let ?old = "le_bytes 2 (le_word (slice mem (buf + 1) 2) :: u16)"
  have z: "replicate 2 (0 :: u8) = [0, 0]" by (simp add: eval_nat_numeral)
  have "apple_p2p_init_sync_params_tlv reading s mem buf =
    Option.bind (emitted mem buf ([APPLE_P2P_SYNCHRONIZATON_PARAMETERS_TLV] @ ?old @ sync_value now s)) (\<lambda>st.
      Option.bind (put (snd st) (buf + 1) (le_bytes 2 (of_nat (fst st - buf - sizeof_tl) :: u16)))
        (\<lambda>(_, mem). Some (fst st - buf, mem)))"
    by (simp add: apple_p2p_init_sync_params_tlv_def Some Let_def emit_plain emit_chanseq packed_defs z
        sync_value_def)
  also have "\<dots> = put mem buf ([APPLE_P2P_SYNCHRONIZATON_PARAMETERS_TLV] @
      le_bytes 2 (of_nat (buf + length ([APPLE_P2P_SYNCHRONIZATON_PARAMETERS_TLV] @ ?old @ sync_value now s) -
        buf - sizeof_tl) :: u16) @ sync_value now s)"
    by (rule emitted_patched) simp_all
  finally show ?thesis by (simp add: tlv_bytes_def Some)
qed

lemma init_chanseq_tlv_eq:
  "apple_p2p_init_chanseq_tlv s mem buf = put mem buf (tlv_bytes APPLE_P2P_CHAN_SEQ_TLV (chanseq_value s))"
proof -
  let ?old = "le_bytes 2 (le_word (slice mem (buf + 1) 2) :: u16)"
  have "apple_p2p_init_chanseq_tlv s mem buf =
    Option.bind (emitted mem buf ([APPLE_P2P_CHAN_SEQ_TLV] @ ?old @ chanseq_value s)) (\<lambda>st.
      Option.bind (put (snd st) (buf + 1) (le_bytes 2 (of_nat (fst st - buf - sizeof_tl) :: u16)))
        (\<lambda>(_, mem). Some (fst st - buf, mem)))"
    by (simp add: apple_p2p_init_chanseq_tlv_def Let_def emit_plain emit_chanseq packed_defs chanseq_value_def)
  also have "\<dots> = put mem buf ([APPLE_P2P_CHAN_SEQ_TLV] @
      le_bytes 2 (of_nat (buf + length ([APPLE_P2P_CHAN_SEQ_TLV] @ ?old @ chanseq_value s) -
        buf - sizeof_tl) :: u16) @ chanseq_value s)"
    by (rule emitted_patched) simp_all
  finally show ?thesis by (simp add: tlv_bytes_def)
qed

lemma init_simple_eqs:
  "apple_p2p_init_election_params_tlv s mem buf =
     put mem buf (tlv_bytes APPLE_P2P_ELECTION_PARAMETERS_TLV (election_value (s_election s)))"
  "apple_p2p_init_election_params_v2_tlv s mem buf =
     put mem buf (tlv_bytes APPLE_P2P_ELECTION_PARAMETERS_V2_TLV (election_v2_value (s_election s)))"
  "apple_p2p_init_service_params_tlv s mem buf =
     put mem buf (tlv_bytes APPLE_P2P_SERVICE_PARAMETERS_TLV service_params_value)"
  "apple_p2p_init_ht_capabilities_tlv s mem buf =
     put mem buf (tlv_bytes APPLE_P2P_ENHANCED_DATA_RATE_CAPABILITIES_TLV ht_value)"
  "apple_p2p_init_data_path_state_tlv s mem buf =
     put mem buf (tlv_bytes APPLE_P2P_DATA_PATH_STATE_TLV (data_path_value s))"
  "apple_p2p_init_version_tlv s mem buf =
     put mem buf (tlv_bytes APPLE_P2P_VERSION_TLV (version_value s))"
proof -
  have z: "replicate 2 (0 :: u8) = [0, 0]" "replicate 4 (0 :: u8) = [0, 0, 0, 0]"
    "replicate 8 (0 :: u8) = [0, 0, 0, 0, 0, 0, 0, 0]" "replicate 9 (0 :: u8) = [0, 0, 0, 0, 0, 0, 0, 0, 0]"
    by (simp_all add: eval_nat_numeral)
  have ee: "le_bytes 2 (0x01ee :: u16) = [0xee, 0x01]" by code_simp
  note defs = packed_defs tlv_bytes_def z
  show
  "apple_p2p_init_election_params_tlv s mem buf =
     put mem buf (tlv_bytes APPLE_P2P_ELECTION_PARAMETERS_TLV (election_value (s_election s)))"
    by (simp add: apple_p2p_init_election_params_tlv_def defs election_value_def)
  show
  "apple_p2p_init_election_params_v2_tlv s mem buf =
     put mem buf (tlv_bytes APPLE_P2P_ELECTION_PARAMETERS_V2_TLV (election_v2_value (s_election s)))"
    by (simp add: apple_p2p_init_election_params_v2_tlv_def defs election_v2_value_def)
  show
  "apple_p2p_init_service_params_tlv s mem buf =
     put mem buf (tlv_bytes APPLE_P2P_SERVICE_PARAMETERS_TLV service_params_value)"
    by (simp add: apple_p2p_init_service_params_tlv_def defs service_params_value_def)
  show
  "apple_p2p_init_ht_capabilities_tlv s mem buf =
     put mem buf (tlv_bytes APPLE_P2P_ENHANCED_DATA_RATE_CAPABILITIES_TLV ht_value)"
    by (simp add: apple_p2p_init_ht_capabilities_tlv_def defs ht_value_def ee)
  show
  "apple_p2p_init_data_path_state_tlv s mem buf =
     put mem buf (tlv_bytes APPLE_P2P_DATA_PATH_STATE_TLV (data_path_value s))"
    by (simp add: apple_p2p_init_data_path_state_tlv_def defs data_path_value_def)
  show
  "apple_p2p_init_version_tlv s mem buf =
     put mem buf (tlv_bytes APPLE_P2P_VERSION_TLV (version_value s))"
    by (simp add: apple_p2p_init_version_tlv_def defs version_value_def)
qed

text \<open>The arpa record, and the service responses.\<close>

lemma init_arpa_eq:
  assumes "c_string (s_name s) = Some name" and "length name < 256"
  shows "apple_p2p_init_arpa_tlv s mem buf = put mem buf (tlv_bytes APPLE_P2P_ARPA_TLV (arpa_value name))"
proof -
  have t: "take (length name) (s_name s) = name" using take_cstr [OF assms(1)] by simp
  have u: "unat (of_nat (length name) + 4 :: u16) = length name + 4"
    using unat_word_of_nat [of "length name + 4", where ?'a = 16] assms(2) by simp
  have local: "be_bytes 2 APPLE_P2P_DNS_SHORT_LOCAL = [0xc0, 0x0c]" by code_simp
  have "apple_p2p_init_arpa_tlv s mem buf =
    Option.bind (emitted mem buf (tlv_bytes APPLE_P2P_ARPA_TLV (arpa_value name)))
      (\<lambda>st. Some (7 + length name, snd st))"
    using assms by (simp add: apple_p2p_init_arpa_tlv_def Let_def emit_plain packed_defs tlv_bytes_def t u
        arpa_value_def local add.commute)
  also have "\<dots> = put mem buf (tlv_bytes APPLE_P2P_ARPA_TLV (arpa_value name))"
    by (simp add: emitted_def put_def arpa_value_def)
  finally show ?thesis .
qed

lemma init_service_response_eq:
  assumes "put none 0 bs = Some (n, data)" and "length bs < 2 ^ 16"
  shows "apple_p2p_init_service_response_tlv data n mem buf =
    put mem buf (tlv_bytes APPLE_P2P_SERVICE_RESPONSE_TLV bs)"
proof -
  have n: "n = length bs" and le: "n \<le> length data" and t: "take n data = bs"
    using put_SomeD [OF assms(1)] put_take [OF assms(1)] by auto
  have u: "unat (of_nat n :: u16) = n" using assms(2) n by (simp add: unat_word_of_nat)
  have b: "tlv_bytes APPLE_P2P_SERVICE_RESPONSE_TLV bs =
      tl_bytes APPLE_P2P_SERVICE_RESPONSE_TLV (of_nat n) @ bs"
    by (simp add: tlv_bytes_def tl_bytes_def n)
  show ?thesis
    using le t u n overwrite_append [of buf "tl_bytes APPLE_P2P_SERVICE_RESPONSE_TLV (of_nat n)" bs mem]
    by (auto simp: apple_p2p_init_service_response_tlv_def put_def b Let_def)
qed

section \<open>Headers\<close>

definition radiotap_fields_bytes :: "apple_p2p_state \<Rightarrow> u8 list" where
  "radiotap_fields_bytes s = [0, 24] @ le_bytes 2 (word_of_int (ieee80211_channel_to_frequency
       (uint (apple_p2p_chan_num (ch_master (s_channel s)) (ch_enc (s_channel s))))) :: u16) @
     [0x40, 0x01, 0xe2, 0, 0, 0]"

definition radiotap_bytes :: "apple_p2p_state \<Rightarrow> u8 list" where
  "radiotap_bytes s = [0, 0] @ le_bytes 2 (18 :: u16) @ le_bytes 4 radiotap_present @ radiotap_fields_bytes s"

lemma length_radiotap_bytes [simp]: "length (radiotap_fields_bytes s) = 10" "length (radiotap_bytes s) = 18"
  by (simp_all add: radiotap_bytes_def radiotap_fields_bytes_def)

lemma init_radiotap_eq: "ieee80211_init_radiotap_header s mem buf = put mem buf (radiotap_bytes s)"
proof -
  let ?old = "le_bytes 2 (le_word (slice mem (buf + 2) 2) :: u16) @ le_bytes 4 (le_word (slice mem (buf + 4) 4) :: u32)"
  have c: "le_bytes 2 (320 :: u16) = [0x40, 0x01]"
    "(of_nat (ieee80211_radiotap_rate_to_val 12) :: u8) = 24" "(- 30 :: u8) = 0xe2"
    "replicate 2 (0 :: u8) = [0, 0]"
    by code_simp+
  have "ieee80211_init_radiotap_header s mem buf =
    Option.bind (emitted mem buf ([0, 0] @ ?old @ radiotap_fields_bytes s)) (\<lambda>st.
      Option.bind (put (snd st) (buf + 2) (le_bytes 2 (of_nat (fst st - buf) :: u16) @ le_bytes 4 radiotap_present))
        (\<lambda>(_, mem). Some (fst st - buf, mem)))"
    by (simp add: ieee80211_init_radiotap_header_def Let_def emit_plain packed_defs radiotap_fields_bytes_def c)
  also have "\<dots> = put mem buf ([0, 0] @
      (le_bytes 2 (of_nat (buf + length ([0, 0] @ ?old @ radiotap_fields_bytes s) - buf) :: u16) @
       le_bytes 4 radiotap_present) @ radiotap_fields_bytes s)"
    by (rule emitted_patched) simp_all
  finally show ?thesis by (simp add: radiotap_bytes_def)
qed

definition hdr_bytes :: "ether_addr \<Rightarrow> ether_addr \<Rightarrow> u16 \<Rightarrow> u16 \<Rightarrow> u8 list" where
  "hdr_bytes src dst fc seq = le_bytes 2 fc @ [0, 0] @ octets dst @ octets src @ octets APPLE_P2P_BSSID @
     le_bytes 2 (push_bit 4 seq)"

definition next_ieee80211 :: "ieee80211_state \<Rightarrow> ieee80211_state" where
  "next_ieee80211 s = snd (ieee80211_state_next_sequence_number s)"

lemma init_hdr_eq:
  "ieee80211_init_apple_p2p_hdr src dst s typ mem buf =
     map_option (\<lambda>(n, mem). (n, mem, next_ieee80211 s))
       (put mem buf (hdr_bytes src dst typ (i_sequence_number s)))"
proof -
  have "ucast (push_bit 4 (ucast q :: u32)) = (push_bit 4 q :: u16)" for q :: u16
    by (rule bit_word_eqI) (auto simp: bit_simps)
  moreover have "replicate 2 (0 :: u8) = [0, 0]" by (simp add: eval_nat_numeral)
  ultimately show ?thesis
    by (simp add: ieee80211_init_apple_p2p_hdr_def next_ieee80211_def ieee80211_state_next_sequence_number_def
        Let_def packed_defs hdr_bytes_def)
qed

definition llc_bytes :: "u8 list" where "llc_bytes = [0xaa, 0xaa, 0x03, 0x00, 0x17, 0xf2, 0x08, 0x00]"

lemma init_llc_eq: "llc_init_apple_p2p_hdr mem buf = put mem buf llc_bytes"
proof -
  have "be_bytes 2 APPLE_P2P_LLC_PROTOCOL_ID = [0x08, 0x00]" by code_simp
  then show ?thesis
    by (simp add: llc_init_apple_p2p_hdr_def packed_defs llc_bytes_def APPLE_P2P_OUI_def)
qed

definition data_bytes :: "apple_p2p_state \<Rightarrow> u8 list" where
  "data_bytes s = [0x03, 0x04] @ le_bytes 2 (s_sequence_number s) @ [0, 0, 0x86, 0xdd]"

lemma init_data_eq:
  "apple_p2p_init_data mem buf s =
     map_option (\<lambda>(n, mem). (n, mem, s\<lparr>s_sequence_number := s_sequence_number s + 1\<rparr>))
       (put mem buf (data_bytes s))"
proof -
  have "le_bytes 2 APPLE_P2P_DATA_HEAD = [0x03, 0x04]" "be_bytes 2 ETH_P_IPV6 = [0x86, 0xdd]"
    "replicate 2 (0 :: u8) = [0, 0]"
    by code_simp+
  then show ?thesis
    by (simp add: apple_p2p_init_data_def apple_p2p_state_next_sequence_number_def Let_def packed_defs data_bytes_def)
qed

definition action_bytes :: "u32 \<Rightarrow> u8 \<Rightarrow> u8 list" where
  "action_bytes now typ = [127, 0x00, 0x17, 0xf2, 8, 0x10, typ, 0] @ le_bytes 4 now @ le_bytes 4 now"

lemma init_action_eq:
  "apple_p2p_init_action reading typ mem buf =
     do { now \<leftarrow> clock_time_us reading; put mem buf (action_bytes (ucast now) typ) }"
  by (simp add: apple_p2p_init_action_def packed_defs action_bytes_def APPLE_P2P_OUI_def Let_def cong: Option.bind_cong)

section \<open>Complete frames\<close>

definition airplay_texts :: "u8 list list" where
  "airplay_texts = map (\<lambda>t. butlast t) airplay_txt"

definition raop_texts :: "u8 list list" where
  "raop_texts = map (\<lambda>t. butlast t) raop_txt"

lemma texts_strings:
  "c_strings (take airplay_txt_count airplay_txt) = Some airplay_texts"
  "c_strings (take raop_txt_count raop_txt) = Some raop_texts"
  "airplay_txt_count \<le> length airplay_txt" "raop_txt_count \<le> length raop_txt"
  "length (concat (map label airplay_texts)) = 207" "length (concat (map label raop_texts)) = 208"
  by code_simp+

definition raop_domain :: "ether_addr \<Rightarrow> u8 list \<Rightarrow> u8 list" where
  "raop_domain mac name = concat (map fmt_02x (octets mac)) @ bytes_of ''@'' @ name"

definition service_records :: "ether_addr \<Rightarrow> u8 list \<Rightarrow> u8 list list" where
  "service_records mac name =
     [ptr_record name APPLE_P2P_DNS_SHORT_AIRPLAY_TCP,
      ptr_record (raop_domain mac name) APPLE_P2P_DNS_SHORT_RAOP_TCP,
      srv_record name name APPLE_P2P_DNS_SHORT_AIRPLAY_TCP 7000,
      srv_record (raop_domain mac name) name APPLE_P2P_DNS_SHORT_RAOP_TCP 5000,
      txt_record name APPLE_P2P_DNS_SHORT_AIRPLAY_TCP airplay_texts,
      txt_record (raop_domain mac name) APPLE_P2P_DNS_SHORT_RAOP_TCP raop_texts]"

definition action_records :: "u64 \<Rightarrow> apple_p2p_state \<Rightarrow> u8 \<Rightarrow> u8 list \<Rightarrow> (u8 \<times> u8 list) list" where
  "action_records now s typ name =
     [(APPLE_P2P_SYNCHRONIZATON_PARAMETERS_TLV, sync_value now s),
      (APPLE_P2P_ELECTION_PARAMETERS_TLV, election_value (s_election s)),
      (APPLE_P2P_CHAN_SEQ_TLV, chanseq_value s),
      (APPLE_P2P_ELECTION_PARAMETERS_V2_TLV, election_v2_value (s_election s)),
      (APPLE_P2P_SERVICE_PARAMETERS_TLV, service_params_value)] @
     (if typ = APPLE_P2P_ACTION_MIF
      then [(APPLE_P2P_ENHANCED_DATA_RATE_CAPABILITIES_TLV, ht_value), (APPLE_P2P_ARPA_TLV, arpa_value name)]
      else []) @
     [(APPLE_P2P_DATA_PATH_STATE_TLV, data_path_value s), (APPLE_P2P_VERSION_TLV, version_value s)] @
     (if typ = APPLE_P2P_ACTION_MIF
      then map (Pair APPLE_P2P_SERVICE_RESPONSE_TLV) (service_records (s_self_address s) name) else [])"

definition action_frame :: "apple_p2p_state \<Rightarrow> u16 \<Rightarrow> u8 \<Rightarrow> u64 \<Rightarrow> u64 \<Rightarrow> u8 list \<Rightarrow> u8 list" where
  "action_frame s seq typ now1 now2 name = radiotap_bytes s @
     hdr_bytes (s_self_address s) (s_dst s) (IEEE80211_FTYPE_MGMT OR IEEE80211_STYPE_ACTION) seq @
     action_bytes (ucast now1) typ @ tlvs_bytes (action_records now2 s typ name)"

definition data_frame :: "apple_p2p_state \<Rightarrow> u16 \<Rightarrow> ether_addr \<Rightarrow> ether_addr \<Rightarrow> u8 list \<Rightarrow> u8 list" where
  "data_frame s seq src dst payload = radiotap_bytes s @
     hdr_bytes src dst (IEEE80211_FTYPE_DATA OR IEEE80211_STYPE_DATA) seq @ llc_bytes @ data_bytes s @ payload"

definition with_fcs :: "bool \<Rightarrow> u8 list \<Rightarrow> u8 list" where
  "with_fcs fcs bs = bs @ (if fcs then le_bytes 4 (crc32 bs) else [])"

lemma emit_fcs:
  "Option.bind (emitted mem buf as) (\<lambda>st. Option.bind (if fcs then emit (ieee80211_add_fcs buf) st else Some st) g) =
   Option.bind (emitted mem buf (with_fcs fcs as)) g"
proof (cases fcs)
  case True
  have "emit (ieee80211_add_fcs buf) st = emit (\<lambda>mem ptr. put mem ptr (le_bytes 4 (crc32 as))) st"
    if "emitted mem buf as = Some st" for st
    using that by (auto simp: emitted_def emit_def ieee80211_add_fcs_def slice_overwrite_same split: if_splits)
  then have "Option.bind (emitted mem buf as) (\<lambda>st. Option.bind (emit (ieee80211_add_fcs buf) st) g) =
      Option.bind (emitted mem buf as) (\<lambda>st. Option.bind (emit (\<lambda>mem ptr. put mem ptr (le_bytes 4 (crc32 as))) st) g)"
    by (cases "emitted mem buf as") auto
  then show ?thesis using True by (simp add: emit_plain with_fcs_def)
qed (simp add: with_fcs_def)

lemma emit_result:
  "Option.bind (emitted mem buf bs) (\<lambda>st. Some (fst st - buf, snd st, x)) =
     map_option (\<lambda>(n, mem). (n, mem, x)) (put mem buf bs)"
  by (simp add: emitted_def put_def)

lemma emit_action_hdr:
  "Option.bind (emitted mem start as) (\<lambda>st. Option.bind
     (emit_with (ieee80211_init_apple_p2p_action_hdr src dst i) st) (\<lambda>(st, s). g st s)) =
   Option.bind (emitted mem start
     (as @ hdr_bytes src dst (IEEE80211_FTYPE_MGMT OR IEEE80211_STYPE_ACTION) (i_sequence_number i)))
     (\<lambda>st. g st (next_ieee80211 i))"
  by (rule emit_with_put) (simp add: ieee80211_init_apple_p2p_action_hdr_def init_hdr_eq)

lemma emit_data_hdr:
  "Option.bind (emitted mem start as) (\<lambda>st. Option.bind
     (emit_with (ieee80211_init_apple_p2p_data_hdr src dst i) st) (\<lambda>(st, s). g st s)) =
   Option.bind (emitted mem start
     (as @ hdr_bytes src dst (IEEE80211_FTYPE_DATA OR IEEE80211_STYPE_DATA) (i_sequence_number i)))
     (\<lambda>st. g st (next_ieee80211 i))"
  by (rule emit_with_put) (simp add: ieee80211_init_apple_p2p_data_hdr_def init_hdr_eq)

lemma emit_data:
  "Option.bind (emitted mem start as) (\<lambda>st. Option.bind
     (emit_with (\<lambda>mem ptr. apple_p2p_init_data mem ptr s) st) (\<lambda>(st, s). g st s)) =
   Option.bind (emitted mem start (as @ data_bytes s))
     (\<lambda>st. g st (s\<lparr>s_sequence_number := s_sequence_number s + 1\<rparr>))"
  by (rule emit_with_put) (rule init_data_eq)

lemma fcs_next [simp]: "i_fcs (next_ieee80211 i) = i_fcs i"
  by (simp add: next_ieee80211_def ieee80211_state_next_sequence_number_def Let_def)

lemma full_data_frame_eq:
  assumes "plen \<le> length payload"
  shows "apple_p2p_init_full_data_frame mem buf src dst payload plen s i =
    map_option (\<lambda>(n, mem). (n, mem, s\<lparr>s_sequence_number := s_sequence_number s + 1\<rparr>, next_ieee80211 i))
      (put mem buf (with_fcs (i_fcs i) (data_frame s (i_sequence_number i) src dst (take plen payload))))"
proof -
  note first = init_radiotap_eq [THEN emit_first'] and llc = init_llc_eq [THEN emit_puts(2)]
  show ?thesis
    using assms by (simp add: apple_p2p_init_full_data_frame_def first llc emit_data_hdr emit_data emit_plain
        emit_fcs emit_result data_frame_def)
qed

text \<open>The six discovery records fit their arrays, whatever the name.\<close>

lemma c_string_mac: "c_string (mac_string mac) = Some (concat (map fmt_02x (octets mac)))"
proof -
  let ?h = "concat (map fmt_02x (octets mac))"
  have "length ?h = 12" by (cases mac) simp
  then have "mac_string mac = ?h @ 0 # replicate 3 0"
    by (simp add: mac_string_def overwrite_def)
  moreover have "0 \<notin> set ?h" using fmt_02x_not_nul by auto
  ultimately show ?thesis by simp
qed

lemma service_record_lengths:
  "length (ptr_record d w) = length d + 12"
  "length (srv_record d h w port) = length d + length h + 19"
  "length (txt_record d w ts) = length d + length (concat (map label ts)) + 10"
  by (simp_all add: ptr_record_def srv_record_def txt_record_def)

text \<open>A prepared record is appended as a type-length-value record.\<close>

lemma prepared_put:
  fixes addr :: ether_addr
  assumes "c_string name = Some str" and "length str \<le> 50"
  defines "none \<equiv> replicate DATA_SIZE 0" and "mac \<equiv> mac_string addr"
  shows "getPtrData none name w None = put none 0 (ptr_record str w)"
    and "getPtrData none name w (Some mac) = put none 0 (ptr_record (raop_domain addr str) w)"
    and "getSrvData none name w None port = put none 0 (srv_record str str w port)"
    and "getSrvData none name w (Some mac) port = put none 0 (srv_record (raop_domain addr str) str w port)"
    and "getTxtData none name w None airplay_txt airplay_txt_count = put none 0 (txt_record str w airplay_texts)"
    and "getTxtData none name w (Some mac) raop_txt raop_txt_count =
      put none 0 (txt_record (raop_domain addr str) w raop_texts)"
proof -
  have len: "length (concat (map fmt_02x (octets addr))) = 12" by (cases addr) simp
  have d: "fill_domain name None = Some str" "fill_domain name (Some mac) = Some (raop_domain addr str)"
    using assms fill_domain_airplay [of name str] fill_domain_raop [OF assms(1) c_string_mac len]
    by (simp_all add: raop_domain_def)
  show "getPtrData none name w None = put none 0 (ptr_record str w)"
    and "getPtrData none name w (Some mac) = put none 0 (ptr_record (raop_domain addr str) w)"
    and "getSrvData none name w None port = put none 0 (srv_record str str w port)"
    and "getSrvData none name w (Some mac) port = put none 0 (srv_record (raop_domain addr str) str w port)"
    and "getTxtData none name w None airplay_txt airplay_txt_count = put none 0 (txt_record str w airplay_texts)"
    and "getTxtData none name w (Some mac) raop_txt raop_txt_count =
      put none 0 (txt_record (raop_domain addr str) w raop_texts)"
    using assms(1) texts_strings d
    by (simp_all add: getPtrData_eq getSrvData_eq getTxtData_eq)
qed

lemma prepared_emit:
  assumes "length bs \<le> DATA_SIZE"
  shows "Option.bind (put (replicate DATA_SIZE 0) 0 bs) (\<lambda>(n, data). g n data) =
    g (length bs) (overwrite (replicate DATA_SIZE 0) 0 bs)"
    and "apple_p2p_init_service_response_tlv (overwrite (replicate DATA_SIZE 0) 0 bs) (length bs) mem buf =
      put mem buf (tlv_bytes APPLE_P2P_SERVICE_RESPONSE_TLV bs)"
proof -
  have "put (replicate DATA_SIZE 0) 0 bs = Some (length bs, overwrite (replicate DATA_SIZE 0) 0 bs)"
    using assms by (simp add: put_def)
  then show "Option.bind (put (replicate DATA_SIZE 0) 0 bs) (\<lambda>(n, data). g n data) =
    g (length bs) (overwrite (replicate DATA_SIZE 0) 0 bs)"
    and "apple_p2p_init_service_response_tlv (overwrite (replicate DATA_SIZE 0) 0 bs) (length bs) mem buf =
      put mem buf (tlv_bytes APPLE_P2P_SERVICE_RESPONSE_TLV bs)"
    using init_service_response_eq assms by simp_all
qed

lemma raop_domain_length: "length (raop_domain addr str) = length str + 13"
  by (cases addr) (simp add: raop_domain_def bytes_of_def)

lemma full_action_frame_fits:
  assumes name: "c_string (s_name s) = Some name" "length name \<le> 50"
    and clk: "clock_time_us clk1 = Some now1" "clock_time_us clk2 = Some now2"
  shows "apple_p2p_init_full_action_frame clk1 clk2 mem buf s i typ =
    map_option (\<lambda>(n, mem). (n, mem, next_ieee80211 i))
      (put mem buf (with_fcs (i_fcs i) (action_frame s (i_sequence_number i) typ now1 now2 name)))"
proof -
  note first = init_radiotap_eq [THEN emit_first']
  have act: "apple_p2p_init_action clk1 t mem buf = put mem buf (action_bytes (ucast now1) t)" for t mem buf
    by (simp add: init_action_eq clk)
  have sync: "apple_p2p_init_sync_params_tlv clk2 s mem buf =
      put mem buf (tlv_bytes APPLE_P2P_SYNCHRONIZATON_PARAMETERS_TLV (sync_value now2 s))" for mem buf
    by (simp add: init_sync_params_eq clk)
  have arpa: "apple_p2p_init_arpa_tlv s mem buf = put mem buf (tlv_bytes APPLE_P2P_ARPA_TLV (arpa_value name))"
    for mem buf using name by (intro init_arpa_eq) auto
  note tlvs = act sync init_chanseq_tlv_eq init_simple_eqs arpa
  note emits = tlvs [THEN emit_puts(2)]
  note prep = prepared_put [OF name]
  have fits: "length (ptr_record name w) \<le> DATA_SIZE" "length (ptr_record (raop_domain a name) w) \<le> DATA_SIZE"
    "length (srv_record name name w p) \<le> DATA_SIZE" "length (srv_record (raop_domain a name) name w p) \<le> DATA_SIZE"
    "length (txt_record name w airplay_texts) \<le> DATA_SIZE"
    "length (txt_record (raop_domain a name) w raop_texts) \<le> DATA_SIZE" for w a p
    using name(2) texts_strings by (simp_all only: service_record_lengths raop_domain_length)
  note responses = fits [THEN prepared_emit(2), THEN emit_puts(2)] fits [THEN prepared_emit(2), THEN emit_puts(1)]
  show ?thesis
  proof (cases "typ = APPLE_P2P_ACTION_MIF")
    case True
    then show ?thesis
      by (simp add: apple_p2p_init_full_action_frame_def Let_def prep fits [THEN prepared_emit(1)] first
          emit_action_hdr emits responses emit_fcs emit_result action_frame_def action_records_def
          service_records_def)
  next
    case False
    then show ?thesis
      by (simp add: apple_p2p_init_full_action_frame_def Let_def prep fits [THEN prepared_emit(1)] first
          emit_action_hdr emits emit_fcs emit_result action_frame_def action_records_def)
  qed
qed

lemma emit_None: "(\<And>mem ptr. f mem ptr = None) \<Longrightarrow> emit f st = None"
  by (simp add: emit_def split: prod.split)

lemma full_action_frame_correct:
  "apple_p2p_init_full_action_frame clk1 clk2 mem buf s i typ =
     do { name \<leftarrow> c_string (s_name s); now1 \<leftarrow> clock_time_us clk1; now2 \<leftarrow> clock_time_us clk2;
          (if length name \<le> 50
           then map_option (\<lambda>(n, mem). (n, mem, next_ieee80211 i))
             (put mem buf (with_fcs (i_fcs i) (action_frame s (i_sequence_number i) typ now1 now2 name)))
           else None) }"
proof (cases "c_string (s_name s)")
  case None
  then show ?thesis by (simp add: apple_p2p_init_full_action_frame_def getPtrData_eq fill_domain_def)
next
  case name: (Some name)
  show ?thesis
  proof (cases "length name \<le> 50")
    case False
    have len: "length (concat (map fmt_02x (octets (s_self_address s)))) = 12" by (cases "s_self_address s") simp
    have "fill_domain (s_name s) (Some (mac_string (s_self_address s))) = None"
      using fill_domain_raop [OF name c_string_mac len] False by simp
    then have "getPtrData none (s_name s) w (Some (mac_string (s_self_address s))) = None" for none w
      by (simp add: getPtrData_eq)
    then show ?thesis
      using False by (simp add: apple_p2p_init_full_action_frame_def name cong: Option.bind_cong)
  next
    case fits: True
    consider (ok) now1 now2 where "clock_time_us clk1 = Some now1" "clock_time_us clk2 = Some now2"
      | (clk1) "clock_time_us clk1 = None" | (clk2) "clock_time_us clk2 = None"
      by fastforce
    then show ?thesis
    proof cases
      case ok
      then show ?thesis using full_action_frame_fits [OF name fits] name fits by simp
    next
      case clk1
      then have "emit (apple_p2p_init_action clk1 typ) st = None" for st
        by (intro emit_None) (simp add: init_action_eq)
      then show ?thesis using clk1 by (simp add: apple_p2p_init_full_action_frame_def Let_def split_beta cong: Option.bind_cong)
    next
      case clk2
      then have "emit (apple_p2p_init_sync_params_tlv clk2 s) st = None" for st
        by (intro emit_None) (simp add: init_sync_params_eq)
      then show ?thesis using clk2 by (simp add: apple_p2p_init_full_action_frame_def Let_def split_beta cong: Option.bind_cong)
    qed
  qed
qed

section \<open>The claims\<close>

lemma service_records_length:
  "length name \<le> 50 \<Longrightarrow>
     length (tlvs_bytes (map (Pair APPLE_P2P_SERVICE_RESPONSE_TLV) (service_records mac name))) \<le> 954"
  using texts_strings
  by (simp add: service_records_def service_record_lengths raop_domain_length)

lemma action_frame_length:
  assumes "enc_ok s" and "length name \<le> 50"
  shows "length (action_frame s seq typ now1 now2 name) \<le> 1302"
proof -
  have l: "length (chanseq_body (s_channel s)) = 38" using assms(1) by (simp add: enc_ok_def)
  have "length (tlvs_bytes (action_records now2 s typ name)) \<le> 290 + 954"
  proof (cases "typ = APPLE_P2P_ACTION_MIF")
    case True
    then show ?thesis
      using service_records_length [OF assms(2), of "s_self_address s"] assms(2) l
      by (simp add: action_records_def sync_value_def election_value_def chanseq_value_def election_v2_value_def
        service_params_value_def ht_value_def arpa_value_def data_path_value_def version_value_def Let_def)
  next
    case False
    then show ?thesis
      using l by (simp add: action_records_def sync_value_def election_value_def chanseq_value_def
        election_v2_value_def service_params_value_def data_path_value_def version_value_def Let_def)
  qed
  then show ?thesis by (simp add: action_frame_def hdr_bytes_def action_bytes_def)
qed

lemma length_with_fcs: "length (with_fcs fcs bs) \<le> length bs + 4"
  by (simp add: with_fcs_def)

text \<open>C17: a complete action frame is its radiotap header, IEEE 802.11 header, action header and
  records one after the other, every record with a length field that covers exactly its value,
  the optional checksum last, and the sequence number counted up. It fails exactly when the
  host name has no terminator or more than 50 characters (the local array of the service
  name overflows, also for frames without service records), when the clock overflows, or when
  the array is too short.\<close>

theorem full_action_frame_spec:
  "apple_p2p_init_full_action_frame clk1 clk2 mem buf s i typ =
     do { name \<leftarrow> c_string (s_name s); now1 \<leftarrow> clock_time_us clk1; now2 \<leftarrow> clock_time_us clk2;
          (if length name \<le> 50
           then map_option (\<lambda>(n, mem). (n, mem, next_ieee80211 i))
             (put mem buf (with_fcs (i_fcs i) (action_frame s (i_sequence_number i) typ now1 now2 name)))
           else None) }"
  by (rule full_action_frame_correct)

text \<open>With a host name of at most 50 characters an action frame needs at most 1306 bytes,
  so a larger array is never overrun: the frame is built, and the bytes after it stay.\<close>

theorem action_frame_bounds:
  assumes "enc_ok s" and "c_string (s_name s) = Some name" and "length name \<le> 50"
    and "clock_time_us clk1 \<noteq> None" and "clock_time_us clk2 \<noteq> None" and "1306 \<le> length mem"
  shows "\<exists>n mem' i'. apple_p2p_init_full_action_frame clk1 clk2 mem 0 s i typ = Some (n, mem', i') \<and>
    n \<le> 1306 \<and> length mem' = length mem \<and> drop n mem' = drop n mem"
proof -
  obtain now1 now2 where now: "clock_time_us clk1 = Some now1" "clock_time_us clk2 = Some now2"
    using assms(4,5) by blast
  let ?f = "with_fcs (i_fcs i) (action_frame s (i_sequence_number i) typ now1 now2 name)"
  have len: "length ?f \<le> 1306"
    using action_frame_length [OF assms(1,3), of "i_sequence_number i" "typ" now1 now2]
      length_with_fcs [of "i_fcs i" "action_frame s (i_sequence_number i) typ now1 now2 name"] by linarith
  have "apple_p2p_init_full_action_frame clk1 clk2 mem 0 s i typ =
      Some (length ?f, overwrite mem 0 ?f, next_ieee80211 i)"
    using full_action_frame_fits [OF assms(2,3) now] len assms(6) by (simp add: put_def)
  then show ?thesis
    using len assms(6) by (auto simp: drop_overwrite)
qed

text \<open>A sender to instantiate lemmas with.\<close>

definition sample_sender :: "peers_table \<Rightarrow> apple_p2p_state" where
  "sample_sender m = (sample_state m)\<lparr>s_self_address := EtherAddr 2 0 0 0 0 3,
     s_name := bytes_of ''ab'' @ 0 # replicate 62 0\<rparr>"

lemma sample_sender_ok:
  "enc_ok (sample_sender m)" "c_string (s_name (sample_sender m)) = Some (bytes_of ''ab'')"
  "length (bytes_of ''ab'') \<le> 50" "s_version (sample_sender m) \<noteq> 0" "s_dev_class (sample_sender m) \<noteq> 0"
proof -
  have "0 \<notin> set (bytes_of ''ab'')" by code_simp
  then show "c_string (s_name (sample_sender m)) = Some (bytes_of ''ab'')"
    by (simp add: sample_sender_def)
qed (simp_all add: sample_sender_def enc_ok_def sample_state_def bytes_of_def)

theorem action_frame_bounds_witness:
  "\<exists>m n mem' i'. apple_p2p_init_full_action_frame (Some (1, 0)) (Some (1, 0)) (replicate 1306 7) 0
     (sample_sender m) \<lparr>i_sequence_number = 0, i_fcs = True\<rparr> 3 = Some (n, mem', i') \<and> n \<le> 1306"
  using action_frame_bounds [OF sample_sender_ok(1-3), of "Some (1, 0)" "Some (1, 0)" "replicate 1306 7",
      where i = "\<lparr>i_sequence_number = 0, i_fcs = True\<rparr>"]
  by (fastforce simp: clock_time_us_def)

end
