(* ===== verification/Rx_Data.thy ===== *)
theory Rx_Data
  imports Rx
begin

text \<open>
  What rx.c delivers to the host: data frames and A-MSDUs of known senders as Ethernet
  frames, and the whole path from the radiotap header on.
\<close>

section \<open>Data frames reach the host\<close>

definition valid_llc :: "u8 list \<Rightarrow> bool" where
  "valid_llc v \<longleftrightarrow> 8 \<le> length v \<and> slice v 0 3 = [0xaa, 0xaa, 0x03] \<and> slice v 6 2 = [0x08, 0x00]"

lemma slice_two: "off + 2 \<le> length v \<Longrightarrow> slice v off 2 = [v ! off, v ! Suc off]"
  and slice_three: "off + 3 \<le> length v \<Longrightarrow> slice v off 3 = [v ! off, v ! Suc off, v ! Suc (Suc off)]"
  by (simp_all add: numeral_2_eq_2 numeral_3_eq_3 slice_cons) (simp_all add: slice_def)

lemma be_word_0800: "length bs = 2 \<Longrightarrow> (be_word bs :: u16) = 0x0800 \<longleftrightarrow> bs = [0x08, 0x00]"
proof -
  assume len: "length bs = 2"
  have "be_bytes 2 (be_word bs :: u16) = bs"
    using le_bytes_le_word [of "rev bs", where ?'a = 16] len by (simp add: be_bytes_def be_word_def)
  moreover have "be_bytes 2 (0x0800 :: u16) = [0x08, 0x00]"
    by (simp add: be_bytes_def le_bytes_numeral)
  moreover have "(be_word [0x08, 0x00] :: u16) = 0x0800" by (simp add: be_word_def)
  ultimately show ?thesis by auto
qed

lemma valid_llc_view:
  assumes "wf_buf frame"
  shows "apple_p2p_valid_llc_header frame = valid_llc (buf_view frame)"
proof (cases "8 \<le> length (buf_view frame)")
  case True
  then have "buf_view frame \<noteq> []" by auto
  then show ?thesis
    using True assms be_word_0800 [of "slice (buf_view frame) 6 2"]
    by (auto simp: apple_p2p_valid_llc_header_def llc_parse_def read_views valid_llc_def slice_three Let_def
        numeral_2_eq_2)
next
  case False
  then have "fst (llc_parse frame llc_unset) < 0"
    using assms by (auto simp: llc_parse_def read_views Let_def CHECKED_READ_def)
  then show ?thesis
    using False by (cases "llc_parse frame llc_unset") (simp add: apple_p2p_valid_llc_header_def valid_llc_def)
qed

text \<open>The bytes \<open>a\<close> to \<open>n - 1\<close> of an allocation as \<open>malloc\<close> returned them.\<close>

definition fresh :: "(nat \<Rightarrow> u8) \<Rightarrow> nat \<Rightarrow> nat \<Rightarrow> u8 list" where
  "fresh heap a n = map heap [a..<n]"

lemma fresh_simps [simp]:
  "length (fresh heap a n) = n - a" "drop k (fresh heap a n) = fresh heap (a + k) n"
  by (simp_all add: fresh_def drop_map)

lemma buf_new_owned_fresh:
  "0 \<le> n \<Longrightarrow> buf_new_owned heap n =
     Some \<lparr>b_orig = fresh heap 0 (nat n), b_data = 0, b_len = n, b_owned = True\<rparr>"
  by (simp add: buf_new_owned_def fresh_def)

text \<open>The buffer handed to the host: always \<open>ETHER_MAX_LEN\<close> bytes; behind the payload are the bytes
  \<open>malloc\<close> returned, and a payload that does not fit is left out.\<close>

definition ethernet_out :: "(nat \<Rightarrow> u8) \<Rightarrow> ether_addr \<Rightarrow> ether_addr \<Rightarrow> u16 \<Rightarrow> u8 list \<Rightarrow> u8 list" where
  "ethernet_out heap dst src ether_type payload =
     (let header = octets dst @ octets src @ be_bytes 2 ether_type;
          written = (if length payload \<le> 1504 then header @ payload else header)
      in written @ fresh heap (length written) 1518)"

lemma fresh_store:
  assumes "wf_buf b" and "buf_view b = ys @ fresh heap k n" and "k = length ys" and "k + length bs \<le> n"
  shows "checked_store b (int k) bs = (int (length bs), store b (int k) bs) \<and> wf_buf (store b (int k) bs) \<and>
    buf_view (store b (int k) bs) = (ys @ bs) @ fresh heap (k + length bs) n"
proof -
  have e: "checked_store b (int k) bs = (int (length bs), store b (int k) bs)"
    using checked_store_cases [OF assms(1), of "int k" bs] assms by auto
  then have "0 \<le> fst (checked_store b (int k) bs)" by simp
  from e checked_store_ok(4,5) [OF assms(1) this] show ?thesis
    using assms by (simp add: overwrite_def)
qed

lemma buf_data_view: "wf_buf b \<Longrightarrow> take (nat (buf_len b)) (buf_data b) = buf_view b"
  by (simp add: buf_data_def buf_len_def buf_view_def slice_def)

lemma write_bytes_view:
  "wf_buf frame \<Longrightarrow> write_bytes b off (buf_data frame) (buf_len frame) = checked_store b off (buf_view frame)"
  using b_len_view [of frame] buf_data_view [of frame]
  by (auto simp: write_bytes_def checked_store_def buf_len_def)

lemma ethernet_frame_spec:
  assumes "wf_buf frame"
  shows "\<exists>b. rx_ethernet_frame heap dst src ether_type frame = Some b \<and> wf_buf b \<and>
    buf_view b = ethernet_out heap dst src ether_type (buf_view frame)"
proof -
  obtain b0 where b0: "buf_new_owned heap ETHER_MAX_LEN = Some b0" "wf_buf b0"
      "buf_view b0 = [] @ fresh heap 0 1518"
    by (simp add: buf_new_owned_fresh wf_buf_def buf_view_def slice_def)
  note c1 = fresh_store [OF b0(2,3) _ , of "octets dst", simplified]
  let ?b1 = "store b0 0 (octets dst)"
  have w1: "wf_buf ?b1" and v1: "buf_view ?b1 = octets dst @ fresh heap 6 1518" using c1 by simp_all
  note c2 = fresh_store [OF w1 v1, of "octets src", simplified]
  let ?b2 = "store ?b1 6 (octets src)"
  have w2: "wf_buf ?b2" and v2: "buf_view ?b2 = (octets dst @ octets src) @ fresh heap 12 1518"
    using c2 by simp_all
  note c3 = fresh_store [OF w2 v2, of "be_bytes 2 ether_type", simplified]
  let ?b3 = "store ?b2 12 (be_bytes 2 ether_type)"
  let ?header = "octets dst @ octets src @ be_bytes 2 ether_type"
  have v3: "buf_view ?b3 = ?header @ fresh heap 14 1518" "wf_buf ?b3"
    using c3 by simp_all
  have run: "rx_ethernet_frame heap dst src ether_type frame =
      Some (snd (checked_store ?b3 14 (buf_view frame)))"
    unfolding rx_ethernet_frame_def write_as_checked_store write_bytes_view [OF assms] b0(1) Let_def
    by (simp add: c1 c2 c3) (simp add: snd_def)
  show ?thesis
  proof (cases "length (buf_view frame) \<le> 1504")
    case True
    then show ?thesis
      using fresh_store [OF v3(2,1), of "buf_view frame"] run
      by (simp add: ethernet_out_def Let_def add.commute)
  next
    case False
    then have "checked_store ?b3 14 (buf_view frame) = (-1, ?b3)"
      using checked_store_cases [OF v3(2), of 14 "buf_view frame"] v3(1) by auto
    then show ?thesis using run v3 False by (simp add: ethernet_out_def Let_def)
  qed
qed


text \<open>The host-bound buffer of a subframe or a frame of a known sender.\<close>

lemma rx_data_correct:
  assumes wf: "wf_buf frame" and peers: "peers_wf (speers s)"
  defines "v \<equiv> buf_view frame" and
    "s' \<equiv> s\<lparr>s_stats := (s_stats s)\<lparr>st_rx_data := st_rx_data (s_stats s) + 1\<rparr>\<rparr>"
  shows "\<exists>b. wf_buf b \<and>
    buf_view b = ethernet_out (re_heap env (length out)) dst src (be_word (slice v 14 2)) (drop 16 v) \<and>
    apple_p2p_rx_data env frame out src dst s =
      (if peer_map (speers s) src = None then (RX_IGNORE_PEER, out, s')
       else if \<not> valid_llc v then (RX_UNEXPECTED_FORMAT, out, s')
       else if length v < 16 then (RX_TOO_SHORT, out, s')
       else (RX_OK, out @ [b], s'))"
proof -
  let ?f1 = "snd (buf_strip frame sizeof_llc_hdr)"
  let ?f2 = "snd (buf_strip ?f1 sizeof_data)"
  have get: "fst (apple_p2p_peer_get (speers s) src) = PEERS_OK \<longleftrightarrow> peer_map (speers s) src \<noteq> None"
    using peers peer_get_spec [of "speers s" src] by (simp add: peers_wf_def)
  have llc: "apple_p2p_valid_llc_header frame = valid_llc v"
    unfolding v_def by (rule valid_llc_view [OF wf])
  have len: "b_len frame = int (length v)" unfolding v_def by (rule b_len_view [OF wf])
  show ?thesis
  proof (cases "valid_llc v \<and> 16 \<le> length v")
    case True
    then have l: "8 \<le> b_len frame" "16 \<le> b_len frame" using len by simp_all
    have f1: "wf_buf ?f1" "buf_view ?f1 = drop 8 v" "b_len ?f1 = b_len frame - 8"
      using buf_strip_ok [OF wf _ l(1)] by (simp_all add: v_def)
    have f2: "wf_buf ?f2" "buf_view ?f2 = drop 16 v"
      using buf_strip_ok [OF f1(1), of 8] l f1 by simp_all
    have "8 \<le> length v - 8" using True by linarith
    then have et: "read_be16 ?f1 6 = Inr (2, be_word (slice v 14 2))"
      using f1 by (simp add: read_be16_view slice_def)
    obtain b where b: "rx_ethernet_frame (re_heap env (length out)) dst src (be_word (slice v 14 2)) ?f2 = Some b"
      "wf_buf b" "buf_view b = ethernet_out (re_heap env (length out)) dst src (be_word (slice v 14 2)) (drop 16 v)"
      using ethernet_frame_spec [OF f2(1)] unfolding f2(2) by blast
    have "\<not> buf_len ?f1 < sizeof_data" using f1(3) l(2) by (simp add: buf_len_def)
    then show ?thesis
      using True get llc et b
      by (intro exI [of _ b]) (simp add: apple_p2p_rx_data_def Let_def s'_def)
  next
    case False
    obtain b where b: "wf_buf b"
      "buf_view b = ethernet_out (re_heap env (length out)) dst src (be_word (slice v 14 2)) (drop 16 v)"
    proof -
      have "wf_buf (const_buf (drop 16 v))" by simp
      from ethernet_frame_spec [OF this, of "re_heap env (length out)" dst src "be_word (slice v 14 2)"]
        that show thesis unfolding view_const_buf by blast
    qed
    have short: "buf_len ?f1 < sizeof_data" if "valid_llc v"
      using that False len by (simp add: buf_len_def buf_strip_def valid_llc_def)
    show ?thesis
      using False get llc b short
      by (intro exI [of _ b]) (auto simp: apple_p2p_rx_data_def Let_def s'_def)
  qed
qed

text \<open>C23: a data frame is handed to the host exactly when its sender is in the peer table, it
  has a valid LLC header and room for the protocol's data header; the Ethernet frame then
  carries both addresses, the type and the payload (of up to 1504 bytes, a longer one is
  dropped), in a buffer that always has 1518 bytes.\<close>

theorem rx_data_spec:
  assumes "wf_buf frame" and "peers_wf (speers s)"
  shows "\<exists>b. wf_buf b \<and>
    buf_view b = ethernet_out (re_heap env (length out)) dst src
      (be_word (slice (buf_view frame) 14 2)) (drop 16 (buf_view frame)) \<and>
    apple_p2p_rx_data env frame out src dst s =
      (let s' = s\<lparr>s_stats := (s_stats s)\<lparr>st_rx_data := st_rx_data (s_stats s) + 1\<rparr>\<rparr> in
       if peer_map (speers s) src = None then (RX_IGNORE_PEER, out, s')
       else if \<not> valid_llc (buf_view frame) then (RX_UNEXPECTED_FORMAT, out, s')
       else if length (buf_view frame) < 16 then (RX_TOO_SHORT, out, s')
       else (RX_OK, out @ [b], s'))"
  using rx_data_correct [OF assms, of env out dst src] by (simp add: Let_def)

theorem rx_data_spec_witness:
  "\<exists>m s'. apple_p2p_rx_data sample_env (const_buf [1, 2, 3]) [] (EtherAddr 2 0 0 0 0 3)
      (EtherAddr 2 0 0 0 0 4) (sample_state m) = (RX_IGNORE_PEER, [], s')"
proof -
  obtain m where m: "peers_wf m" "peer_map m = Map.empty" by (rule empty_peers_wf)
  then have "peers_wf (speers (sample_state m))" "peer_map (speers (sample_state m)) = Map.empty"
    by (simp_all add: sample_state_def)
  then show ?thesis
    using rx_data_spec [OF wf_const_buf, of "sample_state m" sample_env "[]" "EtherAddr 2 0 0 0 0 4"
        "EtherAddr 2 0 0 0 0 3" "[1, 2, 3]"]
    by (auto simp: Let_def)
qed

section \<open>Aggregated frames\<close>

type_synonym subframe = "ether_addr \<times> ether_addr \<times> u8 list"

definition subframe_bytes :: "subframe \<Rightarrow> u8 list" where
  "subframe_bytes = (\<lambda>(dst, src, body).
     octets dst @ octets src @ be_bytes 2 (of_nat (length body) :: u16) @ body)"

text \<open>The A-MSDU format: every subframe but the last is padded to a multiple of four bytes.\<close>

fun amsdu_bytes :: "subframe list \<Rightarrow> u8 list" where
  "amsdu_bytes [] = []"
| "amsdu_bytes [x] = subframe_bytes x"
| "amsdu_bytes (x # y # xs) =
     subframe_bytes x @ replicate (nat (amsdu_padding (of_nat (length (snd (snd x)))))) 0 @
     amsdu_bytes (y # xs)"

fun amsdu_out :: "rx_env \<Rightarrow> nat \<Rightarrow> subframe list \<Rightarrow> u8 list list" where
  "amsdu_out env n [] = []"
| "amsdu_out env n ((dst, src, body) # xs) =
     ethernet_out (re_heap env n) dst src (be_word (slice body 14 2)) (drop 16 body) #
     amsdu_out env (Suc n) xs"

definition count_data :: "nat \<Rightarrow> apple_p2p_state \<Rightarrow> apple_p2p_state" where
  "count_data n s = s\<lparr>s_stats := (s_stats s)\<lparr>st_rx_data := st_rx_data (s_stats s) + of_nat n\<rparr>\<rparr>"

lemma count_data_add: "count_data n (count_data m s) = count_data (m + n) s"
  and speers_count_data [simp]: "speers (count_data n s) = speers s"
  and count_data_0 [simp]: "count_data 0 s = s"
  by (simp_all add: count_data_def add.assoc)

definition deliverable :: "apple_p2p_state \<Rightarrow> subframe \<Rightarrow> bool" where
  "deliverable s = (\<lambda>(dst, src, body). peer_map (speers s) src \<noteq> None \<and> valid_llc body \<and>
     16 \<le> length body \<and> length body < 65536)"

lemma buf_new_const_view:
  assumes "wf_buf f" and "0 \<le> n" and "n \<le> b_len f"
  shows "\<exists>b. buf_new_const (buf_data f) n = Some b \<and> wf_buf b \<and> buf_view b = take (nat n) (buf_view f)"
  using assms
  by (auto simp: buf_new_const_def buf_data_def wf_buf_def buf_view_def slice_def min_def)

lemma amsdu_step:
  assumes wf: "wf_buf frame" and peers: "peers_wf (speers s)"
    and view: "buf_view frame = subframe_bytes (dst, src, body) @ rest"
    and ok: "deliverable s (dst, src, body)"
  shows "\<exists>b frame2. wf_buf b \<and> wf_buf frame2 \<and> buf_view frame2 = rest \<and>
    buf_view b = ethernet_out (re_heap env (length out)) dst src (be_word (slice body 14 2)) (drop 16 body) \<and>
    apple_p2p_rx_data_amsdu env frame out s =
      (if rest = [] then (RX_OK, out @ [b], count_data 1 s)
       else case buf_strip frame2 (amsdu_padding (of_nat (length body))) of (r3, frame3) \<Rightarrow>
         if r3 < 0 then (RX_TOO_SHORT, out @ [b], count_data 1 s)
         else apple_p2p_rx_data_amsdu env frame3 (out @ [b]) (count_data 1 s))"
proof -
  let ?l = "of_nat (length body) :: u16"
  have l: "uint ?l = int (length body)" and ul: "unat ?l = length body"
    using ok by (simp_all add: deliverable_def unsigned_of_nat take_bit_nat_eq_self)
  have len: "b_len frame = int (14 + length body + length rest)"
    using b_len_view [OF wf] view by (simp add: subframe_bytes_def)
  have reads: "read_ether_addr frame 0 = Inr (6, dst)" "read_ether_addr frame 6 = Inr (6, src)"
    "read_be16 frame 12 = Inr (2, ?l)"
    by (simp_all add: read_views [OF wf] view subframe_bytes_def slice_def)
  obtain f1 where f1: "wf_buf f1" "buf_view f1 = body @ rest" "b_len f1 = b_len frame - 14"
    "buf_strip frame 14 = (14, f1)"
    using buf_strip_ok [OF wf, of 14] len view by (auto simp: subframe_bytes_def)
  obtain sub where sub: "buf_new_const (buf_data f1) (uint ?l) = Some sub" "wf_buf sub" "buf_view sub = body"
    using buf_new_const_view [OF f1(1), of "uint ?l"] f1(2,3) len l by auto
  obtain b where b: "wf_buf b" "apple_p2p_rx_data env sub out src dst s = (RX_OK, out @ [b], count_data 1 s)"
    "buf_view b = ethernet_out (re_heap env (length out)) dst src (be_word (slice body 14 2)) (drop 16 body)"
    using rx_data_correct [OF sub(2) peers, of env out dst src] ok sub(3)
    by (auto simp: deliverable_def count_data_def)
  obtain f2 where f2: "wf_buf f2" "buf_view f2 = rest" "b_len f2 = int (length rest)"
    "buf_strip f1 (uint ?l) = (uint ?l, f2)"
    using buf_strip_ok [OF f1(1), of "uint ?l"] f1 len l by auto
  have "apple_p2p_rx_data_amsdu env frame out s =
      (if rest = [] then (RX_OK, out @ [b], count_data 1 s)
       else case buf_strip f2 (amsdu_padding ?l) of (r3, frame3) \<Rightarrow>
         if r3 < 0 then (RX_TOO_SHORT, out @ [b], count_data 1 s)
         else apple_p2p_rx_data_amsdu env frame3 (out @ [b]) (count_data 1 s))"
    using len f1(3) f2(3)
    by (subst apple_p2p_rx_data_amsdu.simps)
      (simp add: reads f1(4) l sub(1) [unfolded l] b(2) f2(4) [unfolded l] buf_len_def
        apple_p2p_rx_data_amsdu.simps [of env f2] del: One_nat_def)
  then show ?thesis using b f2 by blast
qed


lemma subframe_nonempty: "subframe_bytes x \<noteq> []"
proof -
  have "length (subframe_bytes x) = 14 + length (snd (snd x))"
    by (cases x) (simp add: subframe_bytes_def)
  then show ?thesis by auto
qed

lemma amsdu_correct:
  "wf_buf frame \<Longrightarrow> peers_wf (speers s) \<Longrightarrow> buf_view frame = amsdu_bytes subs \<Longrightarrow>
     \<forall>x \<in> set subs. deliverable s x \<Longrightarrow>
     \<exists>bs. apple_p2p_rx_data_amsdu env frame out s = (RX_OK, out @ bs, count_data (length subs) s) \<and>
       list_all wf_buf bs \<and> map buf_view bs = amsdu_out env (length out) subs"
proof (induction subs arbitrary: frame out s rule: amsdu_bytes.induct)
  case 1
  then have "b_len frame = 0" using b_len_view [of frame] by simp
  then show ?case by (simp add: apple_p2p_rx_data_amsdu.simps buf_len_def)
next
  case (2 x)
  obtain dst src body where x: "x = (dst, src, body)" by (cases x) auto
  then have "buf_view frame = subframe_bytes (dst, src, body) @ []" and "deliverable s (dst, src, body)"
    using "2.prems"(3,4) by simp_all
  from amsdu_step [OF "2.prems"(1,2) this, of env out] obtain b where
    "wf_buf b" "buf_view b = ethernet_out (re_heap env (length out)) dst src (be_word (slice body 14 2)) (drop 16 body)"
    "apple_p2p_rx_data_amsdu env frame out s = (RX_OK, out @ [b], count_data 1 s)"
    by auto
  then show ?case by (intro exI [of _ "[b]"]) (simp add: x)
next
  case (3 x y xs)
  obtain dst src body where x: "x = (dst, src, body)" by (cases x) auto
  let ?pad = "amsdu_padding (of_nat (length body))"
  let ?rest = "replicate (nat ?pad) 0 @ amsdu_bytes (y # xs)"
  have view: "buf_view frame = subframe_bytes (dst, src, body) @ ?rest"
    and ok: "deliverable s (dst, src, body)" using "3.prems"(3,4) x by simp_all
  have "amsdu_bytes (y # xs) \<noteq> []"
    by (cases xs) (simp_all add: subframe_nonempty)
  then have ne: "?rest \<noteq> []" by simp
  from amsdu_step [OF "3.prems"(1,2) view ok, of env out] ne obtain b f2 where
    b: "wf_buf b" "buf_view b = ethernet_out (re_heap env (length out)) dst src (be_word (slice body 14 2)) (drop 16 body)"
    and f2: "wf_buf f2" "buf_view f2 = ?rest"
    and run: "apple_p2p_rx_data_amsdu env frame out s = (case buf_strip f2 ?pad of (r3, frame3) \<Rightarrow>
         if r3 < 0 then (RX_TOO_SHORT, out @ [b], count_data 1 s)
         else apple_p2p_rx_data_amsdu env frame3 (out @ [b]) (count_data 1 s))"
    by auto
  have pad: "0 \<le> ?pad" "?pad \<le> b_len f2"
    using amsdu_padding_bounds [of "of_nat (length body)"] b_len_view [OF f2(1)] f2(2) by simp_all
  obtain f3 where f3: "buf_strip f2 ?pad = (?pad, f3)" "wf_buf f3" "buf_view f3 = amsdu_bytes (y # xs)"
    using buf_strip_ok [OF f2(1) pad] f2(2) by auto
  have "\<exists>bs. apple_p2p_rx_data_amsdu env f3 (out @ [b]) (count_data 1 s) =
      (RX_OK, (out @ [b]) @ bs, count_data (length (y # xs)) (count_data 1 s)) \<and>
    list_all wf_buf bs \<and> map buf_view bs = amsdu_out env (length (out @ [b])) (y # xs)"
    by (rule "3.IH") (use f3 "3.prems"(2,4) in \<open>simp_all add: deliverable_def\<close>)
  then obtain bs where "apple_p2p_rx_data_amsdu env f3 (out @ [b]) (count_data 1 s) =
      (RX_OK, out @ b # bs, count_data (length (y # xs)) (count_data 1 s))"
    "list_all wf_buf bs" "map buf_view bs = amsdu_out env (Suc (length out)) (y # xs)"
    by auto
  then show ?case
    using run f3(1) pad(1) b by (intro exI [of _ "b # bs"]) (simp add: x count_data_add)
qed


text \<open>The first peer of an empty table is always stored, so tables with a peer exist.\<close>

lemma first_put:
  assumes "hashmap_new ok n = Some m"
  shows "\<exists>m'. hashmap_put fuel ok' m k v = Some (MAP_OK, m')"
proof -
  have m: "hm_size m = 0" "hm_table_size m = 256" "hm_data m = replicate 256 blank"
    using assms by (auto simp: hashmap_new_def split: if_splits)
  have "hashmap_hash_int m k < 256" using m(2) by (simp add: hashmap_hash_int_def Let_def)
  then have "hash_probe (Suc n) m k (hashmap_hash_int m k) = Some (hashmap_hash_int m k)" for n
    using m(3) by (simp add: blank_def)
  from this [of 7] have "hash_probe 8 m k (hashmap_hash_int m k) = Some (hashmap_hash_int m k)"
    by (simp add: eval_nat_numeral)
  then have "hashmap_hash m k = Some (hashmap_hash_int m k)"
    using m by (simp add: hashmap_hash_def)
  then show ?thesis by (cases fuel) auto
qed

text \<open>A fresh table takes its first entry without an allocation.\<close>

lemma fresh_room:
  assumes "apple_p2p_peers_init ok = Some (speers s)"
  shows "\<not> no_room env s a now"
proof -
  have inv: "peers_inv (speers s)" "peer_map (speers s) a = None"
    using peers_init_inv [OF assms] by simp_all
  let ?p = "(apple_p2p_peer_new (re_peer_mem env) a)\<lparr>p_last_update := now\<rparr>"
  obtain m1 where "hashmap_put (re_fuel env) (re_calloc_ok env) (speers s) (octets a) (Some ?p) = Some (MAP_OK, m1)"
    using first_put [OF assms [unfolded apple_p2p_peers_init_def]] by blast
  then show ?thesis
    using peer_get_absent [OF inv, of False]
    by (auto simp: no_room_def state_peer_add_def apple_p2p_peer_add_def Let_def split: prod.splits)
qed

lemma known_peer:
  obtains m p where "peers_wf m" and "peer_map m = [a \<mapsto> p]"
proof -
  let ?ok = "\<lambda>n. n \<le> (4096 :: nat)"
  obtain m where m: "apple_p2p_peers_init ?ok = Some m" "peers_inv m" "peer_map m = Map.empty"
    by (rule empty_peers)
  let ?s = "sample_state m"
  have wf: "peers_wf (speers ?s)" "speers ?s = m"
    using m by (simp_all add: peers_wf_def sample_state_def)
  obtain st m2 ev where add: "state_peer_add sample_env ?s a 7 = Some (st, ?s\<lparr>s_peers := (s_peers ?s)\<lparr>ps_peers := m2\<rparr>\<rparr>, ev)"
    and alt: "st = PEERS_INTERNAL \<or> peers_wf m2 \<and> peer_map m2 = [a \<mapsto> added_peer (re_peer_mem sample_env) None a 7]"
    using state_peer_add_spec [OF wf(1) sample_env_ok, of a 7] m(3) wf(2) by auto
  have "st \<noteq> PEERS_INTERNAL"
    using fresh_room [of ?ok ?s sample_env a 7] m(1) wf(2) add unfolding no_room_def by force
  then show thesis using alt that by blast
qed

lemma sample_deliverable:
  "peer_map (speers s) src \<noteq> None \<Longrightarrow> length tail = 8 \<Longrightarrow>
     deliverable s (dst, src, [0xaa, 0xaa, 0x03, 0, 0x17, 0xf2, 0x08, 0x00] @ tail)"
  by (simp add: deliverable_def valid_llc_def slice_def)


end
