(* ===== verification/Rx_Path.thy ===== *)
theory Rx_Path
  imports Rx_Data
begin

text \<open>
  The whole receive path of rx.c, from the captured bytes on: for any capture it ends with a
  result, reads only the frame, and changes only what a reception may change.
\<close>

section \<open>Reading the radiotap header\<close>

lemma rtap_sizes_used:
  "rtap_namespace_sizes ! 0 = (8, 8)" "rtap_namespace_sizes ! Suc 0 = (1, 1)"
  "rtap_namespace_sizes ! 5 = (1, 1)"
  by (simp_all add: rtap_namespace_sizes_def)

definition same_outputs :: "radiotap_out \<Rightarrow> radiotap_out \<Rightarrow> bool" where
  "same_outputs a b \<longleftrightarrow> (ro_rssi a = None \<longleftrightarrow> ro_rssi b = None) \<and>
     (ro_flags a = None \<longleftrightarrow> ro_flags b = None) \<and> (ro_tsft a = None \<longleftrightarrow> ro_tsft b = None)"

lemma radiotap_visit_safe:
  assumes "rt_hit_ok it" and "rt_max_length it \<le> length h"
  shows "\<exists>out'. radiotap_visit h it out = Some out' \<and> same_outputs out out'"
proof -
  have fit: "unat (rt_this_arg it) + n \<le> length h"
    if "rt_is_radiotap_ns it" "rt_this_arg_index it = i" "snd (rtap_namespace_sizes ! i) = n" for i n
    using assms that by (simp add: rt_hit_ok_def)
  show ?thesis
    using fit [of 0 8] fit [of "Suc 0" "Suc 0"] fit [of 5 "Suc 0"]
    by (auto simp: radiotap_visit_def rt_read_def same_outputs_def rtap_sizes_used Let_def)
qed

lemma radiotap_loop_safe:
  "rt_inv h it \<Longrightarrow> \<exists>st out'. radiotap_loop h it out = Some (st, out') \<and> same_outputs out out'"
proof (induction h it out rule: radiotap_loop.induct)
  case (1 h it out)
  obtain st it' where n: "ieee80211_radiotap_iterator_next h it = Some (st, it')"
    and ok: "st = RT_HIT \<longrightarrow> rt_inv h it' \<and> rt_hit_ok it'"
    using rt_next_safe [OF 1(2)] by blast
  show ?case
  proof (cases "st = RT_HIT")
    case True
    then have inv: "rt_inv h it'" and hit: "rt_hit_ok it'" using ok by simp_all
    have "rt_max_length it' \<le> length h" using inv by (simp add: rt_inv_def)
    then obtain out1 where v: "radiotap_visit h it' out = Some out1" "same_outputs out out1"
      using radiotap_visit_safe [OF hit] by blast
    then obtain st2 out2 where "radiotap_loop h it' out1 = Some (st2, out2)" "same_outputs out1 out2"
      using 1(1) [OF n refl True v(1)] inv by blast
    then show ?thesis
      using n True v radiotap_loop.simps [of h it out] by (simp add: same_outputs_def)
  next
    case False
    then show ?thesis
      using n radiotap_loop.simps [of h it out] by (cases st) (simp_all add: same_outputs_def)
  qed
qed

lemma rt_code_negative: "rt_code st < 0 \<longleftrightarrow> st \<noteq> RT_HIT"
  by (cases st) simp_all

lemma radiotap_parse_safe:
  assumes wf: "wf_buf frame" and garbage: "unat (rt_next_ns_data mem) \<le> rt_limit"
  shows "\<exists>r out'. radiotap_parse mem frame out = Some (r, out') \<and> same_outputs out out' \<and>
    (r = RX_OK \<or> r = RX_UNEXPECTED_FORMAT) \<and>
    (r = RX_OK \<longrightarrow> 8 \<le> length (buf_view frame) \<and>
       uint (le_word (slice (buf_data frame) 2 2) :: u16) \<le> b_len frame)"
proof -
  let ?h = "buf_view frame"
  have h: "take (nat (buf_len frame)) (buf_data frame) = ?h" by (rule buf_data_view [OF wf])
  have len: "buf_len frame = int (length ?h)" using b_len_view [OF wf] by (simp add: buf_len_def)
  from rt_init_safe [OF len garbage] obtain st it where
    init: "ieee80211_radiotap_iterator_init mem ?h (buf_len frame) None = Some (st, it)"
    and ok: "st = RT_HIT \<longrightarrow> rt_inv ?h it \<and> 8 \<le> length ?h \<and>
       rt_max_length it = unat (le_word (slice ?h 2 2) :: u16)"
    by blast
  show ?thesis
  proof (cases "st = RT_HIT")
    case False
    then show ?thesis
      using init by (auto simp: radiotap_parse_def h rt_code_negative same_outputs_def)
  next
    case True
    then obtain st2 out2 where loop: "radiotap_loop ?h it out = Some (st2, out2)" "same_outputs out out2"
      using ok radiotap_loop_safe [of ?h it out] by blast
    have n: "8 \<le> nat (buf_len frame)" using ok True len by simp
    have "slice (take (nat (buf_len frame)) (buf_data frame)) 2 2 = slice (buf_data frame) 2 2"
      using n by (simp add: slice_def drop_take min_def)
    then have same: "slice ?h 2 2 = slice (buf_data frame) 2 2" by (simp only: h)
    have "unat (le_word (slice (buf_data frame) 2 2) :: u16) \<le> length ?h"
      using ok True unfolding same by (simp add: rt_inv_def)
    then have "int (unat (le_word (slice (buf_data frame) 2 2) :: u16)) \<le> b_len frame"
      using len unfolding buf_len_def by (metis of_nat_le_iff)
    then have "uint (le_word (slice (buf_data frame) 2 2) :: u16) \<le> b_len frame" by simp
    then show ?thesis
      using init loop ok True by (auto simp: radiotap_parse_def h)
  qed
qed


section \<open>Data frames of any content\<close>

lemma count_preserves: "peers_wf (speers s) \<Longrightarrow> rx_preserves s src (count_data n s)"
  by (simp add: rx_preserves_def count_data_def)

lemma rx_data_shape:
  assumes "wf_buf frame" and "peers_wf (speers s)"
  shows "\<exists>r bs. apple_p2p_rx_data env frame out src dst s = (r, out @ bs, count_data 1 s) \<and>
    list_all wf_buf bs"
  using rx_data_correct [OF assms, of env out dst src] by (auto simp: count_data_def)

lemma amsdu_shape:
  "wf_buf frame \<Longrightarrow> peers_wf (speers s) \<Longrightarrow>
     \<exists>r bs n. apple_p2p_rx_data_amsdu env frame out s = (r, out @ bs, count_data n s) \<and> list_all wf_buf bs"
proof (induction "nat (b_len frame)" arbitrary: frame out s rule: less_induct)
  case less
  have stop: "\<exists>r' bs n. (r, out, s) = (r', out @ bs, count_data n s) \<and> list_all wf_buf bs" for r
    by (intro exI [of _ r] exI [of _ "[]"] exI [of _ 0]) simp
  have stop1: "\<exists>r' bs' n. (r, out @ bs, count_data 1 s) = (r', out @ bs', count_data n s) \<and> list_all wf_buf bs'"
    if "list_all wf_buf bs" for r bs
    using that by (intro exI [of _ r] exI [of _ bs] exI [of _ 1]) simp
  show ?case
  proof (cases "14 \<le> b_len frame \<and> read_be16 frame 12 \<noteq> Inl OUT_OF_BOUNDS")
    case False
    then show ?thesis
      using less.prems(1) stop b_len_view [OF less.prems(1)]
      by (subst apple_p2p_rx_data_amsdu.simps)
        (auto simp: read_views CHECKED_READ_def split: if_splits)
  next
    case True
    then have "14 \<le> length (buf_view frame)" using b_len_view [OF less.prems(1)] by simp
    then obtain dst src l where reads: "read_ether_addr frame 0 = Inr (6, dst)"
      "read_ether_addr frame 6 = Inr (6, src)" "read_be16 frame 12 = Inr (2, l)"
      using less.prems(1) by (simp add: read_views)
    obtain f1 where f1: "wf_buf f1" "b_len f1 = b_len frame - 14" "buf_strip frame 14 = (14, f1)"
      using buf_strip_ok [OF less.prems(1), of 14] True by auto
    show ?thesis
    proof (cases "uint l > buf_len f1")
      case True
      then show ?thesis
        using \<open>14 \<le> b_len frame \<and> _\<close> stop reads f1
        by (subst apple_p2p_rx_data_amsdu.simps) (simp add: buf_len_def)
    next
      case False
      then have l: "uint l \<le> b_len f1" by (simp add: buf_len_def)
      obtain sub where sub: "buf_new_const (buf_data f1) (uint l) = Some sub" "wf_buf sub"
        using buf_new_const_view [OF f1(1) _ l] by auto
      obtain err bs where data: "apple_p2p_rx_data env sub out src dst s = (err, out @ bs, count_data 1 s)"
        and bs: "list_all wf_buf bs"
        using rx_data_shape [OF sub(2) less.prems(2)] by blast
      obtain f2 where f2: "wf_buf f2" "b_len f2 = b_len f1 - uint l" "buf_strip f1 (uint l) = (uint l, f2)"
        using buf_strip_ok [OF f1(1) _ l] by auto
      have more: "\<exists>r bs' n. apple_p2p_rx_data_amsdu env f (out @ bs) (count_data 1 s) =
          (r, out @ bs', count_data n s) \<and> list_all wf_buf bs'"
        if "wf_buf f" "b_len f \<le> b_len f2" for f
      proof -
        have "0 \<le> uint l" by simp
        then have "b_len f < b_len frame" "0 < b_len frame"
          using that(2) f1(2) f2(2) \<open>14 \<le> b_len frame \<and> _\<close> by linarith+
        then have "nat (b_len f) < nat (b_len frame)" by simp
        from less.hyps [OF this that(1), of "count_data 1 s" "out @ bs"] less.prems(2)
        obtain r bs' n where "apple_p2p_rx_data_amsdu env f (out @ bs) (count_data 1 s) =
            (r, (out @ bs) @ bs', count_data n (count_data 1 s))" "list_all wf_buf bs'"
          by auto
        then show ?thesis
          using bs by (intro exI [of _ r] exI [of _ "bs @ bs'"] exI [of _ "1 + n"]) (simp add: count_data_add)
      qed
      have unfold: "apple_p2p_rx_data_amsdu env frame out s =
        (if err < 0 then (err, out @ bs, count_data 1 s)
         else if buf_len f2 > 0 then
           (case buf_strip f2 (amsdu_padding l) of (r3, f3) \<Rightarrow>
              if r3 < 0 then (RX_TOO_SHORT, out @ bs, count_data 1 s)
              else apple_p2p_rx_data_amsdu env f3 (out @ bs) (count_data 1 s))
         else apple_p2p_rx_data_amsdu env f2 (out @ bs) (count_data 1 s))"
        using \<open>14 \<le> b_len frame \<and> _\<close> False
        by (subst apple_p2p_rx_data_amsdu.simps)
          (simp add: reads f1(3) sub(1) data f2(3) buf_len_def del: One_nat_def)
      obtain r3 f3 where s3: "buf_strip f2 (amsdu_padding l) = (r3, f3)" by force
      have "wf_buf f3 \<and> b_len f3 \<le> b_len f2"
        using buf_strip_wf [OF f2(1), of "amsdu_padding l"] s3
        by (auto simp: buf_strip_def split: if_splits)
      then show ?thesis
        unfolding unfold s3 using stop1 [OF bs] more [of f3] more [OF f2(1)] by simp
    qed
  qed
qed


section \<open>The receive path as a whole\<close>

text \<open>What any reception may do: deliver well-formed buffers, and change of the state only what
  belongs to one sender, the synchronisation and the counters; whoever turns valid is announced.
  The first disjunct is a new sender for whom the table could not allocate.\<close>

definition rx_outcome :: "apple_p2p_state \<Rightarrow> buf list \<Rightarrow> int \<times> buf list \<times> apple_p2p_state \<times> rx_event list \<Rightarrow> bool" where
  "rx_outcome s out = (\<lambda>(r, out', s', evs).
     (\<exists>bs. out' = out @ bs \<and> list_all wf_buf bs) \<and>
     (s_peer_cb s \<longrightarrow> valid_peers s' \<subseteq> valid_peers s \<union> announced evs) \<and>
     (\<exists>src. r = RX_IGNORE \<and> rx_dropped s src s' \<or> rx_preserves s src s'))"

lemma valid_count [simp]: "valid_peers (count_data n s) = valid_peers s"
  by (simp add: valid_peers_def count_data_def)

lemma rx_outcome_same: "peers_wf (speers s) \<Longrightarrow> rx_outcome s out (r, out, s, evs)"
  using rx_preserves_refl by (auto simp: rx_outcome_def)

lemma rx_frame_type_safe:
  assumes frame: "wf_buf frame" and peers: "peers_wf (speers s)" and env: "rx_env_ok env"
  shows "\<exists>res. rx_frame_type env fc frame out rssi tsft from_a to_a s = Some res \<and> rx_outcome s out res"
proof -
  have data: "\<exists>res. (let (r, out, state) = apple_p2p_rx_data env f out from_a to_a s in Some (r, out, state, [])) =
      Some res \<and> rx_outcome s out res" if f: "wf_buf f" for f
  proof -
    obtain r bs where "apple_p2p_rx_data env f out from_a to_a s = (r, out @ bs, count_data 1 s)" "list_all wf_buf bs"
      using rx_data_shape [OF f peers] by blast
    then show ?thesis using count_preserves [OF peers] by (auto simp: rx_outcome_def)
  qed
  have amsdu: "\<exists>res. (let (r, out, state) = apple_p2p_rx_data_amsdu env f out s in Some (r, out, state, [])) =
      Some res \<and> rx_outcome s out res" if f: "wf_buf f" for f
  proof -
    obtain r bs n where "apple_p2p_rx_data_amsdu env f out s = (r, out @ bs, count_data n s)" "list_all wf_buf bs"
      using amsdu_shape [OF f peers] by blast
    then show ?thesis using count_preserves [OF peers] by (auto simp: rx_outcome_def)
  qed
  have action: "\<exists>res. map_option (\<lambda>(r, state, ev). (r, out, state, ev))
      (apple_p2p_rx_action env frame rssi tsft from_a to_a s) = Some res \<and> rx_outcome s out res"
    using rx_action_safe_lemma [OF peers env frame, of rssi tsft from_a to_a]
    by (auto simp: rx_outcome_def)
  have strip: "wf_buf (snd (buf_strip frame IEEE80211_QOS_CTL_LEN))" by (rule buf_strip_wf [OF frame])
  show ?thesis
    unfolding rx_frame_type_def Let_def [of "\<lambda>frame. _ frame"]
    using data [OF frame] data [OF strip] amsdu [OF strip] action rx_outcome_same [OF peers]
    by (auto simp: BUF_STRIP_def CHECKED_READ_def Let_def split: sum.split prod.split)
qed

lemma sample_env_clock: "clock_time_us (re_clock sample_env) \<noteq> None"
    "unat (rt_next_ns_data (re_iter sample_env)) \<le> rt_limit"
  by (simp_all add: sample_env_def sample_iterator_def clock_time_us_def)

lemma check_fcs_wf: "wf_buf frame \<Longrightarrow> wf_buf (snd (check_fcs frame flags))"
  using buf_take_wf [of frame 4] by (auto simp: check_fcs_def BUF_TAKE_def split: prod.split)

lemma rx_safe_lemma:
  assumes frame: "wf_buf frame" and peers: "peers_wf (speers s)" and env: "rx_env_ok env"
    and clock: "clock_time_us (re_clock env) \<noteq> None"
    and garbage: "unat (rt_next_ns_data (re_iter env)) \<le> rt_limit"
  shows "\<exists>res. apple_p2p_rx env frame out s = Some res \<and> rx_outcome s out res"
proof -
  obtain tsft where tsft: "clock_time_us (re_clock env) = Some tsft" using clock by blast
  obtain r ro where parse: "radiotap_parse (re_iter env) frame
      \<lparr>ro_rssi = Some (re_rssi env), ro_flags = Some (re_flags env), ro_tsft = None\<rparr> = Some (r, ro)"
    using radiotap_parse_safe [OF frame garbage] by blast
  note same = rx_outcome_same [OF peers, of out]
  let ?l = "uint (le_word (slice (buf_data frame) 2 2) :: u16)"
  obtain r1 f1 where s1: "buf_strip frame ?l = (r1, f1)" and f1: "wf_buf f1"
    using buf_strip_wf [OF frame, of ?l] by (cases "buf_strip frame ?l") auto
  obtain bad f2 where s2: "check_fcs f1 (the (ro_flags ro)) = (bad, f2)" and f2: "wf_buf f2"
    using check_fcs_wf [OF f1, of "the (ro_flags ro)"] by (cases "check_fcs f1 (the (ro_flags ro))") auto
  obtain r3 f3 where s3: "buf_strip f2 sizeof_ieee80211_hdr = (r3, f3)" and f3: "wf_buf f3"
    using buf_strip_wf [OF f2, of 24] by (cases "buf_strip f2 sizeof_ieee80211_hdr") auto
  show ?thesis
    using rx_frame_type_safe [OF f3 peers env] same
    by (auto simp: apple_p2p_rx_def tsft parse BUF_STRIP_def s1 s2 s3 Let_def CHECKED_READ_def split: sum.split)
qed



section \<open>The node's own frames\<close>

lemma check_fcs_cases:
  assumes "wf_buf f" and "4 \<le> b_len f"
  shows "fst (check_fcs f flags) = -1 \<or>
    fst (check_fcs f flags) = 0 \<and> wf_buf (snd (check_fcs f flags)) \<and>
      buf_data (snd (check_fcs f flags)) = buf_data f \<and> b_len f - 4 \<le> b_len (snd (check_fcs f flags))"
  using assms buf_take_wf [OF assms(1), of 4]
  by (auto simp: check_fcs_def BUF_TAKE_def buf_take_def buf_data_def)

lemma slice_view_data:
  assumes "wf_buf f" and "int (a + n) \<le> b_len f"
  shows "slice (buf_view f) a n = slice (buf_data f) a n"
proof -
  have "n \<le> nat (b_len f) - a" using assms(2) by linarith
  then show ?thesis by (simp add: buf_view_def buf_data_def slice_def drop_take min_def)
qed

text \<open>A frame whose transmitter address is the node's own is never processed: the outputs and
  the state stay as they are, whatever else the frame contains.\<close>

theorem rx_ignores_self:
  assumes "wf_buf frame" and "n = unat (le_word (slice (buf_data frame) 2 2) :: u16)"
    and "n + 28 \<le> length (buf_view frame)"
    and "slice (buf_view frame) (n + 10) 6 = octets (s_self_address s)"
    and "apple_p2p_rx env frame out s = Some (r, out', s', evs)"
  shows "out' = out \<and> s' = s \<and> evs = [] \<and>
    (r = RX_IGNORE_FROM_SELF \<or> r = RX_IGNORE_FAILED_CRC \<or> r = RX_UNEXPECTED_FORMAT)"
proof -
  have len: "int n + 28 \<le> b_len frame" using assms(3) b_len_view [OF assms(1)] by simp
  have n: "uint (le_word (slice (buf_data frame) 2 2) :: u16) = int n" using assms(2) by simp
  obtain f1 where f1: "buf_strip frame (int n) = (int n, f1)" "wf_buf f1" "b_len f1 = b_len frame - int n"
    "buf_data f1 = drop n (buf_data frame)"
    using buf_strip_ok [OF assms(1), of "int n"] len by (simp add: buf_data_def add.commute)
  have "slice (buf_data f1) 10 6 = slice (buf_data frame) (n + 10) 6"
    using f1(4) by (simp add: slice_def add.commute)
  also have "\<dots> = octets (s_self_address s)"
    using slice_view_data [OF assms(1), of "n + 10" 6] len assms(4) by simp
  finally have self: "ether_of (slice (buf_data f1) 10 6) = s_self_address s" by simp
  have "4 \<le> b_len f1" using f1(3) len by simp
  note fcs = check_fcs_cases [OF f1(2) this]
  obtain tsft where tsft: "clock_time_us (re_clock env) = Some tsft"
    using assms(5) by (auto simp: apple_p2p_rx_def split: option.splits)
  obtain rr ro where parse: "radiotap_parse (re_iter env) frame
      \<lparr>ro_rssi = Some (re_rssi env), ro_flags = Some (re_flags env), ro_tsft = None\<rparr> = Some (rr, ro)"
    using assms(5) by (auto simp: apple_p2p_rx_def tsft split: option.splits)
  obtain bad f2 where s2: "check_fcs f1 (the (ro_flags ro)) = (bad, f2)" by force
  consider (radiotap) "rr < 0" | (fcs) "\<not> rr < 0" "bad \<noteq> 0" | (good) "\<not> rr < 0" "bad = 0"
    by blast
  then show ?thesis
  proof cases
    case radiotap
    then show ?thesis using assms(5) by (simp add: apple_p2p_rx_def tsft parse)
  next
    case fcs
    then show ?thesis
      using assms(5) by (simp add: apple_p2p_rx_def tsft parse n BUF_STRIP_def f1(1) s2 Let_def)
  next
    case good
    then have f2: "buf_data f2 = buf_data f1" "24 \<le> b_len f2"
      using fcs [of "the (ro_flags ro)"] s2 f1(3) len by auto
    then have "read_bytes f2 0 sizeof_ieee80211_hdr = Inr (24, fetch f2 0 24)"
      by (simp add: read_bytes_def)
    then show ?thesis
      using assms(5) good self f2(1)
      by (simp add: apple_p2p_rx_def tsft parse n BUF_STRIP_def f1(1) s2 Let_def memcmp_eq_0)
  qed
qed

theorem rx_ignores_self_witness:
  "\<exists>m r out' s' evs. apple_p2p_rx sample_env
     (const_buf ([0, 0, 8, 0, 0, 0, 0, 0] @ replicate 10 0 @ [2, 0, 0, 0, 0, 1] @ replicate 12 0)) []
     (sample_state m) = Some (r, out', s', evs) \<and> s' = sample_state m"
proof -
  obtain m where m: "peers_wf m" by (rule empty_peers_wf)
  let ?bs = "[0, 0, 8, 0, 0, 0, 0, 0] @ replicate 10 0 @ [2, 0, 0, 0, 0, 1 :: u8] @ replicate 12 0"
  have p: "peers_wf (speers (sample_state m))" using m by (simp add: sample_state_def)
  obtain res where rx: "apple_p2p_rx sample_env (const_buf ?bs) [] (sample_state m) = Some res"
    using rx_safe_lemma [OF wf_const_buf p sample_env_ok sample_env_clock] by blast
  obtain r out' s' evs where res: "res = (r, out', s', evs)" by (cases res) auto
  have "slice (buf_view (const_buf ?bs)) (8 + 10) 6 = octets (s_self_address (sample_state m))"
    by (simp add: slice_def sample_state_def)
  from rx_ignores_self [OF wf_const_buf _ _ this rx [unfolded res]]
  have "s' = sample_state m" by (simp add: buf_data_def slice_def) (simp add: const_buf_def)
  then show ?thesis using rx res by blast
qed

end
