(* ===== verification/Capture.thy ===== *)
theory Capture
  imports Tx_Layout Rx_Path
begin

text \<open>
  Between transmission and reception: in monitor mode the driver of the receiver replaces the radiotap
  header of a transmitted frame by one of its own, with the signal it measured, and may leave
  the checksum of the radio at the end; a frame that was damaged on the way is marked as such.
  The receive path of rx.c reads each such capture as the frame that was sent.
\<close>

section \<open>The headers of a driver\<close>

text \<open>The loop of \<open>radiotap_parse\<close> folds its body over the arguments the iterator yields.\<close>

fun visit_all :: "u8 list \<Rightarrow> rt_iterator list \<Rightarrow> radiotap_out \<Rightarrow> radiotap_out option" where
  "visit_all h [] out = Some out"
| "visit_all h (hit # hits) out = Option.bind (radiotap_visit h hit out) (visit_all h hits)"

lemma radiotap_loop_all:
  "rt_all h it = Some (hits, st) \<Longrightarrow>
     radiotap_loop h it out = map_option (\<lambda>out. (st, out)) (visit_all h hits out)"
proof (induction hits arbitrary: it out)
  case Nil
  then obtain st' it' where n: "ieee80211_radiotap_iterator_next h it = Some (st', it')" and "st' \<noteq> RT_HIT" "st' = st"
    by (auto simp: rt_all.simps [of h it] split: option.splits prod.splits rt_status.splits)
  then show ?case using radiotap_loop.simps [of h it out] by (cases st') simp_all
next
  case (Cons hit hits)
  then have n: "ieee80211_radiotap_iterator_next h it = Some (RT_HIT, hit)" "rt_all h hit = Some (hits, st)"
    by (auto simp: rt_all.simps [of h it] split: option.splits prod.splits rt_status.splits)
  then show ?case
    using radiotap_loop.simps [of h it out] Cons.IH [OF n(2)] by (simp split: option.split)
qed

text \<open>The fields of a header, by the number of their bit, and the byte a field starts with.\<close>

definition header_fields :: "u8 list \<Rightarrow> (nat \<times> nat \<times> nat) list" where
  "header_fields h = rt_layout (le_word (slice h 4 4)) [0..<23] 8"

definition header_byte :: "u8 list \<Rightarrow> nat \<Rightarrow> u8 option" where
  "header_byte h k = map_option (\<lambda>(start, sz). h ! start) (map_of (header_fields h) k)"

text \<open>A header with one bitmap of known fields, all of them inside its length.\<close>

definition driver_header :: "u8 list \<Rightarrow> bool" where
  "driver_header h \<longleftrightarrow> 8 \<le> length h \<and> h ! 0 = 0 \<and> unat (le_word (slice h 2 2) :: u16) = length h \<and>
     (le_word (slice h 4 4) :: u32) < 2 ^ 23 \<and> \<not> bit (le_word (slice h 4 4) :: u32) 18 \<and>
     rt_fits (length h) (header_fields h)"

lemma layout_entry:
  "(k, start, sz) \<in> set (rt_layout w ks off) \<Longrightarrow> k \<in> set ks \<and> sz = snd (rtap_namespace_sizes ! k)"
proof (induction w ks off rule: rt_layout.induct)
  case (2 w i ks off)
  obtain align size where "rtap_namespace_sizes ! i = (align, size)" by force
  then show ?case using 2 by (auto simp: Let_def split: if_splits)
qed simp

lemma layout_distinct: "distinct ks \<Longrightarrow> distinct (map fst (rt_layout w ks off))"
proof (induction w ks off rule: rt_layout.induct)
  case (2 w i ks off)
  have "i \<notin> fst ` set (rt_layout w ks n)" for n using layout_entry 2(3) by fastforce
  then show ?case using 2 by (auto simp: Let_def split: prod.splits)
qed simp

lemma byte_sizes: "snd (rtap_namespace_sizes ! 1) = 1" "snd (rtap_namespace_sizes ! 5) = 1"
  by (simp_all add: rtap_namespace_sizes_def)

text \<open>The loop leaves in each output the byte of its field, if there is one.\<close>

lemma visit_all_bytes:
  assumes "\<forall>hit \<in> set hits. rt_is_radiotap_ns hit" and "distinct (map fst (map rt_field hits))"
    and "\<forall>(k, start, sz) \<in> set (map rt_field hits). start + sz \<le> length h \<and> (k = 1 \<or> k = 5 \<longrightarrow> sz = 1)"
  shows "visit_all h hits \<lparr>ro_rssi = Some a, ro_flags = Some b, ro_tsft = None\<rparr> = Some
    \<lparr>ro_rssi = Some (case map_of (map rt_field hits) 5 of None \<Rightarrow> a | Some (start, sz) \<Rightarrow> h ! start),
     ro_flags = Some (case map_of (map rt_field hits) 1 of None \<Rightarrow> b | Some (start, sz) \<Rightarrow> h ! start),
     ro_tsft = None\<rparr>"
  using assms
proof (induction hits arbitrary: a b)
  case (Cons hit hits)
  let ?k = "rt_this_arg_index hit" and ?n = "unat (rt_this_arg hit)"
  have field: "rt_field hit = (?k, ?n, rt_this_arg_size hit)" by (simp add: rt_field_def)
  have absent: "map_of (map rt_field hits) ?k = None" using Cons.prems(2) by (auto simp: field map_of_eq_None_iff image_image)
  have rest: "\<forall>hit \<in> set hits. rt_is_radiotap_ns hit" "distinct (map fst (map rt_field hits))"
    "\<forall>(k, start, sz) \<in> set (map rt_field hits). start + sz \<le> length h \<and> (k = 1 \<or> k = 5 \<longrightarrow> sz = 1)"
    using Cons.prems by simp_all
  have "rt_read h ?n 1 = Some [h ! ?n]" if "?k = 1 \<or> ?k = 5"
    using Cons.prems(3) that by (auto simp: field rt_read_def slice_one)
  then have "radiotap_visit h hit \<lparr>ro_rssi = Some a, ro_flags = Some b, ro_tsft = None\<rparr> =
    Some \<lparr>ro_rssi = Some (if ?k = 5 then h ! ?n else a), ro_flags = Some (if ?k = 1 then h ! ?n else b), ro_tsft = None\<rparr>"
    using Cons.prems(1) by (auto simp: radiotap_visit_def Let_def)
  then show ?case using absent Cons.IH [OF rest] by (auto simp: field)
qed simp

lemma parse_driver_header:
  assumes wf: "wf_buf f" and v: "buf_view f = h @ rest" and h: "driver_header h"
    and bytes: "header_byte h 1 = Some flags" "header_byte h 5 = Some signal"
  shows "radiotap_parse garbage f \<lparr>ro_rssi = Some a, ro_flags = Some b, ro_tsft = None\<rparr> =
    Some (RX_OK, \<lparr>ro_rssi = Some signal, ro_flags = Some flags, ro_tsft = None\<rparr>)"
proof -
  let ?h = "buf_view f" and ?lay = "header_fields h" and ?w = "le_word (slice h 4 4) :: u32"
  have len: "8 \<le> length h" and d: "h ! 0 = 0" "unat (le_word (slice h 2 2) :: u16) = length h"
      "?w < 2 ^ 23" "\<not> bit ?w 18" "rt_fits (length h) ?lay"
    using h by (simp_all add: driver_header_def)
  have n: "buf_len f = int (length ?h)" using b_len_view [OF wf] by (simp add: buf_len_def)
  have sl: "slice ?h i k = slice h i k" if "i + k \<le> 8" for i k
    using that len by (simp add: v slice_def)
  have pre: "8 \<le> length ?h" "?h ! 0 = 0" "length h = unat (le_word (slice ?h 2 2) :: u16)" "length h \<le> length ?h"
    "?w = le_word (slice ?h 4 4)"
    using len d(1,2) sl [of 2 2] sl [of 4 4] by (auto simp: v nth_append)
  have "\<not> bit ?w i" if "23 \<le> i" for i by (rule bits_above [OF d(3) that])
  from radiotap_fields_correct [OF n pre(1-3) len pre(4,5) this d(4) d(5) [unfolded header_fields_def], of garbage]
  obtain it hits where init: "ieee80211_radiotap_iterator_init garbage ?h (buf_len f) None = Some (RT_HIT, it)"
    and all: "rt_all ?h it = Some (hits, RT_ENOENT)" "map rt_field hits = ?lay"
      "\<forall>hit \<in> set hits. rt_is_radiotap_ns hit"
    unfolding header_fields_def by blast
  have inside: "start + sz \<le> length h" if "(k, start, sz) \<in> set ?lay" for k start sz
    using d(5) that by (force simp: rt_fits_def list_all_iff)
  have size1: "sz = 1" if "(k, start, sz) \<in> set ?lay" "k = 1 \<or> k = 5" for k start sz
    using layout_entry [of k start sz] that byte_sizes by (auto simp: header_fields_def)
  have "visit_all ?h hits \<lparr>ro_rssi = Some a, ro_flags = Some b, ro_tsft = None\<rparr> = Some
    \<lparr>ro_rssi = Some (case map_of ?lay 5 of None \<Rightarrow> a | Some (start, sz) \<Rightarrow> ?h ! start),
     ro_flags = Some (case map_of ?lay 1 of None \<Rightarrow> b | Some (start, sz) \<Rightarrow> ?h ! start), ro_tsft = None\<rparr>"
    unfolding all(2) [symmetric]
  proof (rule visit_all_bytes [OF all(3)])
    show "distinct (map fst (map rt_field hits))" unfolding all(2) header_fields_def by (rule layout_distinct) simp
    show "\<forall>(k, start, sz) \<in> set (map rt_field hits). start + sz \<le> length ?h \<and> (k = 1 \<or> k = 5 \<longrightarrow> sz = 1)"
      unfolding all(2) using inside size1 pre(4) by fastforce
  qed
  moreover have "?h ! start = h ! start" if "map_of ?lay k = Some (start, sz)" "k = 1 \<or> k = 5" for k start sz
    using inside [OF map_of_SomeD [OF that(1)]] size1 [OF map_of_SomeD [OF that(1)] that(2)] by (simp add: v nth_append)
  ultimately have loop: "visit_all ?h hits \<lparr>ro_rssi = Some a, ro_flags = Some b, ro_tsft = None\<rparr> =
      Some \<lparr>ro_rssi = Some signal, ro_flags = Some flags, ro_tsft = None\<rparr>"
    using bytes by (auto simp: header_byte_def)
  have "take (nat (buf_len f)) (buf_data f) = ?h" by (rule buf_data_view [OF wf])
  then show ?thesis using init radiotap_loop_all [OF all(1)] loop by (simp add: radiotap_parse_def Let_def)
qed

section \<open>Captured frames\<close>

definition captured :: "u8 list \<Rightarrow> u8 \<Rightarrow> u8 list \<Rightarrow> bool" where
  "captured g signal f \<longleftrightarrow> (\<exists>h flags fcs. driver_header h \<and> header_byte h 1 = Some flags \<and>
     header_byte h 5 = Some signal \<and> flags AND IEEE80211_RADIOTAP_F_BADFCS = 0 \<and>
     length fcs = (if flags AND IEEE80211_RADIOTAP_F_FCS \<noteq> 0 then 4 else 0) \<and> f = h @ drop 18 g @ fcs)"

definition damaged :: "u8 list \<Rightarrow> bool" where
  "damaged f \<longleftrightarrow> (\<exists>h flags signal rest. driver_header h \<and> header_byte h 1 = Some flags \<and>
     header_byte h 5 = Some signal \<and> flags AND IEEE80211_RADIOTAP_F_BADFCS \<noteq> 0 \<and> f = h @ rest)"

text \<open>The header the program writes itself is such a header, so a frame may also arrive as it was
  transmitted.\<close>

lemma radiotap_present_value: "radiotap_present = 0x482e"
  by code_simp

lemma own_header:
  "driver_header (radiotap_bytes s)" "header_byte (radiotap_bytes s) 1 = Some 0" "header_byte (radiotap_bytes s) 5 = Some 0xe2"
proof -
  have w: "le_word (slice (radiotap_bytes s) 4 4) = (0x482e :: u32)"
    by (simp add: radiotap_bytes_def slice_def radiotap_present_value)
  have "rt_layout 0x482e [0..<23] 8 = [(1, 8, 1), (2, 9, 1), (3, 10, 4), (5, 14, 1), (11, 15, 1), (14, 16, 2)]"
    by (simp add: upt_rec rtap_namespace_sizes_def align_up_def)
  then have lay: "header_fields (radiotap_bytes s) = [(1, 8, 1), (2, 9, 1), (3, 10, 4), (5, 14, 1), (11, 15, 1), (14, 16, 2)]"
    by (simp add: header_fields_def w)
  show "driver_header (radiotap_bytes s)"
    by (simp add: driver_header_def lay w rt_fits_def) (simp add: radiotap_bytes_def slice_def)
  show "header_byte (radiotap_bytes s) 1 = Some 0" "header_byte (radiotap_bytes s) 5 = Some 0xe2"
    by (simp_all add: header_byte_def lay) (simp_all add: radiotap_bytes_def radiotap_fields_bytes_def nth_append)
qed

lemma captured_own: "captured (radiotap_bytes s @ rest) 0xe2 (radiotap_bytes s @ rest)"
  unfolding captured_def by (rule exI [of _ "radiotap_bytes s"], rule exI [of _ 0], rule exI [of _ "[]"]) (simp add: own_header [simplified])

text \<open>A capture with another header, whose flags announce the checksum at the end.\<close>

definition sample_capture :: "u8 list \<Rightarrow> u8 list" where
  "sample_capture g = [0, 0, 15, 0, 42, 0, 0, 0, 0x10, 0, 108, 9, 0, 0, 200] @ drop 18 g @ [1, 2, 3, 4]"

lemma captured_sample: "captured g 200 (sample_capture g)"
proof -
  let ?h = "[0, 0, 15, 0, 42, 0, 0, 0, 0x10, 0, 108, 9, 0, 0, 200] :: u8 list"
  have w: "le_word (slice ?h 4 4) = (42 :: u32)" by (simp add: slice_def)
  have "rt_layout 42 [0..<23] 8 = [(1, 8, 1), (3, 10, 4), (5, 14, 1)]"
    by (simp add: upt_rec rtap_namespace_sizes_def align_up_def)
  then have lay: "header_fields ?h = [(1, 8, 1), (3, 10, 4), (5, 14, 1)]" by (simp add: header_fields_def w)
  have "driver_header ?h" by (simp add: driver_header_def lay w rt_fits_def) (simp add: slice_def)
  moreover have "header_byte ?h 1 = Some 0x10" "header_byte ?h 5 = Some 200" by (simp_all add: header_byte_def lay)
  ultimately show ?thesis
    unfolding captured_def sample_capture_def
    by - (rule exI [of _ ?h], rule exI [of _ "0x10"], rule exI [of _ "[1, 2, 3, 4]"], simp)
qed

section \<open>Reading a capture\<close>

lemma buf_take_fcs:
  assumes "wf_buf b" and "buf_view b = body @ fcs" and "length fcs = 4"
  obtains b' where "buf_take b 4 = (4, b')" and "wf_buf b'" and "buf_view b' = body"
proof -
  have len: "b_len b = int (length body) + 4" using b_len_view [OF assms(1)] by (simp add: assms(2,3))
  have "buf_view (snd (buf_take b 4)) = body" using buf_take_ok [OF assms(1), of 4] len assms(2) by simp
  moreover have "fst (buf_take b 4) = 4" "wf_buf (snd (buf_take b 4))"
    using assms(1) len by (auto simp: buf_take_def wf_buf_def)
  ultimately show thesis using that by (metis prod.collapse)
qed

text \<open>What \<open>apple_p2p_rx\<close> does once the header is read.\<close>

definition after_header :: "rx_env \<Rightarrow> buf \<Rightarrow> u8 \<Rightarrow> u8 \<Rightarrow> u64 \<Rightarrow> buf list \<Rightarrow> apple_p2p_state \<Rightarrow> rx_result" where
  "after_header env f1 flags signal tsft out r =
      (let (bad, frame) = check_fcs f1 flags in
       if bad \<noteq> 0 then Some (RX_IGNORE_FAILED_CRC, out, r, []) else
       CHECKED_READ (read_bytes frame 0 sizeof_ieee80211_hdr) (Some (RX_TOO_SHORT, out, r, [])) (\<lambda>_.
         let ieee80211 = buf_data frame;
             fc = le_word (slice ieee80211 0 2) :: u16;
             to_addr = ether_of (slice ieee80211 4 6);
             from_addr = ether_of (slice ieee80211 10 6)
         in if memcmp (octets from_addr) (octets (s_self_address r)) = 0
            then Some (RX_IGNORE_FROM_SELF, out, r, [])
            else BUF_STRIP frame sizeof_ieee80211_hdr (\<lambda>_. Some (RX_TOO_SHORT, out, r, []))
              (\<lambda>frame. rx_frame_type env fc frame out signal tsft from_addr to_addr r)))"

lemma rx_driver_header:
  assumes h: "driver_header h" "header_byte h 1 = Some flags" "header_byte h 5 = Some signal"
    and clock: "clock_time_us (re_clock env) = Some tsft"
  obtains f1 where "wf_buf f1" and "buf_view f1 = rest"
    and "apple_p2p_rx env (const_buf (h @ rest)) out r =
      after_header env f1 flags signal tsft out r"
proof -
  let ?f = "const_buf (h @ rest)"
  have len: "8 \<le> length h" "unat (le_word (slice h 2 2) :: u16) = length h" using h(1) by (simp_all add: driver_header_def)
  have v: "buf_view ?f = h @ rest" by simp
  note parse = parse_driver_header [OF wf_const_buf v h]
  have b: "b_len ?f = int (length h) + int (length rest)" using b_len_view [OF wf_const_buf, of "h @ rest"] by simp
  have "slice (buf_data ?f) 2 2 = slice h 2 2"
    using slice_view_data [OF wf_const_buf, of 2 2 "h @ rest"] b len(1) by (simp add: slice_def)
  then have it_len: "uint (le_word (slice (buf_data ?f) 2 2) :: u16) = int (length h)"
    using len(2) by (metis uint_nat)
  obtain f1 where f1: "buf_strip ?f (int (length h)) = (int (length h), f1)" "wf_buf f1" "buf_view f1 = rest"
    using buf_strip_ok [OF wf_const_buf, of "int (length h)" "h @ rest"] b by auto
  show thesis
    by (rule that [OF f1(2,3)]) (unfold apple_p2p_rx_def after_header_def, simp only: clock option.case parse prod.case it_len BUF_STRIP_def [of "const_buf (h @ rest)"] f1(1) Let_def radiotap_out.simps option.sel, simp)
qed

lemma rx_damaged:
  assumes "damaged f" and "clock_time_us (re_clock env) = Some tsft"
  shows "apple_p2p_rx env (const_buf f) out r = Some (RX_IGNORE_FAILED_CRC, out, r, [])"
proof -
  obtain h flags signal rest where h: "driver_header h" "header_byte h 1 = Some flags" "header_byte h 5 = Some signal"
    and bad: "flags AND IEEE80211_RADIOTAP_F_BADFCS \<noteq> 0" and f: "f = h @ rest"
    using assms(1) by (auto simp: damaged_def)
  show ?thesis
    unfolding f by (rule rx_driver_header [OF h assms(2)]) (simp add: after_header_def check_fcs_def bad)
qed

lemma rx_captured:
  assumes cap: "captured g signal f" and g: "drop 18 g = hdr_bytes src dst fc seq @ body"
    and clock: "clock_time_us (re_clock env) = Some tsft"
  shows "\<exists>b. wf_buf b \<and> buf_view b = body \<and> apple_p2p_rx env (const_buf f) out r =
    (if src = s_self_address r then Some (RX_IGNORE_FROM_SELF, out, r, [])
     else rx_frame_type env fc b out signal tsft src dst r)"
proof -
  obtain h flags fcs where h: "driver_header h" "header_byte h 1 = Some flags" "header_byte h 5 = Some signal"
    and good: "flags AND IEEE80211_RADIOTAP_F_BADFCS = 0"
    and fcs: "length fcs = (if flags AND IEEE80211_RADIOTAP_F_FCS \<noteq> 0 then 4 else 0)" and f: "f = h @ drop 18 g @ fcs"
    using cap by (auto simp: captured_def)
  obtain f0 where f0: "wf_buf f0" "buf_view f0 = drop 18 g @ fcs"
    and rx: "apple_p2p_rx env (const_buf f) out r =
      after_header env f0 flags signal tsft out r"
    unfolding f by (rule rx_driver_header [OF h clock])
  obtain f1 where f1: "check_fcs f0 flags = (0, f1)" "wf_buf f1" "buf_view f1 = hdr_bytes src dst fc seq @ body"
  proof (cases "flags AND IEEE80211_RADIOTAP_F_FCS = 0")
    case True
    then show thesis using that [of f0] f0 g fcs good by (simp add: check_fcs_def)
  next
    case False
    then have "length fcs = 4" using fcs by simp
    with buf_take_fcs [OF f0] obtain b where "buf_take f0 4 = (4, b)" "wf_buf b" "buf_view b = drop 18 g" by blast
    then show thesis using that [of b] g good False by (simp add: check_fcs_def BUF_TAKE_def)
  qed
  have len1: "b_len f1 = int (length body) + 24" using b_len_view [OF f1(2)] by (simp add: f1(3) hdr_bytes_def)
  obtain f2 where f2: "buf_strip f1 24 = (24, f2)" "wf_buf f2" "buf_view f2 = body"
    using buf_strip_ok [OF f1(2), of 24] len1 f1(3) by (auto simp: hdr_bytes_def)
  have sl: "slice (buf_data f1) i n = slice (hdr_bytes src dst fc seq @ body) i n" if "i + n \<le> 24" for i n
    using slice_view_data [OF f1(2), of i n] that len1 f1(3) by simp
  have fields: "(le_word (slice (buf_data f1) 0 2) :: u16) = fc" "ether_of (slice (buf_data f1) 4 6) = dst"
    "ether_of (slice (buf_data f1) 10 6) = src"
    by (simp_all add: sl hdr_bytes_def) (simp_all add: slice_def)
  have rd: "read_bytes f1 0 24 = Inr (24, fetch f1 0 24)" using len1 by (simp add: read_bytes_def)
  have "apple_p2p_rx env (const_buf f) out r = (if src = s_self_address r then Some (RX_IGNORE_FROM_SELF, out, r, [])
      else rx_frame_type env fc f2 out signal tsft src dst r)"
    by (simp add: rx after_header_def f1(1) BUF_STRIP_def rd fields f2(1) Let_def memcmp_eq_0)
  then show ?thesis using f2(2,3) by blast
qed

end
