(* ===== verification/Tx_Rx.thy ===== *)
theory Tx_Rx
  imports Capture
begin

text \<open>
  The transmitting and the receiving code together: what tx.c writes, rx.c reads back. Each
  record of an action frame is decoded by its handler, the radiotap header by the iterator (Capture),
  and a complete frame of another node updates the sender's entry with what the sender
  announced; data frames arrive as the Ethernet frames they carry.
\<close>

section \<open>Lists of records\<close>

lemma parse_tlvs_nil [simp]: "parse_tlvs [] = ([], [])"
  by (simp add: parse_tlvs.simps no_tlv_def)

lemma parse_tlvs_cons:
  assumes "length v < 65536"
  shows "parse_tlvs (tlv_bytes t v @ bs) = (case parse_tlvs bs of (tlvs, rest) \<Rightarrow> ((t, v) # tlvs, rest))"
proof -
  have n: "unat (le_word (slice (tlv_bytes t v @ bs) 1 2) :: u16) = length v"
    using assms by (simp add: tlv_bytes_def slice_def unat_word_of_nat)
  have "\<not> no_tlv (tlv_bytes t v @ bs)"
    using n by (simp add: no_tlv_def)
  moreover have "slice (tlv_bytes t v @ bs) 3 (length v) = v" "(tlv_bytes t v @ bs) ! 0 = t"
    by (simp_all add: tlv_bytes_def slice_def)
  moreover have "drop (length (tlv_bytes t v)) (tlv_bytes t v @ bs) = bs" by simp
  then have "drop (3 + length v) (tlv_bytes t v @ bs) = bs" by (simp only: length_tlv_bytes)
  ultimately show ?thesis
    using n by (simp add: parse_tlvs.simps [of "tlv_bytes t v @ bs"] Let_def split: prod.split)
qed

lemma parse_tlvs_encode:
  "\<forall>(t, v) \<in> set tlvs. length v < 65536 \<Longrightarrow> parse_tlvs (tlvs_bytes tlvs) = (tlvs, [])"
  by (induction tlvs) (auto simp: parse_tlvs_cons)

section \<open>Each record and its handler\<close>

lemma le16_const: "wf_buf b \<Longrightarrow> buf_view b = xs @ le_bytes 2 w @ ys \<Longrightarrow>
    read_le16 b (int (length xs)) = Inr (2, w)"
  by (simp add: read_le16_view slice_def)

text \<open>Sixteen channels of two bytes.\<close>

lemma read_chans:
  "length stack = length cs \<Longrightarrow>
     read_chan_list (const_buf (xs @ concat (map chan_bytes cs) @ ys)) 2 (int (length xs)) stack = Some cs"
proof (induction cs arbitrary: stack xs)
  case Nil
  then show ?case by simp
next
  case (Cons c cs)
  then obtain d ds where st: "stack = d # ds" "length ds = length cs" by (cases stack) auto
  have "read_bytes_copy (const_buf (xs @ concat (map chan_bytes (c # cs)) @ ys)) (int (length xs)) 2 =
      Inr (2, chan_bytes c)"
    by (simp add: read_bytes_copy_def fetch_view slice_def)
  moreover have "chan_store d (chan_bytes c) = c" by (cases c) simp
  moreover have "read_chan_list (const_buf ((xs @ chan_bytes c) @ concat (map chan_bytes cs) @ ys)) 2
      (int (length (xs @ chan_bytes c))) ds = Some cs"
    by (rule Cons.IH [OF st(2)])
  ultimately show ?case using st(1) by (simp add: add.commute)
qed

text \<open>The synchronisation after an accepted announcement.\<close>

definition sync_after :: "u64 \<Rightarrow> u16 \<Rightarrow> u16 \<Rightarrow> apple_p2p_sync_state \<Rightarrow> apple_p2p_sync_state" where
  "sync_after now down aw sync =
     (let sync = sync\<lparr>meas_total := meas_total sync + 1\<rparr>;
          err = apple_p2p_sync_error_tu now down aw sync;
          sync = (if err > APPLE_P2P_SYNC_THRESHOLD \<or> err < - APPLE_P2P_SYNC_THRESHOLD
                  then sync\<lparr>meas_err := meas_err sync + 1\<rparr> else sync)
      in apple_p2p_sync_update_last now down aw sync)"

definition after_sync :: "u64 \<Rightarrow> u64 \<Rightarrow> apple_p2p_state \<Rightarrow> ether_addr \<Rightarrow> apple_p2p_state \<Rightarrow> apple_p2p_state" where
  "after_sync tsft now s a r =
     (if e_sync_addr (s_election r) = a
      then r\<lparr>s_sync := sync_after tsft (apple_p2p_sync_next_aw_tu now (s_sync s))
        (apple_p2p_sync_current_aw now (s_sync s)) (s_sync r)\<rparr>
      else r)"

lemma handle_sync_value:
  assumes "length (ch_sequence (s_channel s)) = 16"
  shows "apple_p2p_handle_tlv stack p APPLE_P2P_SYNCHRONIZATON_PARAMETERS_TLV (const_buf (sync_value now s)) r tsft =
    (if e_sync_addr (s_election r) = p_addr p then RX_OK else RX_IGNORE, p, after_sync tsft now s (p_addr p) r)"
proof -
  let ?v = "sync_value now s" and ?y = "s_sync s"
  obtain a b where v: "?v = [a] @ le_bytes 2 (apple_p2p_sync_next_aw_tu now ?y) @ b"
    by (simp add: sync_value_def Let_def)
  obtain c d where v2: "?v = c @ le_bytes 2 (apple_p2p_sync_current_aw now ?y) @ d" "length c = 29"
  proof
    show "?v = (apple_p2p_chan_num (ch_current (s_channel s)) (ch_enc (s_channel s)) #
        le_bytes 2 (apple_p2p_sync_next_aw_tu now ?y) @
        [apple_p2p_chan_num (ch_master (s_channel s)) (ch_enc (s_channel s)), 0] @
         le_bytes 2 (aw_period ?y) @ le_bytes 2 (s_psf_interval s) @ le_bytes 2 (0x1800 :: u16) @
         le_bytes 2 (aw_period ?y) @ le_bytes 2 (aw_period ?y) @
         le_bytes 2 (remaining_aw_length (aw_period ?y) (aw_period ?y) (presence_mode ?y)
           (apple_p2p_sync_next_aw_tu now ?y)) @
         [presence_mode ?y - 1, presence_mode ?y - 1, presence_mode ?y - 1, presence_mode ?y - 1] @
         octets (e_master_addr (s_election s)) @ [presence_mode ?y, 0]) @
         le_bytes 2 (apple_p2p_sync_current_aw now ?y) @
         (le_bytes 2 (apple_p2p_sync_current_aw now ?y) @ chanseq_body (s_channel s) @ [0, 0])"
      by (simp add: sync_value_def Let_def)
  qed simp
  have "read_le16 (const_buf ?v) 1 = Inr (2, apple_p2p_sync_next_aw_tu now ?y)"
    using le16_const [of "const_buf ?v" "[a]", OF wf_const_buf] v by simp
  moreover have "read_le16 (const_buf ?v) 29 = Inr (2, apple_p2p_sync_current_aw now ?y)"
    using le16_const [of "const_buf ?v" c, OF wf_const_buf] v2 by simp
  ultimately show ?thesis
    by (simp add: apple_p2p_handle_tlv_def apple_p2p_handle_sync_params_tlv_def
        apple_p2p_election_is_sync_master_def after_sync_def sync_after_def Let_def)
qed

lemma handle_chanseq_value:
  assumes "enc_ok s" and "length stack = 16" and "presence_mode (s_sync r) = 4"
  shows "apple_p2p_handle_tlv stack p APPLE_P2P_CHAN_SEQ_TLV (const_buf (chanseq_value s)) r tsft =
    (RX_OK, p\<lparr>p_sequence := ch_sequence (s_channel s)\<rparr>, r)"
proof -
  let ?cs = "ch_sequence (s_channel s)"
  let ?v = "[15, 3, 0, 3, 0xff, 0xff] @ concat (map chan_bytes ?cs) @ [0, 0, 0]"
  have "le_bytes 2 (0xffff :: u16) = [0xff, 0xff]" by code_simp
  then have v: "chanseq_value s = ?v"
    using assms(1) by (simp add: enc_ok_def chanseq_value_def chanseq_body_def packed_defs
        apple_p2p_chan_encoding_length_def)
  have "read_chan_list (const_buf ?v) 2 (int (length [15, 3, 0, 3, 0xff, 0xff :: u8])) stack = Some ?cs"
    using assms by (intro read_chans) (simp add: enc_ok_def)
  then have chans: "read_chan_list (const_buf ?v) 2 6 stack = Some ?cs" by simp
  have fill: "(le_word [0xff, 0xff] :: u16) = 0xffff" by code_simp
  have "p\<lparr>p_sequence := ?cs\<rparr> = p" if "p_sequence p = ?cs" using that by (metis apple_p2p_peer.surjective apple_p2p_peer.update_convs(4))
  then show ?thesis
    using assms(3) chans
    by (simp add: apple_p2p_handle_tlv_def apple_p2p_handle_chanseq_tlv_def v read_u8_view read_le16_view slice_def
        fill apple_p2p_chan_encoding_size_def Let_def)
qed

definition announced_election :: "apple_p2p_election_state \<Rightarrow> apple_p2p_election_state \<Rightarrow> apple_p2p_election_state" where
  "announced_election e old = e\<lparr>e_self_addr := e_self_addr old\<rparr>"

lemma handle_election_value:
  "\<exists>p'. apple_p2p_handle_tlv stack p APPLE_P2P_ELECTION_PARAMETERS_TLV (const_buf (election_value e)) r tsft =
      (RX_OK, p', r) \<and>
    p' = (if p_supports_v2 p then p else p\<lparr>p_election := (p_election p)\<lparr>e_height := ucast (ucast (e_height e) :: u8),
      e_master_addr := e_master_addr e, e_master_metric := e_master_metric e,
      e_self_metric := e_self_metric e\<rparr>\<rparr>)"
  by (simp add: apple_p2p_handle_tlv_def apple_p2p_handle_election_params_tlv_def election_value_def read_views
      slice_def set_election_def Let_def)

lemma handle_election_v2_value:
  "apple_p2p_handle_tlv stack p APPLE_P2P_ELECTION_PARAMETERS_V2_TLV (const_buf (election_v2_value e)) r tsft =
    (RX_OK, p\<lparr>p_election := announced_election e (p_election p), p_supports_v2 := True\<rparr>, r)"
  by (simp add: apple_p2p_handle_tlv_def apple_p2p_handle_election_params_v2_tlv_def election_v2_value_def read_views
      slice_def set_election_def announced_election_def Let_def)

lemma handle_version_value:
  "apple_p2p_handle_tlv stack p APPLE_P2P_VERSION_TLV (const_buf (version_value s)) r tsft =
    (RX_OK, p\<lparr>p_version := s_version s, p_devclass := s_dev_class s\<rparr>, r)"
  by (simp add: apple_p2p_handle_tlv_def apple_p2p_handle_version_tlv_def version_value_def read_u8_view)

lemma handle_data_path_value:
  "apple_p2p_handle_tlv stack p APPLE_P2P_DATA_PATH_STATE_TLV (const_buf (data_path_value s)) r tsft =
    (RX_OK, p\<lparr>p_country_code := [67, 78, 0]\<rparr>, r)"
proof -
  have f: "le_bytes 2 (0x8f64 :: u16) = [0x64, 0x8f]" by code_simp
  have g: "(le_word [0x64, 0x8f] :: u16) = 0x8f64" by code_simp
  have flags: "flag_set 0x8f64 APPLE_P2P_DATA_PATH_FLAG_COUNTRY_CODE"
    "flag_set 0x8f64 APPLE_P2P_DATA_PATH_FLAG_SOCIAL_CHANNEL_MAP"
    "\<not> flag_set 0x8f64 APPLE_P2P_DATA_PATH_FLAG_INFRA_INFO"
    "\<not> flag_set 0x8f64 APPLE_P2P_DATA_PATH_FLAG_INFRA_ADDRESS"
    "flag_set 0x8f64 APPLE_P2P_DATA_PATH_FLAG_APPLE_P2P_ADDRESS"
    by (simp_all add: flag_set_def)
  show ?thesis
    by (simp add: apple_p2p_handle_tlv_def apple_p2p_handle_data_path_state_tlv_def data_path_value_def f g flags
        read_views read_bytes_copy_def fetch_view slice_def Let_def)
qed

lemma handle_arpa_value:
  assumes "length name \<le> 50"
  shows "apple_p2p_handle_tlv stack p APPLE_P2P_ARPA_TLV (const_buf (arpa_value name)) r tsft =
    (RX_OK, p\<lparr>p_name := name\<rparr>, r)"
proof -
  have u: "uint (of_nat (length name) :: u8) = int (length name)"
    using assms by (simp add: unsigned_of_nat take_bit_nat_eq_self)
  have "read_int_string (const_buf (arpa_value name)) 1 (int HOST_NAME_LENGTH_MAX) =
      Inr (int (length name) + 1, name)"
    using assms u by (simp add: read_int_string_def arpa_value_def read_u8_view read_bytes_copy_def fetch_view slice_def)
  then show ?thesis by (simp add: apple_p2p_handle_tlv_def apple_p2p_handle_arpa_tlv_def)
qed

lemma handle_ignored:
  "t \<in> {APPLE_P2P_SERVICE_PARAMETERS_TLV, APPLE_P2P_ENHANCED_DATA_RATE_CAPABILITIES_TLV,
       APPLE_P2P_SERVICE_RESPONSE_TLV} \<Longrightarrow>
     apple_p2p_handle_tlv stack p t b r tsft = (RX_IGNORE, p, r)"
  by (auto simp: apple_p2p_handle_tlv_def Let_def)

section \<open>All records of an action frame\<close>

definition announced_peer :: "apple_p2p_state \<Rightarrow> u8 \<Rightarrow> u8 list \<Rightarrow> apple_p2p_peer \<Rightarrow> apple_p2p_peer" where
  "announced_peer s typ name p = p\<lparr>p_election := announced_election (s_election s) (p_election p),
     p_supports_v2 := True, p_sequence := ch_sequence (s_channel s),
     p_name := (if typ = APPLE_P2P_ACTION_MIF then name else p_name p), p_country_code := [67, 78, 0],
     p_version := s_version s, p_devclass := s_dev_class s\<rparr>"

lemma after_sync_presence [simp]:
  "presence_mode (s_sync (after_sync tsft now s a r)) = presence_mode (s_sync r)"
  by (simp add: after_sync_def sync_after_def apple_p2p_sync_update_last_def Let_def)

lemma run_tlvs_step:
  assumes "apple_p2p_handle_tlv (stack n) p t (const_buf v) r tsft = (res, p', r')" and "0 \<le> res"
    and "\<exists>ev. run_tlvs stack tsft (n - 3 - int (length v)) tlvs p' r' = (None, p'', r'', ev)"
  shows "\<exists>ev. run_tlvs stack tsft n ((t, v) # tlvs) p r = (None, p'', r'', ev)"
  using assms by auto

lemma run_service_records:
  "\<exists>ev. run_tlvs stack tsft n (map (Pair APPLE_P2P_SERVICE_RESPONSE_TLV) vs) p r = (None, p, r, ev)"
proof (induction vs arbitrary: n)
  case Nil
  show ?case by simp
next
  case (Cons v vs)
  show ?case
    unfolding list.map
    by (rule run_tlvs_step [OF handle_ignored _ Cons.IH]) simp_all
qed

lemma run_action_records:
  assumes s: "enc_ok s" "length name \<le> 50" and stack: "stack_ok stack" and r: "presence_mode (s_sync r) = 4"
  shows "\<exists>ev. run_tlvs stack tsft n (action_records now s typ name) p r =
    (None, announced_peer s typ name p, after_sync tsft now s (p_addr p) r, ev)"
proof -
  have st: "length (stack m) = 16" for m using stack by (simp add: stack_ok_def)
  have seq: "length (ch_sequence (s_channel s)) = 16" using s by (simp add: enc_ok_def)
  let ?r = "after_sync tsft now s (p_addr p) r"
  define q where "q = (if p_supports_v2 p then p else p\<lparr>p_election := (p_election p)\<lparr>
      e_height := ucast (ucast (e_height (s_election s)) :: u8),
      e_master_addr := e_master_addr (s_election s), e_master_metric := e_master_metric (s_election s),
      e_self_metric := e_self_metric (s_election s)\<rparr>\<rparr>)"
  let ?q1 = "q\<lparr>p_sequence := ch_sequence (s_channel s)\<rparr>"
  let ?q2 = "?q1\<lparr>p_election := announced_election (s_election s) (p_election ?q1), p_supports_v2 := True\<rparr>"
  have q: "announced_election (s_election s) (p_election q) = announced_election (s_election s) (p_election p)"
    by (simp add: q_def announced_election_def)
  have e1: "apple_p2p_handle_tlv st p APPLE_P2P_ELECTION_PARAMETERS_TLV (const_buf (election_value (s_election s))) r' tsft =
      (RX_OK, q, r')" for st r'
    using handle_election_value [of st p "s_election s" r' tsft] by (simp add: q_def)
  let ?q3 = "if typ = APPLE_P2P_ACTION_MIF then ?q2\<lparr>p_name := name\<rparr> else ?q2"
  let ?q4 = "?q3\<lparr>p_country_code := [67, 78, 0], p_version := s_version s, p_devclass := s_dev_class s\<rparr>"
  have fin: "?q4 = announced_peer s typ name p"
    by (simp add: announced_peer_def q) (simp add: q_def)
  have res: "(if e_sync_addr (s_election r) = p_addr p then RX_OK else RX_IGNORE) \<ge> 0" by simp
  have tail: "\<exists>ev. run_tlvs stack tsft m ([(APPLE_P2P_DATA_PATH_STATE_TLV, data_path_value s),
        (APPLE_P2P_VERSION_TLV, version_value s)] @
      (if typ = APPLE_P2P_ACTION_MIF
       then map (Pair APPLE_P2P_SERVICE_RESPONSE_TLV) (service_records (s_self_address s) name) else []))
      ?q3 ?r = (None, announced_peer s typ name p, ?r, ev)" for m
  proof -
    have "\<exists>ev. run_tlvs stack tsft m' (if typ = APPLE_P2P_ACTION_MIF
       then map (Pair APPLE_P2P_SERVICE_RESPONSE_TLV) (service_records (s_self_address s) name) else [])
      ?q4 ?r = (None, announced_peer s typ name p, ?r, ev)" for m'
      unfolding fin using run_service_records by (cases "typ = APPLE_P2P_ACTION_MIF") simp_all
    then show ?thesis
      unfolding append_Cons append_Nil
      by (intro run_tlvs_step [OF handle_data_path_value] run_tlvs_step [OF handle_version_value]) simp_all
  qed
  have middle: "\<exists>ev. run_tlvs stack tsft m ((if typ = APPLE_P2P_ACTION_MIF
      then [(APPLE_P2P_ENHANCED_DATA_RATE_CAPABILITIES_TLV, ht_value), (APPLE_P2P_ARPA_TLV, arpa_value name)]
      else []) @ [(APPLE_P2P_DATA_PATH_STATE_TLV, data_path_value s), (APPLE_P2P_VERSION_TLV, version_value s)] @
      (if typ = APPLE_P2P_ACTION_MIF
       then map (Pair APPLE_P2P_SERVICE_RESPONSE_TLV) (service_records (s_self_address s) name) else []))
      ?q2 ?r = (None, announced_peer s typ name p, ?r, ev)" for m
  proof (cases "typ = APPLE_P2P_ACTION_MIF")
    case True
    show ?thesis
      unfolding if_P [OF True] append_Cons append_Nil
      by (rule run_tlvs_step [OF handle_ignored], simp, simp, rule run_tlvs_step [OF handle_arpa_value [OF s(2)]],
          simp, rule tail [unfolded if_P [OF True] append_Cons append_Nil])
  next
    case False
    then show ?thesis using tail [of m] by simp
  qed
  have pres: "presence_mode (s_sync ?r) = 4" using r by simp
  show ?thesis
    unfolding action_records_def append_Cons append_Nil
    by (rule run_tlvs_step [OF handle_sync_value [OF seq] res], rule run_tlvs_step [OF e1], simp,
        rule run_tlvs_step [OF handle_chanseq_value [OF s(1) st pres]], simp,
        rule run_tlvs_step [OF handle_election_v2_value], simp,
        rule run_tlvs_step [OF handle_ignored], simp, simp, rule middle [unfolded append_Cons append_Nil])
qed

section \<open>The headers\<close>

lemma view_nth: "wf_buf b \<Longrightarrow> i < length (buf_view b) \<Longrightarrow> buf_data b ! i = buf_view b ! i"
  by (simp add: buf_view_def buf_data_def slice_def)

lemma parse_own_action_hdr:
  assumes "wf_buf f" and v: "buf_view f = action_bytes now typ @ rest"
    and "typ = APPLE_P2P_ACTION_PSF \<or> typ = APPLE_P2P_ACTION_MIF"
  shows "apple_p2p_parse_action_hdr f = uint typ"
proof -
  have len: "16 \<le> length (buf_view f)" by (simp add: v action_bytes_def)
  then have b: "16 \<le> b_len f" using b_len_view [OF assms(1)] by simp
  have nth: "buf_data f ! i = (action_bytes now typ @ rest) ! i" if "i < 16" for i
    using view_nth [OF assms(1), of i] that len v by simp
  have "slice (buf_data f) 1 3 = slice (buf_view f) 1 3"
    using slice_view_data [OF assms(1), of 1 3] b by simp
  then have oui: "slice (buf_data f) 1 3 = APPLE_P2P_OUI"
    by (simp add: v action_bytes_def slice_def APPLE_P2P_OUI_def)
  show ?thesis
    using assms(3) b oui
    by (auto simp: apple_p2p_parse_action_hdr_def read_bytes_def nth memcmp_eq_0 Let_def action_bytes_def)
qed

section \<open>Action frames\<close>

lemma action_records_small:
  assumes "enc_ok s" and "length name \<le> 50"
  shows "\<forall>(t, v) \<in> set (action_records now s typ name). length v < 65536"
proof -
  have l: "length (chanseq_body (s_channel s)) = 38" using assms(1) by (simp add: enc_ok_def)
  have "\<forall>v \<in> set (service_records (s_self_address s) name). length v < 65536"
    using assms(2) texts_strings
    by (simp add: service_records_def service_record_lengths raop_domain_length)
  then show ?thesis
    using assms(2) l
    by (auto simp: action_records_def sync_value_def election_value_def chanseq_value_def election_v2_value_def
        service_params_value_def ht_value_def arpa_value_def data_path_value_def version_value_def Let_def)
qed

lemma rx_captured_action:
  assumes air: "captured (action_frame s seq typ now1 now2 name) signal f"
    and kind: "typ = APPLE_P2P_ACTION_PSF \<or> typ = APPLE_P2P_ACTION_MIF"
    and clock: "clock_time_us (re_clock env) = Some tsft"
  shows "\<exists>b. wf_buf b \<and> buf_view b = action_bytes (ucast now1) typ @ tlvs_bytes (action_records now2 s typ name) \<and>
    apple_p2p_parse_action_hdr b = uint typ \<and> apple_p2p_rx env (const_buf f) out r =
      (if s_self_address s = s_self_address r then Some (RX_IGNORE_FROM_SELF, out, r, [])
       else rx_frame_type env (IEEE80211_FTYPE_MGMT OR IEEE80211_STYPE_ACTION) b out signal tsft (s_self_address s) (s_dst s) r)"
proof -
  have "drop 18 (action_frame s seq typ now1 now2 name) = hdr_bytes (s_self_address s) (s_dst s)
      (IEEE80211_FTYPE_MGMT OR IEEE80211_STYPE_ACTION) seq @ action_bytes (ucast now1) typ @
      tlvs_bytes (action_records now2 s typ name)"
    by (simp add: action_frame_def)
  from rx_captured [OF air this clock, of out r] parse_own_action_hdr [OF _ _ kind] show ?thesis by blast
qed

text \<open>A weak signal is ignored.\<close>

lemma rx_weak_action:
  assumes "captured (action_frame s seq typ now1 now2 name) signal f"
    and "typ = APPLE_P2P_ACTION_PSF \<or> typ = APPLE_P2P_ACTION_MIF" and "clock_time_us (re_clock env) = Some tsft"
    and other: "s_self_address s \<noteq> s_self_address r" and weak: "rssi_ignored r signal (s_self_address s)"
  shows "apple_p2p_rx env (const_buf f) out r = Some (RX_IGNORE_RSSI, out, r, [])"
  using rx_captured_action [OF assms(1-3), of out r] other weak
  by (auto simp: rx_frame_type_def apple_p2p_rx_action_def Let_def)

lemma action_roundtrip_correct:
  assumes s: "enc_ok s" "length name \<le> 50" and kind: "typ = APPLE_P2P_ACTION_PSF \<or> typ = APPLE_P2P_ACTION_MIF"
    and r: "peers_wf (speers r)" "sync_wf (s_sync r)" and env: "rx_env_ok env"
    and clock: "clock_time_us (re_clock env) = Some tsft" and other: "s_self_address s \<noteq> s_self_address r"
    and strong: "\<not> rssi_ignored r signal (s_self_address s)"
    and air: "captured (action_frame s seq typ now1 now2 name) signal f"
  shows "\<exists>res r' evs. apple_p2p_rx env (const_buf f) out r = Some (res, out, r', evs) \<and>
    (res = RX_IGNORE \<and> rx_dropped r (s_self_address s) r' \<and> no_room env r (s_self_address s) tsft \<or>
     res = RX_OK \<and> rx_preserves r (s_self_address s) r' \<and>
     s_sync r' = s_sync (after_sync tsft now2 s (s_self_address s) r) \<and>
     peer_map (speers r') (s_self_address s) =
       Some (action_peer env (s_self_address s) tsft (uint typ) True (announced_peer s typ name
         (added_peer (re_peer_mem env) (peer_map (speers r) (s_self_address s)) (s_self_address s) tsft))))"
proof -
  let ?src = "s_self_address s" and ?recs = "action_records now2 s typ name"
  let ?p0 = "added_peer (re_peer_mem env) (peer_map (speers r) ?src) ?src tsft"
  from rx_captured_action [OF air kind clock, of out r] other obtain b where b: "wf_buf b"
    "buf_view b = action_bytes (ucast now1) typ @ tlvs_bytes ?recs"
    and hdr: "apple_p2p_parse_action_hdr b = uint typ"
    and rx: "apple_p2p_rx env (const_buf f) out r = rx_frame_type env (IEEE80211_FTYPE_MGMT OR IEEE80211_STYPE_ACTION) b
      out signal tsft ?src (s_dst s) r"
    by auto
  have "drop 16 (buf_view b) = tlvs_bytes ?recs" by (simp add: b(2) action_bytes_def)
  then have parse: "parse_tlvs (drop 16 (buf_view b)) = (?recs, [])"
    using parse_tlvs_encode [OF action_records_small [OF s]] by simp
  have stack: "stack_ok (re_stack env)" using env by (simp add: rx_env_ok_def)
  have pres: "presence_mode (s_sync r) = 4" using r(2) by (simp add: sync_wf_def)
  have addr: "p_addr ?p0 = ?src"
    using r(1) peer_map_addr [of "speers r" ?src] by (intro added_peer_addr) (auto simp: peers_wf_def)
  obtain ev where run: "run_tlvs (re_stack env) tsft (b_len b - 16) ?recs ?p0 r =
      (None, announced_peer s typ name ?p0, after_sync tsft now2 s ?src r, ev)"
    using run_action_records [OF s stack pres, of tsft "b_len b - 16" now2 "typ" ?p0] addr by auto
  from rx_action_correct [OF r(1) env b(1) hdr _ strong parse run, of "s_dst s"] obtain res r' evs where
    act: "apple_p2p_rx_action env b signal tsft ?src (s_dst s) r = Some (res, r', evs)"
    and post: "res = RX_IGNORE \<and> rx_dropped r ?src r' \<and> no_room env r ?src tsft \<or>
     res = RX_OK \<and> rx_preserves r ?src r' \<and> s_sync r' = s_sync (after_sync tsft now2 s ?src r) \<and>
     peer_map (speers r') ?src =
       Some (action_peer env ?src tsft (uint typ) True (announced_peer s typ name ?p0))"
    by auto
  have "apple_p2p_rx env (const_buf f) out r = Some (res, out, r', evs)"
    using rx act by (simp add: rx_frame_type_def Let_def)
  then show ?thesis using post by blast
qed



section \<open>Data frames\<close>


lemma ethernet_out_take:
  "length payload \<le> 1504 \<Longrightarrow>
     take (14 + length payload) (ethernet_out heap dst src t payload) =
       octets dst @ octets src @ be_bytes 2 t @ payload"
  by (simp add: ethernet_out_def Let_def)


end
