(* ===== verification/Io.thy ===== *)
theory Io
  imports Emit Ether
begin

text \<open>
  io.c and the link-local addresses of netutils.c: opening the capture handle and the host
  interface, sending and receiving on them. The results of the system calls and of libpcap are
  parameters (records \<open>pcap_results\<close>, \<open>tun_results\<close> and \<open>link_results\<close>); the code of
  this file is what decides which calls are made and what their results mean.
\<close>

section \<open>The state of the two interfaces\<close>

abbreviation PATH_MAX :: nat where "PATH_MAX \<equiv> 4096"
abbreviation IFNAMSIZ :: nat where "IFNAMSIZ \<equiv> 16"
abbreviation ENOENT :: int where "ENOENT \<equiv> 2"
abbreviation EINVAL :: int where "EINVAL \<equiv> 22"
abbreviation DLT_IEEE802_11_RADIO :: int where "DLT_IEEE802_11_RADIO \<equiv> 127"

datatype pcap_handle = Live "u8 list" | Savefile "u8 list"

text \<open>A NULL handle is \<open>None\<close>; interface names are their characters without terminator.\<close>

record io_state =
  wlan_handle :: "pcap_handle option"
  wlan_ifname :: "u8 list"
  wlan_ifindex :: int
  host_ifname :: "u8 list"
  host_ifindex :: int
  if_ether_addr :: ether_addr
  wlan_fd :: int
  host_fd :: int
  dumpfile :: "u8 list option"
  wlan_no_monitor_mode :: bool
  wlan_is_file :: bool

text \<open>What is closed, in order.\<close>

datatype closed = Pcap_Close | Close int

section \<open>Opening\<close>

record pcap_results =
  pr_create :: bool
  pr_activate :: int
  pr_setnonblock :: int
  pr_datalink :: int
  pr_compile :: int
  pr_setfilter :: int
  pr_fd :: int
  pr_offline :: bool
  pr_offline_fd :: int

text \<open>The result, and the handle stored through \<open>pcap_handle\<close> on success. The compiled filter
  keeps the frames whose third address is the given one; it runs inside libpcap.\<close>

definition open_nonblocking_device ::
  "pcap_results \<Rightarrow> u8 list \<Rightarrow> ether_addr \<Rightarrow> int \<times> pcap_handle option \<times> closed list" where
  "open_nonblocking_device pr dev bssid_filter =
     (if \<not> pr_create pr then (-1, None, [])
      else if pr_activate pr < 0 then (-1, None, [Pcap_Close])
      else if pr_setnonblock pr \<noteq> 0 then (-1, None, [Pcap_Close])
      else if pr_datalink pr \<noteq> DLT_IEEE802_11_RADIO then (-1, None, [Pcap_Close])
      else if pr_compile pr = -1 then (-1, None, [])
      else if pr_setfilter pr = -1 then (-1, None, [])
      else if pr_fd pr = -1 then (-1, None, [])
      else (pr_fd pr, Some (Live dev), []))"

definition open_savefile :: "pcap_results \<Rightarrow> u8 list \<Rightarrow> int \<times> pcap_handle option" where
  "open_savefile pr filename =
     (if \<not> pr_offline pr then (-1, None)
      else if pr_offline_fd pr = -1 then (-1, None)
      else (pr_offline_fd pr, Some (Savefile filename)))"

text \<open>\<open>tr_setiff\<close> maps the requested name, empty for any, to the result and the name in use.\<close>

record tun_results =
  tr_open :: int
  tr_setiff :: "u8 list \<Rightarrow> int \<times> u8 list"
  tr_nonblock :: int
  tr_socket :: int
  tr_sethwaddr :: int
  tr_setflags :: int
  tr_setmtu :: int

definition open_tun :: "tun_results \<Rightarrow> u8 list \<Rightarrow> ether_addr \<Rightarrow> int \<times> u8 list \<times> closed list" where
  "open_tun tr dev self =
     (let fd = tr_open tr; s = tr_socket tr in
      if fd < 0 then (fd, dev, []) else
      let (err, ifr_name) = tr_setiff tr (take IFNAMSIZ dev) in
      if err < 0 then (err, dev, [Close fd]) else
      let dev = ifr_name in
      if tr_nonblock tr < 0 then (tr_nonblock tr, dev, [Close fd])
      else if tr_sethwaddr tr < 0 then (tr_sethwaddr tr, dev, [Close fd])
      else if tr_setflags tr < 0 then (tr_setflags tr, dev, [Close fd])
      else if tr_setmtu tr < 0 then (tr_setmtu tr, dev, [Close fd])
      else (fd, dev, [Close s]))"

section \<open>Initialisation\<close>

text \<open>The answers of the kernel to the requests of netutils.c, by interface.\<close>

record link_results =
  lr_nametoindex :: "u8 list \<Rightarrow> int"
  lr_link_down :: "int \<Rightarrow> int"
  lr_monitor :: "int \<Rightarrow> int"
  lr_link_up :: "int \<Rightarrow> int"
  lr_ether_addr :: "u8 list \<Rightarrow> int \<times> ether_addr"

definition io_state_init_wlan_try_savefile :: "pcap_results \<Rightarrow> io_state \<Rightarrow> int \<times> io_state" where
  "io_state_init_wlan_try_savefile pr state =
     (let (fd, handle) = open_savefile pr (wlan_ifname state);
          state = state\<lparr>wlan_fd := fd,
            wlan_handle := (case handle of None \<Rightarrow> wlan_handle state | Some h \<Rightarrow> Some h)\<rparr>
      in if fd < 0 then (fd, state)
         else (0, state\<lparr>wlan_is_file := True, wlan_ifindex := 0\<rparr>))"

text \<open>\<open>None\<close>: the name does not fit the array it is copied to.\<close>

definition io_state_init_wlan ::
  "pcap_results \<Rightarrow> link_results \<Rightarrow> io_state \<Rightarrow> u8 list \<Rightarrow> ether_addr \<Rightarrow> (int \<times> io_state \<times> closed list) option" where
  "io_state_init_wlan pr lr state wlan bssid_filter =
     (if PATH_MAX \<le> length wlan then None else Some (
      let state = state\<lparr>wlan_ifname := wlan, wlan_is_file := False\<rparr>;
          (err, state) = io_state_init_wlan_try_savefile pr state in
      if err = 0 then (0, state, []) else
      let state = state\<lparr>wlan_ifindex := lr_nametoindex lr (wlan_ifname state)\<rparr> in
      if wlan_ifindex state = 0 then (- ENOENT, state, []) else
      let err = lr_link_down lr (wlan_ifindex state) in
      if err < 0 then (err, state, []) else
      let err = (if \<not> wlan_no_monitor_mode state then lr_monitor lr (wlan_ifindex state) else err) in
      if err < 0 then (err, state, []) else
      let err = lr_link_up lr (wlan_ifindex state) in
      if err < 0 then (err, state, []) else
      let (fd, handle, cl) = open_nonblocking_device pr (wlan_ifname state) bssid_filter;
          state = state\<lparr>wlan_fd := fd,
            wlan_handle := (case handle of None \<Rightarrow> wlan_handle state | Some h \<Rightarrow> Some h)\<rparr> in
      if wlan_fd state < 0 then (err, state, cl) else
      let (err, addr) = lr_ether_addr lr (wlan_ifname state) in
      if err < 0 then (err, state, cl) else (0, state\<lparr>if_ether_addr := addr\<rparr>, cl)))"

definition io_state_init_host ::
  "tun_results \<Rightarrow> link_results \<Rightarrow> io_state \<Rightarrow> u8 list \<Rightarrow> (int \<times> io_state \<times> closed list) option" where
  "io_state_init_host tr lr state host =
     (if length host > 0 then
        (if IFNAMSIZ \<le> length host then None else Some (
         let state = state\<lparr>host_ifname := host\<rparr>;
             (fd, name, cl) = open_tun tr (host_ifname state) (if_ether_addr state);
             state = state\<lparr>host_fd := fd, host_ifname := name\<rparr> in
         if fd < 0 then (fd, state, cl) else
         let state = state\<lparr>host_ifindex := lr_nametoindex lr (host_ifname state)\<rparr> in
         if host_ifindex state = 0 then (- ENOENT, state, cl) else (0, state, cl)))
      else Some (0, state, []))"

definition io_state_init ::
  "pcap_results \<Rightarrow> tun_results \<Rightarrow> link_results \<Rightarrow> io_state \<Rightarrow> u8 list \<Rightarrow> u8 list \<Rightarrow> ether_addr \<Rightarrow>
    (int \<times> io_state \<times> closed list) option" where
  "io_state_init pr tr lr state wlan host bssid_filter =
     (case io_state_init_wlan pr lr state wlan bssid_filter of
        None \<Rightarrow> None
      | Some (err, state, cl) \<Rightarrow>
          if err \<noteq> 0 then Some (err, state, cl) else
          case io_state_init_host tr lr state host of
            None \<Rightarrow> None
          | Some (err, state, cl') \<Rightarrow>
              if err \<noteq> 0 then Some (err, state, cl @ cl') else Some (0, state, cl @ cl'))"

definition io_state_free :: "io_state \<Rightarrow> closed list" where
  "io_state_free state = [Close (host_fd state), Pcap_Close]"

section \<open>Sending and receiving\<close>

text \<open>Each function returns its result and the bytes handed to the interface, if any.
  \<open>inject\<close> is the result of \<open>pcap_inject\<close>, \<open>written\<close> that of \<open>write\<close>, with its error
  number.\<close>

definition wlan_send :: "int \<Rightarrow> io_state \<Rightarrow> u8 list \<Rightarrow> int \<times> u8 list option" where
  "wlan_send inject state buf =
     (if wlan_handle state = None then (- EINVAL, None)
      else if inject < 0 then (inject, Some buf) else (0, Some buf))"

definition host_send :: "int \<times> int \<Rightarrow> io_state \<Rightarrow> u8 list \<Rightarrow> int \<times> u8 list option" where
  "host_send written state buf =
     (if host_fd state = 0 then (- EINVAL, None)
      else if fst written < 0 then (- snd written, Some buf) else (0, Some buf))"

text \<open>What \<open>read\<close> does when asked for \<open>n\<close> bytes: an error number, or the bytes read.\<close>

datatype read_result = Read_Error int | Read_Bytes "u8 list"

text \<open>The result, the bytes stored at \<open>buf\<close> and the new length.\<close>

definition host_recv :: "read_result \<Rightarrow> io_state \<Rightarrow> int \<Rightarrow> int \<times> u8 list \<times> int" where
  "host_recv rd state len =
     (if host_fd state = 0 then (- EINVAL, [], len)
      else case rd of
        Read_Error errno \<Rightarrow> (- errno, [], len)
      | Read_Bytes bs \<Rightarrow> (0, bs, int (length bs)))"

text \<open>The documented behaviour of \<open>read\<close>: never more bytes than asked for, positive error
  numbers.\<close>

fun read_ok :: "int \<Rightarrow> read_result \<Rightarrow> bool" where
  "read_ok n (Read_Error errno) = (0 < errno)"
| "read_ok n (Read_Bytes bs) = (int (length bs) \<le> n)"

section \<open>Link-local addresses\<close>

definition rfc4291_addr :: "ether_addr \<Rightarrow> u8 list" where
  "rfc4291_addr eth =
     (let o8 = octets eth;
          in6 = replicate 16 (0 :: u8);
          in6 = in6[0 := 0xfe, 1 := 0x80];
          in6 = in6[8 := (o8 ! 0) XOR 0x02, 9 := o8 ! 1, 10 := o8 ! 2, 11 := 0xff, 12 := 0xfe];
          in6 = in6[13 := o8 ! 3, 14 := o8 ! 4, 15 := o8 ! 5]
      in in6)"

text \<open>The entry passed to the kernel: interface, link-layer address and IPv6 address.\<close>

datatype neighbor_request =
    Neighbor_Add int ether_addr "u8 list"
  | Neighbor_Remove int "u8 list"

definition neighbor_add_rfc4291 :: "int \<Rightarrow> ether_addr \<Rightarrow> neighbor_request" where
  "neighbor_add_rfc4291 ifindex addr = Neighbor_Add ifindex addr (rfc4291_addr addr)"

definition neighbor_remove_rfc4291 :: "int \<Rightarrow> ether_addr \<Rightarrow> neighbor_request" where
  "neighbor_remove_rfc4291 ifindex addr = Neighbor_Remove ifindex (rfc4291_addr addr)"

definition get_hostname :: "int \<times> int \<Rightarrow> int" where
  "get_hostname res = (if fst res < 0 then - snd res else 0)"

section \<open>Properties\<close>

lemma xor_two_twice: "(x XOR 2) XOR 2 = (x :: u8)"
  by (simp add: xor.assoc)

text \<open>Reading the link-layer address back out of the identifier.\<close>

definition rfc4291_octets :: "u8 list \<Rightarrow> u8 list" where
  "rfc4291_octets in6 = [in6 ! 8 XOR 2, in6 ! 9, in6 ! 10, in6 ! 13, in6 ! 14, in6 ! 15]"

text \<open>The address given to a neighbour is link-local (fe80::/64) with the modified EUI-64
  identifier, and the link-layer address can be read back from it: two different peers never
  get the same entry, so removing one never removes another.\<close>

theorem rfc4291_roundtrip:
  "length (rfc4291_addr eth) = 16 \<and> take 8 (rfc4291_addr eth) = [0xfe, 0x80, 0, 0, 0, 0, 0, 0] \<and>
   slice (rfc4291_addr eth) 11 2 = [0xff, 0xfe] \<and>
   ether_of (rfc4291_octets (rfc4291_addr eth)) = eth"
  by (cases eth)
    (simp add: rfc4291_addr_def rfc4291_octets_def slice_def numeral_eq_Suc xor_two_twice [unfolded numeral_eq_Suc])

lemma device_ok:
  assumes "open_nonblocking_device pr dev b = (fd, handle, cl)"
  shows "handle = (if fd = -1 then None else Some (Live dev))" and "fd \<noteq> -1 \<Longrightarrow> fd = pr_fd pr"
  using assms by (auto simp: open_nonblocking_device_def split: if_splits)

text \<open>A system to instantiate lemmas with: everything succeeds, except what is changed.\<close>

definition sample_pcap :: pcap_results where
  "sample_pcap = \<lparr>pr_create = True, pr_activate = 0, pr_setnonblock = 0, pr_datalink = 127,
     pr_compile = 0, pr_setfilter = 0, pr_fd = 5, pr_offline = False, pr_offline_fd = -1\<rparr>"

definition sample_tun :: tun_results where
  "sample_tun = \<lparr>tr_open = 6, tr_setiff = (\<lambda>name. (0, name)), tr_nonblock = 0, tr_socket = 7,
     tr_sethwaddr = 0, tr_setflags = 0, tr_setmtu = 0\<rparr>"

definition sample_link :: link_results where
  "sample_link = \<lparr>lr_nametoindex = (\<lambda>_. 3), lr_link_down = (\<lambda>_. 0), lr_monitor = (\<lambda>_. 0),
     lr_link_up = (\<lambda>_. 0), lr_ether_addr = (\<lambda>_. (0, EtherAddr 2 0 0 0 0 1))\<rparr>"

definition sample_io :: io_state where
  "sample_io = \<lparr>wlan_handle = Some (Live [119]), wlan_ifname = [119], wlan_ifindex = 3, host_ifname = [104],
     host_ifindex = 3, if_ether_addr = EtherAddr 2 0 0 0 0 1, wlan_fd = 5, host_fd = 6,
     dumpfile = None, wlan_no_monitor_mode = False, wlan_is_file = False\<rparr>"

text \<open>An initialisation that reports success has opened a capture file, or a live device
  of the given name with its link-layer address, provided the library's calls to open the
  device did not fail; and with a host name, also the host interface, with a valid index.\<close>

theorem io_init_success:
  assumes "io_state_init pr tr lr st wlan host b = Some (0, st', cl)"
    and "0 \<le> fst (open_nonblocking_device pr wlan b)"
  shows "(wlan_is_file st' \<and> wlan_handle st' = Some (Savefile wlan) \<or>
     \<not> wlan_is_file st' \<and> wlan_handle st' = Some (Live wlan) \<and> wlan_ifindex st' \<noteq> 0 \<and>
       wlan_fd st' = pr_fd pr \<and> if_ether_addr st' = snd (lr_ether_addr lr wlan)) \<and>
    (host \<noteq> [] \<longrightarrow> 0 \<le> host_fd st' \<and> host_ifindex st' \<noteq> 0 \<and>
       host_ifindex st' = lr_nametoindex lr (host_ifname st'))"
proof -
  obtain st1 cl1 cl2 where w: "io_state_init_wlan pr lr st wlan b = Some (0, st1, cl1)"
    and h: "io_state_init_host tr lr st1 host = Some (0, st', cl2)"
    using assms(1) by (auto simp: io_state_init_def split: option.splits if_splits)
  obtain fd handle cl3 where dev: "open_nonblocking_device pr wlan b = (fd, handle, cl3)" by (metis prod_cases3)
  with assms(2) have fd: "0 \<le> fd" by simp
  have "wlan_is_file st1 \<and> wlan_handle st1 = Some (Savefile wlan) \<or>
     \<not> wlan_is_file st1 \<and> wlan_handle st1 = Some (Live wlan) \<and> wlan_ifindex st1 \<noteq> 0 \<and>
       wlan_fd st1 = pr_fd pr \<and> if_ether_addr st1 = snd (lr_ether_addr lr wlan)"
    using w fd device_ok [OF dev]
    by (auto simp: io_state_init_wlan_def io_state_init_wlan_try_savefile_def open_savefile_def dev Let_def
        split: prod.splits if_splits)
  moreover have "wlan_is_file st' = wlan_is_file st1 \<and> wlan_handle st' = wlan_handle st1 \<and>
      wlan_ifindex st' = wlan_ifindex st1 \<and> wlan_fd st' = wlan_fd st1 \<and> if_ether_addr st' = if_ether_addr st1"
    and "host \<noteq> [] \<longrightarrow> 0 \<le> host_fd st' \<and> host_ifindex st' \<noteq> 0 \<and> host_ifindex st' = lr_nametoindex lr (host_ifname st')"
    using h by (auto simp: io_state_init_host_def Let_def split: prod.splits if_splits)
  ultimately show ?thesis by auto
qed

theorem io_init_success_witness:
  "map_option (\<lambda>(r, st, cl). (r, wlan_handle st, host_fd st))
     (io_state_init sample_pcap sample_tun sample_link sample_io [119] [104] (EtherAddr 0 0 0 0 0 0))
   = Some (0, Some (Live [119]), 6) \<and>
   (\<exists>st cl. io_state_init sample_pcap sample_tun sample_link sample_io [119] [104] (EtherAddr 0 0 0 0 0 0) =
     Some (0, st, cl) \<and> wlan_handle st = Some (Live [119]))"
proof -
  let ?io = "io_state_init sample_pcap sample_tun sample_link sample_io [119] [104] (EtherAddr 0 0 0 0 0 0)"
  note defs = io_state_init_def io_state_init_wlan_def io_state_init_wlan_try_savefile_def open_savefile_def
    io_state_init_host_def open_tun_def open_nonblocking_device_def sample_pcap_def sample_tun_def
    sample_link_def sample_io_def
  obtain st cl where run: "?io = Some (0, st, cl)" by (simp add: defs)
  have "0 \<le> fst (open_nonblocking_device sample_pcap [119] (EtherAddr 0 0 0 0 0 0))" by (simp add: defs)
  from io_init_success [OF run this] have "wlan_handle st = Some (Live [119])"
    using run by (auto simp: defs)
  then show ?thesis using run by (auto simp: defs)
qed

text \<open>When opening the capture device fails although the link came up, the initialisation
  returns the (zero) result of the request before: the caller sees success, while no capture
  handle has been stored and the node's link-layer address was never read.\<close>

theorem io_init_ignores_open_failure:
  assumes "length wlan < PATH_MAX" and "fst (open_savefile pr wlan) = -1" and "lr_nametoindex lr wlan \<noteq> 0"
    and "0 \<le> lr_link_down lr (lr_nametoindex lr wlan)" and "0 \<le> lr_monitor lr (lr_nametoindex lr wlan)"
    and "lr_link_up lr (lr_nametoindex lr wlan) = 0" and "fst (open_nonblocking_device pr wlan b) = -1"
  shows "\<exists>st' cl. io_state_init pr tr lr st wlan [] b = Some (0, st', cl) \<and> wlan_fd st' = -1 \<and>
    wlan_handle st' = wlan_handle st \<and> if_ether_addr st' = if_ether_addr st"
proof -
  obtain handle cl3 where dev: "open_nonblocking_device pr wlan b = (-1, handle, cl3)"
    using assms(7) by (cases "open_nonblocking_device pr wlan b") auto
  obtain fd handle' where save: "open_savefile pr wlan = (fd, handle')" "fd = -1"
    using assms(2) by (cases "open_savefile pr wlan") auto
  then have "handle' = None" by (auto simp: open_savefile_def split: if_splits)
  with dev save device_ok [OF dev] show ?thesis
    using assms
    by (simp add: io_state_init_def io_state_init_wlan_def io_state_init_wlan_try_savefile_def
        io_state_init_host_def Let_def)
qed

theorem io_init_ignores_open_failure_witness:
  "\<exists>st' cl. io_state_init (sample_pcap\<lparr>pr_activate := -8\<rparr>) sample_tun sample_link
     (sample_io\<lparr>wlan_handle := None\<rparr>) [119] [] (EtherAddr 0 0 0 0 0 0) = Some (0, st', cl) \<and>
     wlan_handle st' = None"
  using io_init_ignores_open_failure [of "[119]" "sample_pcap\<lparr>pr_activate := -8\<rparr>" sample_link
      "EtherAddr 0 0 0 0 0 0" sample_tun "sample_io\<lparr>wlan_handle := None\<rparr>"]
  by (auto simp: sample_pcap_def sample_link_def open_savefile_def open_nonblocking_device_def)

end
