(* ===== verification/Core.thy ===== *)
theory Core
  imports Io Tx Rx Election Schedule Circular_Buffer
begin

text \<open>
  core.c: the state of the daemon and the handlers of the event loop. A handler maps the state
  to the new state and the list of its effects, in order: what it hands to the interfaces and
  the kernel, and which timers and watchers of libev it arms. \<open>None\<close> stands for what C leaves
  undefined: an overflow of the clock, of the array of sixteen delivered frames, or of the
  array of the service name. The results of the environment are the record \<open>core_env\<close>.
\<close>

section \<open>State, effects and environment\<close>

record daemon_state =
  d_io :: io_state
  d_p2p :: apple_p2p_state
  d_80211 :: ieee80211_state
  d_next :: "buf option"
  d_queue :: "buf circular_buf"
  d_dump :: "u8 list option"

text \<open>The timers and watchers of \<open>struct ev_state\<close>.\<close>

datatype timer = Mif_Timer | Psf_Timer | Tx_Timer | Tx_Mcast_Timer | Chan_Timer | Peer_Timer
datatype watcher = Read_Wlan | Read_Host | Stats

datatype effect =
    Host_Write "u8 list"
  | Inject "u8 list"
  | Dump_Frame "u8 list" "u8 list"
  | Neighbor neighbor_request
  | Query_Channel int u8
  | Set_Channel int u8
  | Timer_Rearm timer rat
  | Timer_Init timer rat rat
  | Timer_Start timer
  | Timer_Again timer
  | Watch watcher
  | Feed_Event watcher

text \<open>
  The successive readings of the clock, the results of \<open>pcap_inject\<close>, \<open>write\<close> and \<open>read\<close>, the
  bytes of the arrays on the stack and of the \<open>k\<close>-th allocated buffer, and what the reception
  depends on.
\<close>

record core_env =
  ce_clock :: "nat \<Rightarrow> (int \<times> int) option"
  ce_inject :: int
  ce_written :: "nat \<Rightarrow> int \<times> int"
  ce_stack :: "u8 list"
  ce_read :: "nat \<Rightarrow> read_result"
  ce_heap :: "nat \<Rightarrow> nat \<Rightarrow> u8"
  ce_rx :: rx_env

abbreviation ETHER_LENGTH :: int where "ETHER_LENGTH \<equiv> 14"
abbreviation ETHER_DST_OFFSET :: int where "ETHER_DST_OFFSET \<equiv> 0"
abbreviation ETHER_SRC_OFFSET :: int where "ETHER_SRC_OFFSET \<equiv> 6"
abbreviation ETHER_ETHERTYPE_OFFSET :: int where "ETHER_ETHERTYPE_OFFSET \<equiv> 12"
abbreviation POLL_NEW_UNICAST :: u32 where "POLL_NEW_UNICAST \<equiv> 1"
abbreviation POLL_NEW_MULTICAST :: u32 where "POLL_NEW_MULTICAST \<equiv> 2"
abbreviation MAX_NUM_AMPDU :: nat where "MAX_NUM_AMPDU \<equiv> 16"
abbreviation TX_OK :: int where "TX_OK \<equiv> 0"
abbreviation TX_FAIL :: int where "TX_FAIL \<equiv> -1"

definition ev_timer_rearm :: "timer \<Rightarrow> rat \<Rightarrow> effect list" where
  "ev_timer_rearm timer delay = [Timer_Rearm timer delay]"

definition dump_frame :: "u8 list option \<Rightarrow> u8 list \<Rightarrow> effect list" where
  "dump_frame dump_file bytes = (case dump_file of None \<Rightarrow> [] | Some f \<Rightarrow> [Dump_Frame f bytes])"

text \<open>Handing a buffer to the host; no caller looks at the result.\<close>

definition host_out :: "int \<times> int \<Rightarrow> io_state \<Rightarrow> buf \<Rightarrow> effect list" where
  "host_out written io b =
     (case snd (host_send written io (take (nat (buf_len b)) (buf_data b))) of
        None \<Rightarrow> [] | Some bs \<Rightarrow> [Host_Write bs])"

section \<open>Reading from the host\<close>

partial_function (option) poll_loop ::
  "core_env \<Rightarrow> nat \<Rightarrow> u32 \<Rightarrow> daemon_state \<Rightarrow> (u32 \<times> daemon_state) option" where
  "poll_loop env k result state =
     (if d_next state = None \<and> \<not> circular_buf_full (d_queue state) then
        (case buf_new_owned (ce_heap env k) ETHER_MAX_LEN of
           None \<Rightarrow> None
         | Some buf \<Rightarrow>
             (case host_recv (ce_read env k) (d_io state) (buf_len buf) of (err, bytes, len) \<Rightarrow>
                if err < 0 then Some (result, state)
                else (case snd (buf_take (store buf 0 bytes) (buf_len buf - len)) of frame \<Rightarrow>
                  (case read_ether_addr frame ETHER_DST_OFFSET of
                     Inl _ \<Rightarrow> Some (result, state)
                   | Inr (_, dst) \<Rightarrow>
                       if octets dst ! 0 AND 0x01 \<noteq> 0 then
                         poll_loop env (Suc k) (result OR POLL_NEW_MULTICAST)
                           (state\<lparr>d_queue := circular_buf_put (d_queue state) frame\<rparr>)
                       else
                         poll_loop env (Suc k) (result OR POLL_NEW_UNICAST)
                           (state\<lparr>d_next := Some frame\<rparr>)))))
      else Some (result, state))"

definition poll_host_device :: "core_env \<Rightarrow> daemon_state \<Rightarrow> (u32 \<times> daemon_state) option" where
  "poll_host_device env state = poll_loop env 0 0 state"

section \<open>Sending\<close>

definition apple_p2p_send_data ::
  "core_env \<Rightarrow> (int \<times> int) option \<Rightarrow> buf \<Rightarrow> io_state \<Rightarrow> apple_p2p_state \<Rightarrow> ieee80211_state \<Rightarrow>
    (int \<times> apple_p2p_state \<times> ieee80211_state \<times> effect list) option" where
  "apple_p2p_send_data env clk buf io p2p ieee80211 =
     CHECKED_READ (read_be16 buf ETHER_ETHERTYPE_OFFSET) (Some (TX_FAIL, p2p, ieee80211, [])) (\<lambda>ethertype.
     CHECKED_READ (read_ether_addr buf ETHER_DST_OFFSET) (Some (TX_FAIL, p2p, ieee80211, [])) (\<lambda>dst.
     CHECKED_READ (read_ether_addr buf ETHER_SRC_OFFSET) (Some (TX_FAIL, p2p, ieee80211, [])) (\<lambda>src.
     let buf = snd (buf_strip buf ETHER_LENGTH) in
     do {
       (data_len, data, p2p, ieee80211) \<leftarrow> apple_p2p_init_full_data_frame (ce_stack env) 0 src dst
          (buf_data buf) (nat (buf_len buf)) p2p ieee80211;
       now \<leftarrow> clock_time_us clk;
       let p2p = p2p\<lparr>s_stats := (s_stats p2p)\<lparr>st_tx_data := st_tx_data (s_stats p2p) + 1\<rparr>\<rparr>;
       let (err, sent) = wlan_send (ce_inject env) io (take data_len data);
       let effects = (case sent of None \<Rightarrow> [] | Some bs \<Rightarrow> [Inject bs]);
       Some (if err < 0 then TX_FAIL else TX_OK, p2p, ieee80211, effects)
     })))"

text \<open>\<open>clk1\<close> and \<open>clk2\<close> are read while the frame is built.\<close>

definition apple_p2p_send_action ::
  "core_env \<Rightarrow> (int \<times> int) option \<Rightarrow> (int \<times> int) option \<Rightarrow> daemon_state \<Rightarrow> u8 \<Rightarrow>
    (daemon_state \<times> effect list) option" where
  "apple_p2p_send_action env clk1 clk2 state type =
     do {
       (len, buf, ieee80211) \<leftarrow> apple_p2p_init_full_action_frame clk1 clk2 (ce_stack env) 0
          (d_p2p state) (d_80211 state) type;
       let state = state\<lparr>d_80211 := ieee80211\<rparr>;
       let (err, sent) = wlan_send (ce_inject env) (d_io state) (take len buf);
       let p2p = d_p2p state;
       let p2p = p2p\<lparr>s_stats := (s_stats p2p)\<lparr>st_tx_action := st_tx_action (s_stats p2p) + 1\<rparr>\<rparr>;
       Some (state\<lparr>d_p2p := p2p\<rparr>, case sent of None \<Rightarrow> [] | Some bs \<Rightarrow> [Inject bs])
     }"

definition apple_p2p_send_psf :: "core_env \<Rightarrow> daemon_state \<Rightarrow> (daemon_state \<times> effect list) option" where
  "apple_p2p_send_psf env state =
     apple_p2p_send_action env (ce_clock env 0) (ce_clock env 1) state APPLE_P2P_ACTION_PSF"

definition apple_p2p_send_mif :: "core_env \<Rightarrow> daemon_state \<Rightarrow> (daemon_state \<times> effect list) option" where
  "apple_p2p_send_mif env state =
     do {
       now \<leftarrow> clock_time_us (ce_clock env 0);
       let sync = s_sync (d_p2p state);
       let next_aw = apple_p2p_sync_next_aw_us now sync;
       let eaw_len = (word_of_int (eaw_period_int sync) :: u64);
       let channel = s_channel (d_p2p state);
       (state, effects) \<leftarrow>
         (if apple_p2p_chan_num (ch_current channel) (ch_enc channel) > 0
          then apple_p2p_send_action env (ce_clock env 1) (ce_clock env 2) state APPLE_P2P_ACTION_MIF
          else Some (state, []));
       Some (state, effects @ ev_timer_rearm Mif_Timer
         (usec_to_sec (next_aw + ucast (ieee80211_tu_to_usec (ucast (eaw_len div 2))))))
     }"

definition apple_p2p_send_unicast :: "core_env \<Rightarrow> daemon_state \<Rightarrow> (daemon_state \<times> effect list) option" where
  "apple_p2p_send_unicast env state =
     do {
       now \<leftarrow> clock_time_us (ce_clock env 0);
       (state, delay, effects) \<leftarrow>
         (case d_next state of
            None \<Rightarrow> Some (state, 0, [])
          | Some next \<Rightarrow>
              (case read_ether_addr next ETHER_DST_OFFSET of
                 Inl _ \<Rightarrow> None
               | Inr (_, dst) \<Rightarrow>
                   if compare_ether_addr dst (s_self_address (d_p2p state)) = 0 then
                     Some (state\<lparr>d_next := None\<rparr>, 0, host_out (ce_written env 0) (d_io state) next)
                   else
                     (case apple_p2p_peer_get (ps_peers (s_peers (d_p2p state))) dst of
                        (status, peer) \<Rightarrow>
                          if peers_status_code status < 0 then Some (state\<lparr>d_next := None\<rparr>, 0, [])
                          else (case peer of
                            None \<Rightarrow> None
                          | Some peer \<Rightarrow>
                              let delay = apple_p2p_can_send_unicast_in (d_p2p state) peer now
                                    APPLE_P2P_UNICAST_GUARD_TU in
                              if delay = 0 then
                                do {
                                  (_, p2p, ieee80211, effects) \<leftarrow> apple_p2p_send_data env (ce_clock env 1)
                                     next (d_io state) (d_p2p state) (d_80211 state);
                                  let p2p = p2p\<lparr>s_stats := (s_stats p2p)
                                     \<lparr>st_tx_data_unicast := st_tx_data_unicast (s_stats p2p) + 1\<rparr>\<rparr>;
                                  Some (state\<lparr>d_p2p := p2p, d_80211 := ieee80211, d_next := None\<rparr>,
                                    delay, effects)
                                }
                              else if delay < 0 then
                                Some (state, - delay + usec_to_sec (ucast (ieee80211_tu_to_usec
                                  (word_of_int APPLE_P2P_UNICAST_GUARD_TU))), [])
                              else Some (state, delay, [])))));
       Some (state, effects @
         (if d_next state \<noteq> None then ev_timer_rearm Tx_Timer delay else [Feed_Event Read_Host]))
     }"

definition apple_p2p_send_multicast :: "core_env \<Rightarrow> daemon_state \<Rightarrow> (daemon_state \<times> effect list) option" where
  "apple_p2p_send_multicast env state =
     do {
       now \<leftarrow> clock_time_us (ce_clock env 0);
       (state, delay, effects) \<leftarrow>
         (if \<not> circular_buf_empty (d_queue state) then
            let delay = apple_p2p_can_send_in (d_p2p state) now APPLE_P2P_MULTICAST_GUARD_TU in
            if apple_p2p_is_multicast_eaw (d_p2p state) now \<and> delay = 0 then
              (case circular_buf_get (d_queue state) False of
                 (_, None, _) \<Rightarrow> None
               | (_, Some next, queue) \<Rightarrow>
                   do {
                     (_, p2p, ieee80211, effects) \<leftarrow> apple_p2p_send_data env (ce_clock env 1)
                        next (d_io state) (d_p2p state) (d_80211 state);
                     let p2p = p2p\<lparr>s_stats := (s_stats p2p)
                        \<lparr>st_tx_data_multicast := st_tx_data_multicast (s_stats p2p) + 1\<rparr>\<rparr>;
                     Some (state\<lparr>d_p2p := p2p, d_80211 := ieee80211, d_queue := queue\<rparr>, delay, effects)
                   })
            else if delay = 0 then Some (state, usec_to_sec (ucast (ieee80211_tu_to_usec 64)), [])
            else if delay < 0 then
              Some (state, - delay + usec_to_sec (ucast (ieee80211_tu_to_usec
                (word_of_int APPLE_P2P_MULTICAST_GUARD_TU))), [])
            else Some (state, delay, [])
          else Some (state, 0, []));
       Some (state, effects @
         (if \<not> circular_buf_empty (d_queue state) then ev_timer_rearm Tx_Mcast_Timer delay
          else [Feed_Event Read_Host]))
     }"

text \<open>The three calls have environments of their own.\<close>

definition host_device_ready ::
  "core_env \<Rightarrow> core_env \<Rightarrow> core_env \<Rightarrow> daemon_state \<Rightarrow> (daemon_state \<times> effect list) option" where
  "host_device_ready env env_multicast env_unicast state =
     do {
       (poll_result, state) \<leftarrow> poll_host_device env state;
       (state, effects1) \<leftarrow> (if poll_result AND POLL_NEW_MULTICAST \<noteq> 0
          then apple_p2p_send_multicast env_multicast state else Some (state, []));
       (state, effects2) \<leftarrow> (if poll_result AND POLL_NEW_UNICAST \<noteq> 0
          then apple_p2p_send_unicast env_unicast state else Some (state, []));
       Some (state, effects1 @ effects2)
     }"

section \<open>Receiving\<close>

definition apple_p2p_neighbor_add :: "io_state \<Rightarrow> apple_p2p_peer \<Rightarrow> effect" where
  "apple_p2p_neighbor_add io p = Neighbor (neighbor_add_rfc4291 (host_ifindex io) (p_addr p))"

definition apple_p2p_neighbor_remove :: "io_state \<Rightarrow> apple_p2p_peer \<Rightarrow> effect" where
  "apple_p2p_neighbor_remove io p = Neighbor (neighbor_remove_rfc4291 (host_ifindex io) (p_addr p))"

text \<open>The callbacks run during the reception; no callback for records is ever installed.\<close>

definition callback_effects :: "io_state \<Rightarrow> rx_event list \<Rightarrow> effect list" where
  "callback_effects io evs =
     concat (map (\<lambda>ev. case ev of Peer_Added p \<Rightarrow> [apple_p2p_neighbor_add io p] | Tlv_Seen _ _ _ \<Rightarrow> []) evs)"

fun send_all :: "core_env \<Rightarrow> io_state \<Rightarrow> nat \<Rightarrow> buf list \<Rightarrow> effect list" where
  "send_all env io k [] = []"
| "send_all env io k (b # bs) = host_out (ce_written env k) io b @ send_all env io (Suc k) bs"

text \<open>\<open>bytes\<close> are the captured bytes of the packet.\<close>

definition apple_p2p_receive_frame ::
  "core_env \<Rightarrow> u8 list \<Rightarrow> daemon_state \<Rightarrow> (daemon_state \<times> effect list) option" where
  "apple_p2p_receive_frame env bytes state =
     do {
       frame \<leftarrow> buf_new_const bytes (int (length bytes));
       (result, data, p2p, evs) \<leftarrow> apple_p2p_rx (ce_rx env) frame [] (d_p2p state);
       let callbacks = callback_effects (d_io state) evs;
       (if MAX_NUM_AMPDU < length data then None
        else if result = RX_OK then
          Some (state\<lparr>d_p2p := p2p\<rparr>, callbacks @ send_all env (d_io state) 0 data)
        else if result < RX_OK then
          let p2p = p2p\<lparr>s_stats := (s_stats p2p)\<lparr>st_rx_unknown := st_rx_unknown (s_stats p2p) + 1\<rparr>\<rparr>
          in Some (state\<lparr>d_p2p := p2p\<rparr>, callbacks @ dump_frame (d_dump state) bytes)
        else Some (state\<lparr>d_p2p := p2p\<rparr>, callbacks))
     }"

text \<open>\<open>packet\<close> is what \<open>pcap_dispatch\<close> finds: nothing (a result of 0 or an error), or one
  packet, for which it calls the handler above.\<close>

definition wlan_device_ready ::
  "core_env \<Rightarrow> u8 list option \<Rightarrow> daemon_state \<Rightarrow> (daemon_state \<times> effect list) option" where
  "wlan_device_ready env packet state =
     (case packet of
        None \<Rightarrow> Some (state, [])
      | Some bytes \<Rightarrow> do {
          (state, effects) \<leftarrow> apple_p2p_receive_frame env bytes state;
          Some (state, effects @ [Feed_Event Read_Wlan])
        })"

section \<open>Housekeeping\<close>

definition apple_p2p_switch_channel :: "core_env \<Rightarrow> daemon_state \<Rightarrow> (daemon_state \<times> effect list) option" where
  "apple_p2p_switch_channel env state =
     do {
       let p2p = d_p2p state;
       let channel = s_channel p2p;
       let chan_num_old = apple_p2p_chan_num (ch_current channel) (ch_enc channel);
       now \<leftarrow> clock_time_us (ce_clock env 0);
       let slot = unat (apple_p2p_sync_current_eaw now (s_sync p2p)) mod APPLE_P2P_CHANSEQ_LENGTH;
       let chan_new = ch_sequence channel ! slot;
       let chan_num_new = apple_p2p_chan_num (ch_sequence channel ! slot) (ch_enc channel);
       let (state, effects) =
         (if chan_num_new \<noteq> 0 \<and> chan_num_new \<noteq> chan_num_old then
            (state\<lparr>d_p2p := p2p\<lparr>s_channel := channel\<lparr>ch_current := chan_new\<rparr>\<rparr>\<rparr>,
             if \<not> wlan_is_file (d_io state)
             then [Query_Channel (wlan_ifindex (d_io state)) chan_num_new,
                   Set_Channel (wlan_ifindex (d_io state)) chan_num_new]
             else [])
          else (state, []));
       let next_aw = apple_p2p_sync_next_aw_us now (s_sync p2p);
       Some (state, effects @ ev_timer_rearm Chan_Timer (usec_to_sec next_aw))
     }"

definition apple_p2p_clean_peers :: "core_env \<Rightarrow> daemon_state \<Rightarrow> (daemon_state \<times> effect list) option" where
  "apple_p2p_clean_peers env state =
     do {
       now \<leftarrow> clock_time_us (ce_clock env 0);
       let p2p = d_p2p state;
       let cutoff_time = now - ps_timeout (s_peers p2p);
       (peers, removed) \<leftarrow> apple_p2p_peers_remove (ps_peers (s_peers p2p)) cutoff_time (s_peer_remove_cb p2p);
       let p2p = p2p\<lparr>s_peers := (s_peers p2p)\<lparr>ps_peers := peers\<rparr>\<rparr>;
       (election, changed) \<leftarrow> apple_p2p_election_run (s_election p2p) (ps_peers (s_peers p2p));
       Some (state\<lparr>d_p2p := p2p\<lparr>s_election := election\<rparr>\<rparr>,
         map (apple_p2p_neighbor_remove (d_io state)) removed @ [Timer_Again Peer_Timer])
     }"

text \<open>The numbers that are logged.\<close>

definition apple_p2p_print_stats :: "daemon_state \<Rightarrow> u64 list" where
  "apple_p2p_print_stats state =
     (let stats = s_stats (d_p2p state)
      in [st_tx_action stats, st_tx_data stats, st_tx_data_unicast stats, st_tx_data_multicast stats,
          st_rx_action stats, st_rx_data stats, st_rx_unknown stats])"

section \<open>Start and end\<close>

text \<open>What the initialisation depends on: the results of \<open>netutils_init\<close>, of the interfaces and
  of \<open>gethostname\<close> (result, error number and name), allocation, and memory contents.\<close>

record init_env =
  ie_netutils :: int
  ie_pcap :: pcap_results
  ie_tun :: tun_results
  ie_link :: link_results
  ie_gethostname :: "int \<times> int"
  ie_hostname :: "u8 list"
  ie_clock :: "(int \<times> int) option"
  ie_calloc_ok :: "nat \<Rightarrow> bool"
  ie_ring :: "nat \<Rightarrow> buf"

definition apple_p2p_init ::
  "init_env \<Rightarrow> daemon_state \<Rightarrow> u8 list \<Rightarrow> u8 list \<Rightarrow> apple_p2p_chan \<Rightarrow> u8 list option \<Rightarrow>
    (int \<times> daemon_state) option" where
  "apple_p2p_init env state wlan host chan dump =
     (let err = ie_netutils env in
      if err < 0 then Some (err, state) else do {
        (err, io, _) \<leftarrow> io_state_init (ie_pcap env) (ie_tun env) (ie_link env) (d_io state) wlan host APPLE_P2P_BSSID;
        let state = state\<lparr>d_io := io\<rparr>;
        (if err < 0 then Some (err, state) else
           let err = get_hostname (ie_gethostname env) in
           if err < 0 then Some (err, state) else do {
             now \<leftarrow> clock_time_us (ie_clock env);
             p2p \<leftarrow> apple_p2p_init_state (ie_calloc_ok env) (d_p2p state) (ie_hostname env)
               (if_ether_addr (d_io state)) chan now;
             let p2p = p2p\<lparr>s_peer_cb := True, s_peer_remove_cb := True\<rparr>;
             queue \<leftarrow> circular_buf_init (ie_ring env) 16;
             Some (0, state\<lparr>d_p2p := p2p, d_80211 := ieee80211_init_state, d_next := None,
               d_queue := queue, d_dump := dump\<rparr>)
           })
      })"

definition apple_p2p_free :: "daemon_state \<Rightarrow> closed list" where
  "apple_p2p_free state = io_state_free (d_io state)"

definition apple_p2p_schedule :: "daemon_state \<Rightarrow> effect list" where
  "apple_p2p_schedule state =
     (let psf = usec_to_sec (ucast (ieee80211_tu_to_usec (ucast (s_psf_interval (d_p2p state)))))
      in [Timer_Init Chan_Timer 0 0, Timer_Start Chan_Timer,
          Timer_Init Peer_Timer 0 (usec_to_sec (ps_clean_interval (s_peers (d_p2p state)))),
          Timer_Again Peer_Timer,
          Watch Read_Wlan, Watch Read_Host,
          Timer_Init Psf_Timer psf psf, Timer_Start Psf_Timer,
          Timer_Init Mif_Timer 0 0, Timer_Start Mif_Timer,
          Timer_Init Tx_Timer 0 0, Timer_Start Tx_Timer,
          Timer_Init Tx_Mcast_Timer 0 0, Timer_Start Tx_Mcast_Timer,
          Watch Stats])"

end
