(* ===== verification/Core_Poll.thy ===== *)
theory Core_Poll
  imports Core
begin

text \<open>
  The loop that reads frames from the host interface: which frames it takes, that it ends, and
  that no frame is lost on the way to the queue.
\<close>

section \<open>Frames from the host\<close>

definition host_frame :: "buf \<Rightarrow> bool" where
  "host_frame b \<longleftrightarrow> wf_buf b \<and> 6 \<le> b_len b \<and> b_len b \<le> ETHER_MAX_LEN"

text \<open>The group bit of the destination address.\<close>

definition group_bytes :: "u8 list \<Rightarrow> bool" where
  "group_bytes bs \<longleftrightarrow> bs ! 0 AND 0x01 \<noteq> 0"

text \<open>The frame the \<open>k\<close>-th read delivers, if it delivers one.\<close>

definition host_bytes :: "core_env \<Rightarrow> io_state \<Rightarrow> nat \<Rightarrow> u8 list option" where
  "host_bytes env io k =
     (if host_fd io = 0 then None
      else case ce_read env k of Read_Error _ \<Rightarrow> None
        | Read_Bytes bs \<Rightarrow> if 6 \<le> length bs then Some bs else None)"

definition host_buf :: "core_env \<Rightarrow> nat \<Rightarrow> u8 list \<Rightarrow> buf" where
  "host_buf env k bs =
     snd (buf_take (store (the (buf_new_owned (ce_heap env k) ETHER_MAX_LEN)) 0 bs)
       (ETHER_MAX_LEN - int (length bs)))"

lemma host_buf_frame:
  assumes "length bs \<le> 1518"
  shows "wf_buf (host_buf env k bs)" and "buf_view (host_buf env k bs) = bs"
    and "b_len (host_buf env k bs) = int (length bs)"
proof -
  have e: "host_buf env k bs = \<lparr>b_orig = overwrite (map (ce_heap env k) [0..<1518]) 0 bs, b_data = 0,
      b_len = int (length bs), b_owned = True\<rparr>"
    using assms by (simp add: host_buf_def buf_new_owned_def store_def buf_take_def)
  show "wf_buf (host_buf env k bs)" and "b_len (host_buf env k bs) = int (length bs)"
    using assms by (simp_all add: e wf_buf_def)
  show "buf_view (host_buf env k bs) = bs"
    using assms by (simp add: e buf_view_def slice_overwrite_same)
qed

lemma read_dst:
  assumes "wf_buf b" and "6 \<le> b_len b"
  shows "read_ether_addr b 0 = Inr (6, ether_of (take 6 (buf_view b)))"
proof -
  have "6 \<le> length (buf_view b)" using assms b_len_view [OF assms(1)] by simp
  then show ?thesis using read_views(6) assms(1) by (simp add: slice_def)
qed

lemma octets_take: "6 \<le> length bs \<Longrightarrow> octets (ether_of (take 6 bs)) ! 0 = bs ! 0"
  by (simp add: octets_ether_of)

section \<open>One round\<close>

definition reads_ok :: "core_env \<Rightarrow> bool" where
  "reads_ok env \<longleftrightarrow> (\<forall>k. read_ok ETHER_MAX_LEN (ce_read env k))"

lemma host_bytes_length: "reads_ok env \<Longrightarrow> host_bytes env io k = Some bs \<Longrightarrow> 6 \<le> length bs \<and> length bs \<le> 1518"
proof (cases "ce_read env k")
  case (Read_Bytes xs)
  assume "reads_ok env" and "host_bytes env io k = Some bs"
  then show ?thesis
    using Read_Bytes spec [of "\<lambda>k. read_ok ETHER_MAX_LEN (ce_read env k)" k]
    by (auto simp: reads_ok_def host_bytes_def split: if_splits)
qed (auto simp: host_bytes_def split: if_splits)

lemma poll_loop_step:
  assumes "reads_ok env"
  shows "poll_loop env k result d =
    (if d_next d = None \<and> \<not> circular_buf_full (d_queue d) then
       (case host_bytes env (d_io d) k of
          None \<Rightarrow> Some (result, d)
        | Some bs \<Rightarrow>
            if group_bytes bs
            then poll_loop env (Suc k) (result OR POLL_NEW_MULTICAST)
              (d\<lparr>d_queue := circular_buf_put (d_queue d) (host_buf env k bs)\<rparr>)
            else poll_loop env (Suc k) (result OR POLL_NEW_UNICAST) (d\<lparr>d_next := Some (host_buf env k bs)\<rparr>))
     else Some (result, d))"
proof (cases "d_next d = None \<and> \<not> circular_buf_full (d_queue d)")
  case True
  obtain buf where new: "buf_new_owned (ce_heap env k) ETHER_MAX_LEN = Some buf"
    by (simp add: buf_new_owned_def)
  have len: "buf_len buf = 1518" using buf_new_owned_wf [OF new] by (simp add: buf_len_def)
  have ok: "read_ok ETHER_MAX_LEN (ce_read env k)" using assms by (simp add: reads_ok_def)
  show ?thesis
  proof (cases "ce_read env k")
    case (Read_Error errno)
    then show ?thesis
      using ok new by (subst poll_loop.simps) (simp add: host_recv_def host_bytes_def)
  next
    case (Read_Bytes bs)
    then have "length bs \<le> 1518" using ok by simp
    note f = host_buf_frame [OF this, of env k]
    have buf: "snd (buf_take (store buf 0 bs) (buf_len buf - int (length bs))) = host_buf env k bs"
      using new len by (simp add: host_buf_def)
    have short: "read_ether_addr (host_buf env k bs) 0 = Inl OUT_OF_BOUNDS" if "length bs < 6"
      using read_ether_addr_view [OF f(1), of 0] f(2) that by simp
    have dst: "read_ether_addr (host_buf env k bs) 0 = Inr (6, ether_of (take 6 bs))" if "6 \<le> length bs"
      using read_dst [OF f(1)] f(2,3) that by simp
    show ?thesis
      using True Read_Bytes new short dst octets_take [of bs]
      by (subst poll_loop.simps) (simp add: host_recv_def host_bytes_def buf group_bytes_def not_le)
  qed
next
  case False
  then show ?thesis unfolding poll_loop.simps [of env k result d] by (simp only: if_False)
qed

section \<open>The whole loop\<close>

definition queue_inv :: "buf circular_buf \<Rightarrow> bool" where
  "queue_inv q \<longleftrightarrow> ring_inv q \<and> max_size q = 16"

lemma queue_facts:
  assumes "queue_inv q"
  shows "queue_inv (circular_buf_put q b)" and "circular_buf_full q \<longleftrightarrow> length (ring_list q) = 16"
    and "circular_buf_empty q \<longleftrightarrow> ring_list q = []" and "length (ring_list q) \<le> 16"
    and "\<not> circular_buf_full q \<Longrightarrow> ring_list (circular_buf_put q b) = ring_list q @ [b]"
  using assms ring.put_invar [of q b] ring.full_iff [of q] ring.empty_iff [of q] ring.bound [of q]
    ring.put_contents [of q b]
  by (auto simp: queue_inv_def circular_buf_capacity_def)

text \<open>\<open>ms\<close> are the group frames taken, \<open>u\<close> is the unicast frame that ended the loop.\<close>

definition flags :: "bool \<Rightarrow> bool \<Rightarrow> u32" where
  "flags m u = (if m then POLL_NEW_MULTICAST else 0) OR (if u then POLL_NEW_UNICAST else 0)"

definition poll_result :: "core_env \<Rightarrow> nat \<Rightarrow> daemon_state \<Rightarrow> buf list \<Rightarrow> buf option \<Rightarrow> daemon_state \<Rightarrow> bool" where
  "poll_result env k d ms u d' \<longleftrightarrow>
     (let fs = ms @ (case u of None \<Rightarrow> [] | Some b \<Rightarrow> [b]) in
      map (Some \<circ> buf_view) fs = map (host_bytes env (d_io d)) [k..<k + length fs] \<and>
      list_all host_frame fs \<and> list_all (group_bytes \<circ> buf_view) ms \<and>
      (\<forall>b. u = Some b \<longrightarrow> d_next d = None \<and> \<not> group_bytes (buf_view b)) \<and>
      d' = d\<lparr>d_next := (if u = None then d_next d else u), d_queue := d_queue d'\<rparr> \<and>
      queue_inv (d_queue d') \<and> ring_list (d_queue d') = ring_list (d_queue d) @ ms \<and>
      (d_next d' \<noteq> None \<or> circular_buf_full (d_queue d') \<or> host_bytes env (d_io d) (k + length fs) = None))"

lemma poll_loop_spec:
  assumes "reads_ok env" and "queue_inv (d_queue d)"
  shows "\<exists>ms u d'. poll_loop env k result d = Some (result OR flags (ms \<noteq> []) (u \<noteq> None), d') \<and>
    poll_result env k d ms u d'"
  using assms(2)
proof (induction "16 - length (ring_list (d_queue d))" arbitrary: k result d rule: less_induct)
  case less
  have stop: ?case if "poll_loop env k result d = Some (result, d)"
    "d_next d \<noteq> None \<or> circular_buf_full (d_queue d) \<or> host_bytes env (d_io d) k = None"
    by (intro exI [of _ "[]"] exI [of _ None] exI [of _ d])
      (use that less.prems in \<open>simp add: poll_result_def flags_def\<close>)
  show ?case
  proof (cases "d_next d = None \<and> \<not> circular_buf_full (d_queue d)")
    case False
    then show ?thesis using stop poll_loop_step [OF assms(1), of k result d] by auto
  next
    case True
    show ?thesis
    proof (cases "host_bytes env (d_io d) k")
      case None
      then show ?thesis using stop poll_loop_step [OF assms(1), of k result d] True by auto
    next
      case (Some bs)
      note len = host_bytes_length [OF assms(1) Some]
      let ?b = "host_buf env k bs"
      have b: "host_frame ?b" "buf_view ?b = bs"
        using host_buf_frame [of bs env k] len by (simp_all add: host_frame_def)
      show ?thesis
      proof (cases "group_bytes bs")
        case True
        let ?q = "circular_buf_put (d_queue d) ?b"
        let ?d = "d\<lparr>d_queue := ?q\<rparr>"
        have q: "queue_inv ?q" "ring_list ?q = ring_list (d_queue d) @ [?b]"
          and room: "length (ring_list (d_queue d)) < 16"
          using queue_facts(1,5) [OF less.prems, of ?b] queue_facts(2,4) [OF less.prems]
            \<open>d_next d = None \<and> _\<close> by auto
        then have "16 - length (ring_list (d_queue ?d)) < 16 - length (ring_list (d_queue d))"
          and "queue_inv (d_queue ?d)"
          by (simp_all del: length_ring_list)
        from less.hyps [OF this, of "Suc k" "result OR POLL_NEW_MULTICAST"] obtain ms u d' where
          rec: "poll_loop env (Suc k) (result OR POLL_NEW_MULTICAST) ?d =
            Some ((result OR POLL_NEW_MULTICAST) OR flags (ms \<noteq> []) (u \<noteq> None), d')"
          and res: "poll_result env (Suc k) ?d ms u d'"
          by blast
        have f: "(result OR POLL_NEW_MULTICAST) OR flags (ms \<noteq> []) (u \<noteq> None) =
            result OR flags (?b # ms \<noteq> []) (u \<noteq> None)"
          by (simp add: flags_def or.assoc [symmetric])
        have upt: "[k..<Suc (k + n)] = k # [Suc k..<Suc (k + n)]" for n
          by (simp add: upt_rec)
        have "poll_result env k d (?b # ms) u d'"
          using res b Some True q(2) by (auto simp: poll_result_def Let_def upt simp del: upt_Suc)
        moreover have "poll_loop env k result d = Some (result OR flags (?b # ms \<noteq> []) (u \<noteq> None), d')"
          using rec poll_loop_step [OF assms(1), of k result d] \<open>d_next d = None \<and> _\<close> Some True
          unfolding f by simp
        ultimately show ?thesis by blast
      next
        case False
        let ?d = "d\<lparr>d_next := Some ?b\<rparr>"
        have "poll_loop env k result d = Some (result OR flags ([] \<noteq> []) (Some ?b \<noteq> None), ?d)"
          using poll_loop_step [OF assms(1), of k result d] poll_loop_step [OF assms(1), of "Suc k" _ ?d]
            \<open>d_next d = None \<and> _\<close> Some False by (simp add: flags_def)
        moreover have "poll_result env k d [] (Some ?b) ?d"
          using b Some False \<open>d_next d = None \<and> _\<close> less.prems by (simp add: poll_result_def)
        ultimately show ?thesis by blast
      qed
    qed
  qed
qed

lemma poll_result_fields:
  assumes "poll_result env k d ms u d'"
  shows "d_next d' = (if u = None then d_next d else u)" and "d_io d' = d_io d" and "d_p2p d' = d_p2p d"
    and "d_80211 d' = d_80211 d" and "d_dump d' = d_dump d"
proof -
  have e: "d' = d\<lparr>d_next := (if u = None then d_next d else u), d_queue := d_queue d'\<rparr>"
    using assms unfolding poll_result_def Let_def by blast
  show "d_next d' = (if u = None then d_next d else u)" using arg_cong [OF e, of d_next] by simp
  show "d_io d' = d_io d" using arg_cong [OF e, of d_io] by simp
  show "d_p2p d' = d_p2p d" using arg_cong [OF e, of d_p2p] by simp
  show "d_80211 d' = d_80211 d" using arg_cong [OF e, of d_80211] by simp
  show "d_dump d' = d_dump d" using arg_cong [OF e, of d_dump] by simp
qed

text \<open>C10: reading from the host always ends, and no frame is lost: the frames taken are exactly
  the successive reads, the group-addressed ones join the multicast queue in order behind what
  was there (never overwriting anything), the first other frame becomes the next unicast frame
  and ends the loop; reading stops only when a unicast frame is waiting, the queue is full, or
  the host has no complete frame. The flags tell which kinds arrived.\<close>

theorem poll_loses_nothing:
  assumes "reads_ok env" and "queue_inv (d_queue d)"
  shows "\<exists>ms u d'. poll_host_device env d = Some (flags (ms \<noteq> []) (u \<noteq> None), d') \<and>
    poll_result env 0 d ms u d'"
  using poll_loop_spec [OF assms, of 0 0] by (simp add: poll_host_device_def)

text \<open>A daemon and an environment to instantiate lemmas with.\<close>

definition sample_queue :: "buf circular_buf" where
  "sample_queue = \<lparr>buffer = replicate 16 (const_buf []), head = 0, tail = 0, max_size = 16, full = False\<rparr>"

definition sample_daemon :: "peers_table \<Rightarrow> daemon_state" where
  "sample_daemon m = \<lparr>d_io = sample_io, d_p2p = (sample_state m)\<lparr>s_peer_cb := True, s_peer_remove_cb := True\<rparr>,
     d_80211 = ieee80211_init_state, d_next = None, d_queue = sample_queue, d_dump = None\<rparr>"

definition sample_core_env :: "int \<Rightarrow> u8 list list \<Rightarrow> core_env" where
  "sample_core_env nsec reads = \<lparr>ce_clock = (\<lambda>_. Some (1, nsec)), ce_inject = 0, ce_written = (\<lambda>_. (0, 0)),
     ce_stack = replicate 65535 0,
     ce_read = (\<lambda>k. if k < length reads then Read_Bytes (reads ! k) else Read_Error 11),
     ce_heap = (\<lambda>_ _. 0), ce_rx = sample_env\<rparr>"

lemma sample_queue_inv: "queue_inv sample_queue" "ring_list sample_queue = []"
  by (simp_all add: sample_queue_def queue_inv_def ring_inv_def ring_list_def circular_buf_size_def)

lemma sample_reads_ok: "list_all (\<lambda>bs. length bs \<le> 1518) reads \<Longrightarrow> reads_ok (sample_core_env n reads)"
  by (auto simp: reads_ok_def sample_core_env_def list_all_length)

theorem poll_loses_nothing_witness:
  "\<exists>m u d'. poll_host_device (sample_core_env 0 [[2, 0, 0, 0, 0, 3, 8]]) (sample_daemon m) =
      Some (POLL_NEW_UNICAST, d') \<and> ring_list (d_queue d') = [] \<and> d_next d' = Some u \<and>
      buf_view u = [2, 0, 0, 0, 0, 3, 8]"
proof -
  let ?bs = "[2, 0, 0, 0, 0, 3, 8] :: u8 list"
  let ?env = "sample_core_env 0 [?bs]"
  fix m
  let ?d = "sample_daemon m"
  have q: "queue_inv (d_queue ?d)" "ring_list (d_queue ?d) = []" "d_next ?d = None"
    by (simp_all add: sample_daemon_def sample_queue_inv)
  have bytes: "host_bytes ?env (d_io ?d) 0 = Some ?bs" "\<not> group_bytes ?bs"
    by (simp_all add: host_bytes_def sample_daemon_def sample_io_def sample_core_env_def group_bytes_def)
  obtain ms u d' where run: "poll_host_device ?env ?d = Some (flags (ms \<noteq> []) (u \<noteq> None), d')"
    and res: "poll_result ?env 0 ?d ms u d'"
    using poll_loses_nothing [OF sample_reads_ok q(1), of "[?bs]" 0] by auto
  note r = res [unfolded poll_result_def Let_def] and nxt = poll_result_fields(1) [OF res]
  have ms: "ms = []"
  proof (cases ms)
    case (Cons b ms')
    then have "map (Some \<circ> buf_view) (b # ms' @ (case u of None \<Rightarrow> [] | Some c \<Rightarrow> [c])) =
        map (host_bytes ?env (d_io ?d)) [0..<Suc (length (ms' @ (case u of None \<Rightarrow> [] | Some c \<Rightarrow> [c])))]"
      using r by simp
    then have "Some (buf_view b) = host_bytes ?env (d_io ?d) 0"
      by (simp add: upt_rec del: upt_Suc)
    then show ?thesis using r bytes Cons by simp
  qed simp
  then have "\<not> circular_buf_full (d_queue d')" and same: "ring_list (d_queue d') = []"
    using r q(2) queue_facts(2) [of "d_queue d'"] by simp_all
  then obtain c where u: "u = Some c" using r ms q(3) bytes(1) nxt
    by (cases u) auto
  then have "buf_view c = ?bs" using r ms bytes(1) by simp
  moreover have "d_next d' = Some c" using nxt u by simp
  ultimately show ?thesis using run same u ms by (auto simp: flags_def)
qed

end
