(* ===== verification/Core_Handlers.thy ===== *)
theory Core_Handlers
  imports Core_Poll Tx_Layout Rx_Path
begin

text \<open>
  The handlers one by one: what they return on every branch, what they keep, and that nothing
  undefined happens as long as the invariant of the daemon holds.
\<close>

section \<open>Sending one data frame\<close>

definition clocks_ok :: "core_env \<Rightarrow> bool" where
  "clocks_ok env \<longleftrightarrow> (\<forall>k. clock_time_us (ce_clock env k) \<noteq> None) \<and> length (ce_stack env) = 65535"

definition frame_dst :: "buf \<Rightarrow> ether_addr" where
  "frame_dst b = ether_of (take 6 (buf_view b))"

definition frame_src :: "buf \<Rightarrow> ether_addr" where
  "frame_src b = ether_of (slice (buf_view b) 6 6)"

text \<open>The bytes on the air for an Ethernet frame from the host.\<close>

definition data_bytes_of :: "apple_p2p_state \<Rightarrow> ieee80211_state \<Rightarrow> buf \<Rightarrow> u8 list" where
  "data_bytes_of p2p i b = with_fcs (i_fcs i)
     (data_frame p2p (i_sequence_number i) (frame_src b) (frame_dst b) (drop 14 (buf_view b)))"

definition injected :: "io_state \<Rightarrow> u8 list \<Rightarrow> effect list" where
  "injected io bs = (if wlan_handle io = None then [] else [Inject bs])"

definition counted_data :: "apple_p2p_state \<Rightarrow> apple_p2p_state" where
  "counted_data p2p = p2p\<lparr>s_sequence_number := s_sequence_number p2p + 1,
     s_stats := (s_stats p2p)\<lparr>st_tx_data := st_tx_data (s_stats p2p) + 1\<rparr>\<rparr>"

text \<open>What remains of the state and what is sent: a frame without a complete Ethernet header
  (fewer than 14 bytes) is silently not sent.\<close>

definition data_sent ::
  "io_state \<Rightarrow> apple_p2p_state \<Rightarrow> ieee80211_state \<Rightarrow> buf \<Rightarrow> apple_p2p_state \<times> ieee80211_state \<times> effect list" where
  "data_sent io p2p i b =
     (if b_len b < 14 then (p2p, i, [])
      else (counted_data p2p, next_ieee80211 i, injected io (data_bytes_of p2p i b)))"

lemma wlan_send_effects:
  "(case snd (wlan_send r io bs) of None \<Rightarrow> [] | Some bs \<Rightarrow> [Inject bs]) = injected io bs"
  by (simp add: wlan_send_def injected_def)

lemma send_data_spec:
  assumes b: "host_frame b" and env: "clocks_ok env" and clk: "clk = ce_clock env k"
  shows "\<exists>r. apple_p2p_send_data env clk b io p2p i = Some (r, data_sent io p2p i b)"
proof -
  have wf: "wf_buf b" and len: "6 \<le> b_len b" "b_len b \<le> 1518" using b by (auto simp: host_frame_def)
  have view: "b_len b = int (length (buf_view b))" by (rule b_len_view [OF wf])
  show ?thesis
  proof (cases "b_len b < 14")
    case True
    then have "read_be16 b 12 = Inl OUT_OF_BOUNDS" using read_be16_view [OF wf, of 12] view by simp
    then show ?thesis using True by (simp add: apple_p2p_send_data_def data_sent_def)
  next
    case False
    then have l14: "14 \<le> length (buf_view b)" using view by simp
    obtain t where reads: "read_be16 b 12 = Inr (2, t)" "read_ether_addr b 0 = Inr (6, frame_dst b)"
      "read_ether_addr b 6 = Inr (6, frame_src b)"
      using l14 wf by (simp add: read_views frame_dst_def frame_src_def slice_def)
    obtain f where f: "buf_strip b 14 = (14, f)" "wf_buf f" "buf_view f = drop 14 (buf_view b)"
      using buf_strip_ok [OF wf, of 14] False by auto
    have pay: "take (nat (buf_len f)) (buf_data f) = drop 14 (buf_view b)"
      using f(3) by (simp add: buf_view_def slice_def buf_len_def buf_data_def)
    have plen: "nat (buf_len f) \<le> length (buf_data f)"
      using f(2) by (auto simp: wf_buf_def buf_len_def buf_data_def)
    have "length (data_bytes_of p2p i b) \<le> 65535"
      using len(2) view by (auto simp: data_bytes_of_def with_fcs_def data_frame_def hdr_bytes_def llc_bytes_def data_bytes_def)
    then obtain mem where put: "put (ce_stack env) 0 (data_bytes_of p2p i b) =
        Some (length (data_bytes_of p2p i b), mem)" and mem: "take (length (data_bytes_of p2p i b)) mem = data_bytes_of p2p i b"
      using env put_take [of "ce_stack env" "data_bytes_of p2p i b"] by (auto simp: clocks_ok_def put_def)
    have frame: "apple_p2p_init_full_data_frame (ce_stack env) 0 (frame_src b) (frame_dst b) (buf_data f)
        (nat (buf_len f)) p2p i = Some (length (data_bytes_of p2p i b), mem,
          p2p\<lparr>s_sequence_number := s_sequence_number p2p + 1\<rparr>, next_ieee80211 i)"
      using put by (simp add: full_data_frame_eq [OF plen] pay data_bytes_of_def)
    obtain now where now: "clock_time_us clk = Some now" using env clk by (auto simp: clocks_ok_def)
    obtain r sent where w: "wlan_send (ce_inject env) io (data_bytes_of p2p i b) = (r, sent)" by force
    have "(case sent of None \<Rightarrow> [] | Some bs \<Rightarrow> [Inject bs]) = injected io (data_bytes_of p2p i b)"
      using wlan_send_effects [of "ce_inject env" io "data_bytes_of p2p i b"] w by simp
    then show ?thesis
      using False by (simp add: apple_p2p_send_data_def reads f(1) frame now mem w data_sent_def counted_data_def)
  qed
qed

section \<open>The invariant of the daemon\<close>

definition queued_ok :: "buf \<Rightarrow> bool" where
  "queued_ok b \<longleftrightarrow> host_frame b \<and> group_bytes (buf_view b)"

definition next_ok :: "buf option \<Rightarrow> bool" where
  "next_ok n \<longleftrightarrow> (\<forall>b. n = Some b \<longrightarrow> host_frame b \<and> \<not> group_bytes (buf_view b))"

definition p2p_inv :: "apple_p2p_state \<Rightarrow> bool" where
  "p2p_inv p \<longleftrightarrow> state_wf p \<and> peers_wf (speers p) \<and> s_peer_cb p \<and> s_peer_remove_cb p \<and>
     e_height (s_election p) \<le> APPLE_P2P_ELECTION_TREE_MAX_HEIGHT"

definition daemon_inv :: "daemon_state \<Rightarrow> bool" where
  "daemon_inv d \<longleftrightarrow> p2p_inv (d_p2p d) \<and> queue_inv (d_queue d) \<and>
     list_all queued_ok (ring_list (d_queue d)) \<and> next_ok (d_next d)"

text \<open>A host name that fits the array of a service name.\<close>

definition short_name :: "daemon_state \<Rightarrow> bool" where
  "short_name d \<longleftrightarrow> (\<exists>name. c_string (s_name (d_p2p d)) = Some name \<and> length name \<le> 50)"

text \<open>What no handler ever changes.\<close>

definition node_constants :: "apple_p2p_state \<Rightarrow> u8 \<times> u8 \<times> u8 \<times> u8" where
  "node_constants p = (s_version p, s_dev_class p, s_rssi_threshold p, s_rssi_grace p)"

lemma node_constants_update [simp]:
  "node_constants (p\<lparr>s_stats := a\<rparr>) = node_constants p"
  "node_constants (p\<lparr>s_sequence_number := b\<rparr>) = node_constants p"
  "node_constants (p\<lparr>s_sync := c\<rparr>) = node_constants p"
  "node_constants (p\<lparr>s_peers := e\<rparr>) = node_constants p"
  "node_constants (p\<lparr>s_channel := f\<rparr>) = node_constants p"
  "node_constants (p\<lparr>s_election := g\<rparr>) = node_constants p"
  "node_constants (p\<lparr>s_peer_cb := h\<rparr>) = node_constants p"
  "node_constants (p\<lparr>s_peer_remove_cb := i\<rparr>) = node_constants p"
  "node_constants (p\<lparr>s_filter_rssi := j\<rparr>) = node_constants p"
  by (simp_all add: node_constants_def)

definition same_node :: "daemon_state \<Rightarrow> daemon_state \<Rightarrow> bool" where
  "same_node d d' \<longleftrightarrow> d_io d' = d_io d \<and> d_dump d' = d_dump d \<and> i_fcs (d_80211 d') = i_fcs (d_80211 d) \<and>
     s_name (d_p2p d') = s_name (d_p2p d) \<and> s_self_address (d_p2p d') = s_self_address (d_p2p d) \<and>
     ch_sequence (s_channel (d_p2p d')) = ch_sequence (s_channel (d_p2p d)) \<and>
     ps_timeout (s_peers (d_p2p d')) = ps_timeout (s_peers (d_p2p d)) \<and>
     node_constants (d_p2p d') = node_constants (d_p2p d)"

lemma same_node_refl [simp]: "same_node d d"
  by (simp add: same_node_def)

lemma same_node_trans: "same_node a b \<Longrightarrow> same_node b c \<Longrightarrow> same_node a c"
  by (simp add: same_node_def)

lemma p2p_inv_stats [simp]:
  "p2p_inv (p\<lparr>s_stats := x\<rparr>) = p2p_inv p" "p2p_inv (counted_data p) = p2p_inv p"
  "p2p_inv (p\<lparr>s_sequence_number := y\<rparr>) = p2p_inv p"
  by (simp_all add: p2p_inv_def state_wf_def counted_data_def)

lemma data_sent_keeps:
  assumes "data_sent io p i b = (p', i', effs)"
  shows "p2p_inv p' = p2p_inv p" and "i_fcs i' = i_fcs i" and "s_name p' = s_name p"
    and "s_self_address p' = s_self_address p" and "s_channel p' = s_channel p" and "s_peers p' = s_peers p"
    and "s_sync p' = s_sync p" and "node_constants p' = node_constants p"
  using assms by (auto simp: data_sent_def counted_data_def split: if_splits)

section \<open>Unicast\<close>

lemma host_out_view:
  "wf_buf b \<Longrightarrow> host_out written io b = (if host_fd io = 0 then [] else [Host_Write (buf_view b)])"
  by (simp add: host_out_def host_send_def buf_view_def slice_def buf_len_def buf_data_def)

definition unicast_retry :: "rat \<Rightarrow> rat" where
  "unicast_retry delay = (if delay < 0 then - delay + 3072 / 1000000 else delay)"

lemma unicast_guard_usec:
  "usec_to_sec (ucast (ieee80211_tu_to_usec 3)) = 3072 / 1000000"
  by (simp add: usec_to_sec_def ieee80211_tu_to_usec_def)

lemma multicast_guard_usec:
  "usec_to_sec (ucast (ieee80211_tu_to_usec 16)) = 16384 / 1000000"
  "usec_to_sec (ucast (ieee80211_tu_to_usec 64)) = 65536 / 1000000"
  by (simp_all add: usec_to_sec_def ieee80211_tu_to_usec_def)

definition unicast_result :: "core_env \<Rightarrow> u64 \<Rightarrow> daemon_state \<Rightarrow> buf \<Rightarrow> daemon_state \<times> effect list" where
  "unicast_result env now d b =
     (let p2p = d_p2p d; dst = frame_dst b; feed = [Feed_Event Read_Host] in
      if dst = s_self_address p2p then
        (d\<lparr>d_next := None\<rparr>, (if host_fd (d_io d) = 0 then [] else [Host_Write (buf_view b)]) @ feed)
      else case peer_map (speers p2p) dst of
          None \<Rightarrow> (d\<lparr>d_next := None\<rparr>, feed)
        | Some p \<Rightarrow>
            let delay = apple_p2p_can_send_unicast_in p2p p now APPLE_P2P_UNICAST_GUARD_TU in
            if delay \<noteq> 0 then (d, [Timer_Rearm Tx_Timer (unicast_retry delay)])
            else case data_sent (d_io d) p2p (d_80211 d) b of (p2p, i, effs) \<Rightarrow>
              (d\<lparr>d_p2p := p2p\<lparr>s_stats := (s_stats p2p)
                   \<lparr>st_tx_data_unicast := st_tx_data_unicast (s_stats p2p) + 1\<rparr>\<rparr>,
                 d_80211 := i, d_next := None\<rparr>, effs @ feed))"

lemma send_unicast_correct:
  assumes inv: "daemon_inv d" and env: "clocks_ok env" and now: "clock_time_us (ce_clock env 0) = Some now"
  shows "apple_p2p_send_unicast env d = Some (case d_next d of
      None \<Rightarrow> (d, [Feed_Event Read_Host]) | Some b \<Rightarrow> unicast_result env now d b)"
proof (cases "d_next d")
  case None
  then show ?thesis by (simp add: apple_p2p_send_unicast_def now)
next
  case (Some b)
  have b: "host_frame b" using inv Some by (simp add: daemon_inv_def next_ok_def)
  then have wf: "wf_buf b" "6 \<le> b_len b" by (simp_all add: host_frame_def)
  have dst: "read_ether_addr b 0 = Inr (6, frame_dst b)" using read_dst [OF wf] by (simp add: frame_dst_def)
  have peers: "peers_inv (speers (d_p2p d))" using inv by (simp add: daemon_inv_def p2p_inv_def peers_wf_def)
  obtain r p' i' effs where ds: "data_sent (d_io d) (d_p2p d) (d_80211 d) b = (p', i', effs)"
    and send: "apple_p2p_send_data env (ce_clock env 1) b (d_io d) (d_p2p d) (d_80211 d) = Some (r, p', i', effs)"
    using send_data_spec [OF b env refl, of 1 "d_io d" "d_p2p d" "d_80211 d"]
    by (cases "data_sent (d_io d) (d_p2p d) (d_80211 d) b") auto
  note defs = apple_p2p_send_unicast_def now dst Some unicast_result_def Let_def ev_timer_rearm_def
  show ?thesis
  proof (cases "frame_dst b = s_self_address (d_p2p d)")
    case True
    then show ?thesis using host_out_view [OF wf(1)] by (simp add: defs)
  next
    case other: False
    show ?thesis
    proof (cases "peer_map (speers (d_p2p d)) (frame_dst b)")
      case None
      then show ?thesis using other peer_get_spec [OF peers, of "frame_dst b"] by (simp add: defs)
    next
      case (Some p)
      then show ?thesis
        using other peer_get_spec [OF peers, of "frame_dst b"] \<open>d_next d = Some b\<close>
        by (simp add: defs send [unfolded One_nat_def] ds unicast_retry_def unicast_guard_usec)
    qed
  qed
qed

section \<open>Multicast\<close>

definition multicast_retry :: "rat \<Rightarrow> rat" where
  "multicast_retry delay =
     (if delay = 0 then 65536 / 1000000
      else if delay < 0 then - delay + 16384 / 1000000 else delay)"

definition multicast_result :: "core_env \<Rightarrow> u64 \<Rightarrow> daemon_state \<Rightarrow> buf \<Rightarrow> buf list \<Rightarrow> daemon_state \<times> effect list" where
  "multicast_result env now d b bs =
     (let p2p = d_p2p d; delay = apple_p2p_can_send_in p2p now APPLE_P2P_MULTICAST_GUARD_TU in
      if \<not> (apple_p2p_is_multicast_eaw p2p now \<and> delay = 0)
      then (d, [Timer_Rearm Tx_Mcast_Timer (multicast_retry delay)])
      else case data_sent (d_io d) p2p (d_80211 d) b of (p2p, i, effs) \<Rightarrow>
        (d\<lparr>d_p2p := p2p\<lparr>s_stats := (s_stats p2p)
             \<lparr>st_tx_data_multicast := st_tx_data_multicast (s_stats p2p) + 1\<rparr>\<rparr>,
           d_80211 := i, d_queue := snd (ring_get (d_queue d))\<rparr>,
         effs @ (if bs = [] then [Feed_Event Read_Host] else [Timer_Rearm Tx_Mcast_Timer 0])))"

lemma queue_get:
  assumes "queue_inv q" and "ring_list q = b # bs"
  shows "circular_buf_get q False = (0, Some b, snd (ring_get q))"
    and "queue_inv (snd (ring_get q))" and "ring_list (snd (ring_get q)) = bs"
proof -
  have inv: "ring_inv q" "max_size q = 16" using assms(1) by (simp_all add: queue_inv_def)
  note get = ring.get_some [OF inv(1) assms(2)]
  show "queue_inv (snd (ring_get q))" and "ring_list (snd (ring_get q)) = bs"
    using get ring.get_invar [OF inv(1)] inv by (simp_all add: queue_inv_def)
  have "\<not> circular_buf_empty q" using queue_facts(3) [OF assms(1)] assms(2) by simp
  then show "circular_buf_get q False = (0, Some b, snd (ring_get q))"
    using get by (simp add: ring_get_def circular_buf_get_def)
qed

lemma send_multicast_correct:
  assumes inv: "daemon_inv d" and env: "clocks_ok env" and now: "clock_time_us (ce_clock env 0) = Some now"
  shows "apple_p2p_send_multicast env d = Some (case ring_list (d_queue d) of
      [] \<Rightarrow> (d, [Feed_Event Read_Host]) | b # bs \<Rightarrow> multicast_result env now d b bs)"
proof (cases "ring_list (d_queue d)")
  case Nil
  then show ?thesis
    using inv queue_facts(3) [of "d_queue d"] by (simp add: apple_p2p_send_multicast_def now daemon_inv_def)
next
  case (Cons b bs)
  have q: "queue_inv (d_queue d)" and "queued_ok b" using inv Cons by (auto simp: daemon_inv_def)
  then have b: "host_frame b" by (simp add: queued_ok_def)
  note get = queue_get [OF q Cons]
  have ne: "\<not> circular_buf_empty (d_queue d)" "circular_buf_empty (snd (ring_get (d_queue d))) \<longleftrightarrow> bs = []"
    using queue_facts(3) [OF q] queue_facts(3) [OF get(2)] Cons get(3) by simp_all
  obtain r p' i' effs where ds: "data_sent (d_io d) (d_p2p d) (d_80211 d) b = (p', i', effs)"
    and send: "apple_p2p_send_data env (ce_clock env 1) b (d_io d) (d_p2p d) (d_80211 d) = Some (r, p', i', effs)"
    using send_data_spec [OF b env refl, of 1 "d_io d" "d_p2p d" "d_80211 d"]
    by (cases "data_sent (d_io d) (d_p2p d) (d_80211 d) b") auto
  show ?thesis
    by (simp add: apple_p2p_send_multicast_def now Cons ne get(1) send [unfolded One_nat_def] ds multicast_result_def Let_def
        ev_timer_rearm_def multicast_retry_def multicast_guard_usec)
qed

section \<open>Action frames\<close>

definition counted_action :: "daemon_state \<Rightarrow> daemon_state" where
  "counted_action d = d\<lparr>d_80211 := next_ieee80211 (d_80211 d), d_p2p := (d_p2p d)\<lparr>s_stats := (s_stats (d_p2p d))
     \<lparr>st_tx_action := st_tx_action (s_stats (d_p2p d)) + 1\<rparr>\<rparr>\<rparr>"

definition action_bytes_of :: "daemon_state \<Rightarrow> u8 \<Rightarrow> u64 \<Rightarrow> u64 \<Rightarrow> u8 list" where
  "action_bytes_of d type now1 now2 = with_fcs (i_fcs (d_80211 d))
     (action_frame (d_p2p d) (i_sequence_number (d_80211 d)) type now1 now2 (the (c_string (s_name (d_p2p d)))))"

lemma p2p_inv_enc: "p2p_inv p \<Longrightarrow> enc_ok p"
  by (simp add: p2p_inv_def state_wf_def enc_ok_def)

lemma send_action_correct:
  assumes inv: "daemon_inv d" and name: "short_name d" and env: "clocks_ok env"
    and clk: "clock_time_us clk1 = Some now1" "clock_time_us clk2 = Some now2"
  shows "apple_p2p_send_action env clk1 clk2 d type =
    Some (counted_action d, injected (d_io d) (action_bytes_of d type now1 now2))"
proof -
  obtain nm where nm: "c_string (s_name (d_p2p d)) = Some nm" "length nm \<le> 50"
    using name by (auto simp: short_name_def)
  let ?f = "action_bytes_of d type now1 now2"
  have "enc_ok (d_p2p d)" using inv p2p_inv_enc by (simp add: daemon_inv_def)
  then have "length ?f \<le> 1306"
    using action_frame_length [of "d_p2p d" nm "i_sequence_number (d_80211 d)" type now1 now2] nm
      length_with_fcs [of "i_fcs (d_80211 d)"
        "action_frame (d_p2p d) (i_sequence_number (d_80211 d)) type now1 now2 nm"]
    by (simp add: action_bytes_of_def)
  then obtain mem where put: "put (ce_stack env) 0 ?f = Some (length ?f, mem)" and mem: "take (length ?f) mem = ?f"
    using env put_take [of "ce_stack env" ?f] by (auto simp: clocks_ok_def put_def)
  have "apple_p2p_init_full_action_frame clk1 clk2 (ce_stack env) 0 (d_p2p d) (d_80211 d) type =
      Some (length ?f, mem, next_ieee80211 (d_80211 d))"
    using full_action_frame_fits [OF nm clk, of "ce_stack env" 0 "d_80211 d" type] put nm
    by (simp add: action_bytes_of_def)
  moreover obtain r sent where w: "wlan_send (ce_inject env) (d_io d) ?f = (r, sent)" by force
  moreover have "(case sent of None \<Rightarrow> [] | Some bs \<Rightarrow> [Inject bs]) = injected (d_io d) ?f"
    using wlan_send_effects [of "ce_inject env" "d_io d" ?f] w by simp
  ultimately show ?thesis by (simp add: apple_p2p_send_action_def mem counted_action_def Let_def)
qed

lemma send_psf_correct:
  assumes "daemon_inv d" and "short_name d" and "clocks_ok env"
    and "clock_time_us (ce_clock env 0) = Some now1" "clock_time_us (ce_clock env 1) = Some now2"
  shows "apple_p2p_send_psf env d =
    Some (counted_action d, injected (d_io d) (action_bytes_of d APPLE_P2P_ACTION_PSF now1 now2))"
  unfolding apple_p2p_send_psf_def by (rule send_action_correct [OF assms])

text \<open>The next MIF is due in the middle of the next extended window.\<close>

lemma send_mif_correct:
  assumes inv: "daemon_inv d" and name: "short_name d" and env: "clocks_ok env"
    and now: "clock_time_us (ce_clock env 0) = Some now" "clock_time_us (ce_clock env 1) = Some now1"
      "clock_time_us (ce_clock env 2) = Some now2"
  shows "apple_p2p_send_mif env d =
    (let on = apple_p2p_chan_num (ch_current (s_channel (d_p2p d))) (ch_enc (s_channel (d_p2p d))) > 0;
         delay = of_nat (65536 - position (d_p2p d) now + 32768) / 1000000
     in Some (if on then counted_action d else d,
       (if on then injected (d_io d) (action_bytes_of d APPLE_P2P_ACTION_MIF now1 now2) else []) @
       [Timer_Rearm Mif_Timer delay]))"
proof -
  have wf: "sync_wf (s_sync (d_p2p d))" using inv by (simp add: daemon_inv_def p2p_inv_def state_wf_def)
  let ?n = "apple_p2p_sync_next_aw_us now (s_sync (d_p2p d))"
  have n: "unat ?n = 65536 - position (d_p2p d) now" by (rule next_aw_position [OF wf])
  have "unat (?n + 32768) = 65536 - position (d_p2p d) now + 32768"
    by (simp add: unat_word_ariths n)
  then have delay: "usec_to_sec (?n + 32768) = of_nat (65536 - position (d_p2p d) now + 32768) / 1000000"
    unfolding usec_to_sec_def by simp
  show ?thesis
    using send_action_correct [OF inv name env now(2,3), of APPLE_P2P_ACTION_MIF] now(1)
    by (simp add: apple_p2p_send_mif_def eaw_period_wf [OF wf] Let_def ev_timer_rearm_def
        ieee80211_tu_to_usec_def delay)
qed

section \<open>Channel switching\<close>

lemma switch_channel_correct:
  assumes inv: "daemon_inv d" and now: "clock_time_us (ce_clock env 0) = Some now"
  defines "ch \<equiv> s_channel (d_p2p d)"
  defines "new \<equiv> ch_sequence ch ! (unat (apple_p2p_sync_current_eaw now (s_sync (d_p2p d))) mod 16)"
  defines "num \<equiv> (\<lambda>c. apple_p2p_chan_num c (ch_enc ch))"
  shows "apple_p2p_switch_channel env d =
    (let switch = (num new \<noteq> 0 \<and> num new \<noteq> num (ch_current ch))
     in Some (if switch then d\<lparr>d_p2p := (d_p2p d)\<lparr>s_channel := ch\<lparr>ch_current := new\<rparr>\<rparr>\<rparr> else d,
       (if switch \<and> \<not> wlan_is_file (d_io d)
        then [Query_Channel (wlan_ifindex (d_io d)) (num new), Set_Channel (wlan_ifindex (d_io d)) (num new)]
        else []) @
       [Timer_Rearm Chan_Timer (of_nat (65536 - position (d_p2p d) now) / 1000000)]))"
proof -
  have wf: "sync_wf (s_sync (d_p2p d))" using inv by (simp add: daemon_inv_def p2p_inv_def state_wf_def)
  have delay: "usec_to_sec (apple_p2p_sync_next_aw_us now (s_sync (d_p2p d))) =
      of_nat (65536 - position (d_p2p d) now) / 1000000"
    by (simp add: usec_to_sec_def next_aw_position [OF wf])
  show ?thesis
    by (simp add: apple_p2p_switch_channel_def now Let_def ev_timer_rearm_def delay ch_def new_def num_def)
qed

end
