(* ===== verification/Core_Peers.thy ===== *)
theory Core_Peers
  imports Core_Handlers
begin

text \<open>
  The handlers that change the peer table: ageing with the election that follows it, and the
  reception of a frame; and the table of neighbours in the kernel, which both keep up to date.
\<close>

section \<open>Ageing and election\<close>

definition ages :: "u64 \<Rightarrow> apple_p2p_peer option \<Rightarrow> apple_p2p_peer option" where
  "ages cutoff p = (case p of None \<Rightarrow> None
     | Some p \<Rightarrow> if p_last_update p < cutoff then None else Some p)"

lemma adopt_self [simp]: "e_self_addr (adopt e w) = e_self_addr e"
  by (simp add: adopt_def split: option.split)

lemma adopt_winner_safe:
  fixes e :: apple_p2p_election_state
  assumes "peers_inv m"
  defines "e' \<equiv> adopt e (election_winner e m)"
  shows "e_height e' \<le> APPLE_P2P_ELECTION_TREE_MAX_HEIGHT \<and> (e' = apple_p2p_election_reset_self e \<or>
    (\<exists>q. peer_map m (p_addr q) = Some q \<and> p_is_valid q \<and> e_sync_addr e' = e_self_addr (p_election q)))"
  using assms(1)
proof (cases rule: winner_cases [where s = e])
  case self
  then show ?thesis by (simp add: e'_def adopt_def)
next
  case (peer q)
  then show ?thesis by (auto simp: e'_def adopt_def candidate_def)
qed

text \<open>The state after ageing: table \<open>m\<close> and election state \<open>e\<close>.\<close>

definition aged :: "daemon_state \<Rightarrow> peers_table \<Rightarrow> apple_p2p_election_state \<Rightarrow> daemon_state" where
  "aged d m e = d\<lparr>d_p2p := (d_p2p d)\<lparr>s_peers := (s_peers (d_p2p d))\<lparr>ps_peers := m\<rparr>, s_election := e\<rparr>\<rparr>"

lemma clean_peers_correct:
  assumes inv: "daemon_inv d" and now: "clock_time_us (ce_clock env 0) = Some now"
  defines "cutoff \<equiv> now - ps_timeout (s_peers (d_p2p d))"
  shows "\<exists>m removed. apple_p2p_clean_peers env d =
      Some (aged d m (adopt (s_election (d_p2p d)) (election_winner (s_election (d_p2p d)) m)),
        map (apple_p2p_neighbor_remove (d_io d)) removed @ [Timer_Again Peer_Timer]) \<and> peers_wf m \<and>
    peer_map m = (\<lambda>a. ages cutoff (peer_map (speers (d_p2p d)) a)) \<and> distinct (map p_addr removed) \<and>
    set removed = {p. peer_map (speers (d_p2p d)) (p_addr p) = Some p \<and> p_last_update p < cutoff \<and> p_is_valid p}"
proof -
  let ?p = "d_p2p d"
  have wf: "peers_wf (speers ?p)" and cb: "s_peer_remove_cb ?p"
    using inv by (simp_all add: daemon_inv_def p2p_inv_def)
  then have pinv: "peers_inv (speers ?p)" by (simp add: peers_wf_def)
  obtain m removed where rem: "apple_p2p_peers_remove (speers ?p) cutoff True = Some (m, removed)"
    and m: "peers_inv m" "peer_map m = (\<lambda>a. ages cutoff (peer_map (speers ?p) a))"
    and removed: "distinct (map p_addr removed)"
      "set removed = {p. peer_map (speers ?p) (p_addr p) = Some p \<and> p_last_update p < cutoff \<and> p_is_valid p}"
    using peers_remove_correct [OF pinv, of cutoff True] unfolding ages_def by auto
  obtain changed where run: "apple_p2p_election_run (s_election ?p) m =
      Some (adopt (s_election ?p) (election_winner (s_election ?p) m), changed)"
    using election_run_winner [OF m(1)] by blast
  have "peers_wf m"
    using m wf by (auto simp: peers_wf_def ages_def split: option.splits if_splits)
  moreover have "apple_p2p_clean_peers env d = Some (aged d m
      (adopt (s_election ?p) (election_winner (s_election ?p) m)),
      map (apple_p2p_neighbor_remove (d_io d)) removed @ [Timer_Again Peer_Timer])"
    by (simp add: apple_p2p_clean_peers_def now Let_def cutoff_def [symmetric] cb rem run aged_def)
  ultimately show ?thesis using m(2) removed by blast
qed

lemma aged_keeps:
  assumes "daemon_inv d" and "peers_wf m" and "e = adopt (s_election (d_p2p d)) (election_winner (s_election (d_p2p d)) m)"
  shows "daemon_inv (aged d m e)" and "same_node d (aged d m e)" and "d_next (aged d m e) = d_next d"
    and "d_queue (aged d m e) = d_queue d"
  using assms adopt_winner_safe [of m "s_election (d_p2p d)"]
  by (simp_all add: aged_def daemon_inv_def p2p_inv_def state_wf_def peers_wf_def same_node_def)

section \<open>Reception\<close>

definition rx_ok :: "core_env \<Rightarrow> bool" where
  "rx_ok env \<longleftrightarrow> rx_env_ok (ce_rx env) \<and> clock_time_us (re_clock (ce_rx env)) \<noteq> None \<and>
     unat (rt_next_ns_data (re_iter (ce_rx env))) \<le> rt_limit"

lemma rx_outcome_keeps:
  assumes out: "rx_outcome p out (r, out', p', evs)" and inv: "p2p_inv p"
  shows "p2p_inv p'" and "s_name p' = s_name p" and "s_self_address p' = s_self_address p"
    and "s_channel p' = s_channel p" and "ps_timeout (s_peers p') = ps_timeout (s_peers p)"
    and "s_election p' = s_election p" and "node_constants p' = node_constants p"
proof -
  from out obtain src where "rx_dropped p src p' \<or> rx_preserves p src p'" by (auto simp: rx_outcome_def)
  then obtain y t where e: "p' = p\<lparr>s_sync := y, s_peers := (s_peers p)\<lparr>ps_peers := speers p'\<rparr>, s_stats := t\<rparr>"
    and m: "peers_wf (speers p')" and y: "sync_wf (s_sync p) \<longrightarrow> sync_wf y"
    unfolding rx_dropped_def rx_preserves_def by (metis apple_p2p_state.surjective apple_p2p_state.update_convs(18))
  obtain m where m': "m = speers p'" by simp
  note e' = e [folded m'] and m'' = m [folded m']
  show "p2p_inv p'"
    using inv m'' y unfolding e' by (simp add: p2p_inv_def state_wf_def peers_wf_def)
  show "s_name p' = s_name p" "s_self_address p' = s_self_address p" "s_channel p' = s_channel p"
    "ps_timeout (s_peers p') = ps_timeout (s_peers p)" "s_election p' = s_election p"
    "node_constants p' = node_constants p"
    unfolding e' by simp_all
qed

definition counted_unknown :: "apple_p2p_state \<Rightarrow> apple_p2p_state" where
  "counted_unknown p = p\<lparr>s_stats := (s_stats p)\<lparr>st_rx_unknown := st_rx_unknown (s_stats p) + 1\<rparr>\<rparr>"

definition host_writes :: "io_state \<Rightarrow> buf list \<Rightarrow> effect list" where
  "host_writes io bs = (if host_fd io = 0 then [] else map (Host_Write \<circ> buf_view) bs)"

lemma send_all_writes: "list_all wf_buf bs \<Longrightarrow> send_all env io k bs = host_writes io bs"
  by (induction bs arbitrary: k) (auto simp: host_out_view host_writes_def)

text \<open>What a captured frame does to the daemon, given the result of \<open>apple_p2p_rx\<close>.\<close>

definition received :: "daemon_state \<Rightarrow> u8 list \<Rightarrow> int \<times> buf list \<times> apple_p2p_state \<times> rx_event list \<Rightarrow>
    (daemon_state \<times> effect list) option" where
  "received d bytes = (\<lambda>(r, bs, p, evs).
     if 16 < length bs then None
     else Some (d\<lparr>d_p2p := (if r < 0 then counted_unknown p else p)\<rparr>,
       callback_effects (d_io d) evs @
       (if r = 0 then host_writes (d_io d) bs else if r < 0 then dump_frame (d_dump d) bytes else [])))"

lemma receive_frame_correct:
  assumes inv: "daemon_inv d" and env: "rx_ok env"
  shows "\<exists>res. apple_p2p_rx (ce_rx env) (const_buf bytes) [] (d_p2p d) = Some res \<and>
    rx_outcome (d_p2p d) [] res \<and> apple_p2p_receive_frame env bytes d = received d bytes res"
proof -
  have "peers_wf (speers (d_p2p d))" using inv by (simp add: daemon_inv_def p2p_inv_def)
  from rx_safe_lemma [OF wf_const_buf this, of "ce_rx env" bytes "[]"] env
  obtain res where rx: "apple_p2p_rx (ce_rx env) (const_buf bytes) [] (d_p2p d) = Some res"
    and out: "rx_outcome (d_p2p d) [] res"
    by (auto simp: rx_ok_def)
  obtain r bs p evs where res: "res = (r, bs, p, evs)" by (cases res) auto
  have "list_all wf_buf bs" using out by (auto simp: rx_outcome_def res)
  then have "apple_p2p_receive_frame env bytes d = received d bytes res"
    by (simp add: apple_p2p_receive_frame_def rx res received_def counted_unknown_def send_all_writes Let_def)
  then show ?thesis using rx out by blast
qed

lemma received_keeps:
  assumes inv: "daemon_inv d" and out: "rx_outcome (d_p2p d) [] res" and run: "received d bytes res = Some (d', effs)"
  shows "daemon_inv d'" and "same_node d d'" and "d_next d' = d_next d" and "d_queue d' = d_queue d"
proof -
  obtain r bs p evs where res: "res = (r, bs, p, evs)" by (cases res) auto
  have "p2p_inv (d_p2p d)" using inv by (simp add: daemon_inv_def)
  note k = rx_outcome_keeps [OF out [unfolded res] this]
  have d': "d' = d\<lparr>d_p2p := (if r < 0 then counted_unknown p else p)\<rparr>"
    using run by (auto simp: received_def res split: if_splits)
  show "daemon_inv d'" using inv k(1) unfolding d' by (simp add: daemon_inv_def counted_unknown_def)
  show "same_node d d'" "d_next d' = d_next d" "d_queue d' = d_queue d"
    unfolding d' using k by (simp_all add: same_node_def counted_unknown_def)
qed

section \<open>The neighbours in the kernel\<close>

lemma rfc4291_inj: "inj rfc4291_addr"
proof (rule inj_on_inverseI)
  fix eth
  show "ether_of (rfc4291_octets (rfc4291_addr eth)) = eth"
    by (cases eth) (simp add: rfc4291_addr_def rfc4291_octets_def numeral_eq_Suc xor_two_twice [unfolded numeral_eq_Suc])
qed

text \<open>The addresses with an entry, under the requests of the handlers.\<close>

definition neighbor_step :: "u8 list set \<Rightarrow> effect \<Rightarrow> u8 list set" where
  "neighbor_step N e = (case e of
     Neighbor (Neighbor_Add _ _ ip) \<Rightarrow> insert ip N
   | Neighbor (Neighbor_Remove _ ip) \<Rightarrow> N - {ip}
   | _ \<Rightarrow> N)"

definition neighbors :: "u8 list set \<Rightarrow> effect list \<Rightarrow> u8 list set" where
  "neighbors N effs = foldl neighbor_step N effs"

lemma neighbors_append [simp]: "neighbors N (xs @ ys) = neighbors (neighbors N xs) ys"
  and neighbors_nil [simp]: "neighbors N [] = N"
  and neighbors_cons: "neighbors N (e # es) = neighbors (neighbor_step N e) es"
  by (simp_all add: neighbors_def)

definition no_neighbor :: "effect \<Rightarrow> bool" where
  "no_neighbor e \<longleftrightarrow> (\<forall>q. e \<noteq> Neighbor q)"

lemma neighbors_other: "list_all no_neighbor effs \<Longrightarrow> neighbors N effs = N"
  by (induction effs arbitrary: N)
    (auto simp: neighbors_cons neighbor_step_def no_neighbor_def split: effect.splits)

lemma neighbors_callbacks: "neighbors N (callback_effects io evs) = N \<union> rfc4291_addr ` announced evs"
proof (induction evs arbitrary: N)
  case (Cons ev evs)
  have split: "announced (ev # evs) = announced [ev] \<union> announced evs" by (simp flip: announced_simps(2))
  show ?case
  proof (cases ev)
    case (Peer_Added p)
    have "callback_effects io (ev # evs) = apple_p2p_neighbor_add io p # callback_effects io evs"
      by (simp add: callback_effects_def Peer_Added)
    moreover have "announced [ev] = {p_addr p}" by (auto simp: announced_def Peer_Added)
    ultimately show ?thesis
      using Cons.IH split
      by (simp add: neighbors_cons apple_p2p_neighbor_add_def neighbor_add_rfc4291_def neighbor_step_def)
  next
    case (Tlv_Seen p t v)
    moreover have "announced [ev] = {}" by (simp add: announced_def Tlv_Seen)
    ultimately show ?thesis using Cons.IH split by (simp add: callback_effects_def)
  qed
qed (simp add: callback_effects_def)

lemma neighbors_removed:
  "neighbors N (map (apple_p2p_neighbor_remove io) ps) = N - rfc4291_addr ` p_addr ` set ps"
  by (induction ps arbitrary: N)
    (auto simp: neighbors_cons apple_p2p_neighbor_remove_def neighbor_remove_rfc4291_def neighbor_step_def)

text \<open>Every valid peer has an entry.\<close>

definition neighbor_inv :: "daemon_state \<Rightarrow> u8 list set \<Rightarrow> bool" where
  "neighbor_inv d N \<longleftrightarrow> rfc4291_addr ` valid_peers (d_p2p d) \<subseteq> N"

lemma received_neighbors:
  assumes inv: "daemon_inv d" and out: "rx_outcome (d_p2p d) [] res" and run: "received d bytes res = Some (d', effs)"
    and N: "neighbor_inv d N"
  shows "neighbor_inv d' (neighbors N effs)"
proof -
  obtain r bs p evs where res: "res = (r, bs, p, evs)" by (cases res) auto
  have "s_peer_cb (d_p2p d)" using inv by (simp add: daemon_inv_def p2p_inv_def)
  then have valid: "valid_peers p \<subseteq> valid_peers (d_p2p d) \<union> announced evs"
    using out by (simp add: rx_outcome_def res)
  have "valid_peers (d_p2p d') = valid_peers p"
    using run by (auto simp: received_def res valid_peers_def counted_unknown_def split: if_splits)
  moreover have "neighbors N effs = N \<union> rfc4291_addr ` announced evs"
  proof -
    obtain rest where effs: "effs = callback_effects (d_io d) evs @ rest" and "list_all no_neighbor rest"
      using run by (auto simp: received_def res host_writes_def dump_frame_def no_neighbor_def list_all_iff
          split: if_splits option.splits)
    then show ?thesis by (simp add: neighbors_callbacks neighbors_other)
  qed
  ultimately show ?thesis using valid N unfolding neighbor_inv_def by blast
qed

lemma aged_neighbors:
  assumes N: "neighbor_inv d N" and m: "peer_map m = (\<lambda>a. ages cutoff (peer_map (speers (d_p2p d)) a))"
    and removed: "set removed = {p. peer_map (speers (d_p2p d)) (p_addr p) = Some p \<and> p_last_update p < cutoff \<and> p_is_valid p}"
  shows "neighbor_inv (aged d m e) (neighbors N (map (apple_p2p_neighbor_remove io) removed @ [Timer_Again t]))"
proof -
  have "a \<in> valid_peers (d_p2p d)" "a \<notin> p_addr ` set removed" if a: "a \<in> valid_peers (d_p2p (aged d m e))" for a
  proof -
    obtain p where p: "peer_map (speers (d_p2p d)) a = Some p" "p_is_valid p" "\<not> p_last_update p < cutoff"
      using a by (auto simp: valid_peers_def aged_def m ages_def split: option.splits if_splits)
    then show "a \<in> valid_peers (d_p2p d)" by (simp add: valid_peers_def)
    show "a \<notin> p_addr ` set removed" using p by (auto simp: removed)
  qed
  moreover have "neighbors N (map (apple_p2p_neighbor_remove io) removed @ [Timer_Again t]) =
      N - rfc4291_addr ` p_addr ` set removed"
    by (simp add: neighbors_removed neighbors_cons neighbor_step_def)
  moreover from calculation(1,2) have "valid_peers (d_p2p (aged d m e)) \<subseteq> valid_peers (d_p2p d) - p_addr ` set removed"
    by blast
  then have "rfc4291_addr ` valid_peers (d_p2p (aged d m e)) \<subseteq>
      rfc4291_addr ` valid_peers (d_p2p d) - rfc4291_addr ` p_addr ` set removed"
    using image_mono image_set_diff [OF rfc4291_inj] by metis
  ultimately show ?thesis using N unfolding neighbor_inv_def by auto
qed

end
