(* ===== verification/Core_Loop.thy ===== *)
theory Core_Loop
  imports Core_Peers
begin

text \<open>
  The event loop: which events call which handler, the timers that are armed and the kernel's
  neighbours, as a transition relation; the states it can reach and their invariant.
\<close>

section \<open>Events and steps\<close>

datatype event =
    Timer_Fires timer core_env
  | Host_Ready core_env core_env core_env
  | Wlan_Ready core_env "u8 list option"

fun handle_event :: "event \<Rightarrow> daemon_state \<Rightarrow> (daemon_state \<times> effect list) option" where
  "handle_event (Timer_Fires Mif_Timer env) d = apple_p2p_send_mif env d"
| "handle_event (Timer_Fires Psf_Timer env) d = apple_p2p_send_psf env d"
| "handle_event (Timer_Fires Tx_Timer env) d = apple_p2p_send_unicast env d"
| "handle_event (Timer_Fires Tx_Mcast_Timer env) d = apple_p2p_send_multicast env d"
| "handle_event (Timer_Fires Chan_Timer env) d = apple_p2p_switch_channel env d"
| "handle_event (Timer_Fires Peer_Timer env) d = apple_p2p_clean_peers env d"
| "handle_event (Host_Ready env env_m env_u) d = host_device_ready env env_m env_u d"
| "handle_event (Wlan_Ready env packet) d = wlan_device_ready env packet d"

record loop_state =
  l_daemon :: daemon_state
  l_armed :: "timer set"
  l_neighbors :: "u8 list set"

definition armed_step :: "timer set \<Rightarrow> effect \<Rightarrow> timer set" where
  "armed_step A e = (case e of
     Timer_Rearm t _ \<Rightarrow> insert t A | Timer_Again t \<Rightarrow> insert t A | Timer_Start t \<Rightarrow> insert t A | _ \<Rightarrow> A)"

text \<open>A timer that fires stays armed only if it was started with a repeat value.\<close>

definition repeating :: "timer \<Rightarrow> bool" where
  "repeating t \<longleftrightarrow> t = Psf_Timer \<or> t = Peer_Timer"

fun armed_at :: "event \<Rightarrow> timer set \<Rightarrow> timer set" where
  "armed_at (Timer_Fires t env) A = (if repeating t then A else A - {t})"
| "armed_at _ A = A"

fun enabled :: "event \<Rightarrow> timer set \<Rightarrow> bool" where
  "enabled (Timer_Fires t env) A = (t \<in> A)"
| "enabled _ A = True"

definition apply_effects :: "timer set \<Rightarrow> loop_state \<Rightarrow> daemon_state \<times> effect list \<Rightarrow> loop_state" where
  "apply_effects A l = (\<lambda>(d, effs). \<lparr>l_daemon = d, l_armed = foldl armed_step A effs,
     l_neighbors = neighbors (l_neighbors l) effs\<rparr>)"

inductive loop_step :: "loop_state \<Rightarrow> event \<Rightarrow> loop_state \<Rightarrow> bool" where
  step: "enabled ev (l_armed l) \<Longrightarrow> handle_event ev (l_daemon l) = Some res \<Longrightarrow>
    loop_step l ev (apply_effects (armed_at ev (l_armed l)) l res)"

inductive_cases loop_stepE: "loop_step l ev l'"

inductive_simps loop_step_iff: "loop_step l ev l'"

definition loop_start :: "daemon_state \<Rightarrow> loop_state" where
  "loop_start d = \<lparr>l_daemon = d, l_armed = foldl armed_step {} (apple_p2p_schedule d), l_neighbors = {}\<rparr>"

text \<open>The environment behaves as documented.\<close>

fun event_ok :: "event \<Rightarrow> bool" where
  "event_ok (Timer_Fires t env) = clocks_ok env"
| "event_ok (Host_Ready env env_m env_u) = (reads_ok env \<and> clocks_ok env_m \<and> clocks_ok env_u)"
| "event_ok (Wlan_Ready env packet) = rx_ok env"

inductive reachable :: "daemon_state \<Rightarrow> loop_state \<Rightarrow> bool" for d where
  start: "reachable d (loop_start d)"
| later: "reachable d l \<Longrightarrow> event_ok ev \<Longrightarrow> loop_step l ev l' \<Longrightarrow> reachable d l'"

section \<open>The contract between the handlers and the loop\<close>

text \<open>A run is a sequence of events, each taken by one step.\<close>

fun runs :: "('s \<Rightarrow> 'e \<Rightarrow> 's \<Rightarrow> bool) \<Rightarrow> 's \<Rightarrow> 'e list \<Rightarrow> 's \<Rightarrow> bool" where
  "runs step s [] s' \<longleftrightarrow> s' = s"
| "runs step s (e # es) s' \<longleftrightarrow> (\<exists>t. step s e t \<and> runs step t es s')"

lemma runs_append: "runs step s (xs @ ys) s' \<longleftrightarrow> (\<exists>t. runs step s xs t \<and> runs step t ys s')"
  by (induction xs arbitrary: s) auto

text \<open>
  What the loop needs of its handlers: they keep an invariant, and on an enabled event they
  return exactly when the event is one they can handle. What follows holds for runs of any length.
\<close>

locale event_loop =
  fixes step :: "'s \<Rightarrow> 'e \<Rightarrow> 's \<Rightarrow> bool"
    and permitted :: "'e \<Rightarrow> bool"
    and ready :: "'s \<Rightarrow> 'e \<Rightarrow> bool"
    and handled :: "'s \<Rightarrow> 'e \<Rightarrow> bool"
    and invar :: "'s \<Rightarrow> bool"
  assumes keep: "invar s \<Longrightarrow> permitted e \<Longrightarrow> step s e s' \<Longrightarrow> invar s'"
    and progress: "invar s \<Longrightarrow> permitted e \<Longrightarrow> ready s e \<Longrightarrow> (\<exists>s'. step s e s') \<longleftrightarrow> handled s e"
    and deterministic: "step s e s' \<Longrightarrow> step s e s'' \<Longrightarrow> s' = s''"
begin

lemma run_keeps: "runs step s es s' \<Longrightarrow> list_all permitted es \<Longrightarrow> invar s \<Longrightarrow> invar s'"
  by (induction es arbitrary: s) (auto intro: keep)

lemma run_deterministic: "runs step s es s' \<Longrightarrow> runs step s es s'' \<Longrightarrow> s' = s''"
proof (induction es arbitrary: s)
  case (Cons e es)
  from Cons.prems obtain t t' where "step s e t" "runs step t es s'" "step s e t'" "runs step t' es s''" by auto
  with deterministic [of s e t t'] Cons.IH [of t] show ?case by simp
qed simp

lemma run_continues:
  assumes "runs step s es t" and "list_all permitted es" and "invar s" and "permitted e" and "ready t e"
  shows "(\<exists>s'. runs step s (es @ [e]) s') \<longleftrightarrow> handled t e"
proof -
  have "invar t" by (rule run_keeps [OF assms(1-3)])
  have "(\<exists>s'. runs step s (es @ [e]) s') \<longleftrightarrow> (\<exists>s'. step t e s')"
    using assms(1) by (fastforce simp: runs_append dest: run_deterministic [OF assms(1)])
  also have "\<dots> \<longleftrightarrow> handled t e" by (rule progress [OF \<open>invar t\<close> assms(4,5)])
  finally show ?thesis .
qed

end

lemma loop_step_deterministic: "loop_step l ev l' \<Longrightarrow> loop_step l ev l'' \<Longrightarrow> l' = l''"
  by (auto simp: loop_step_iff)

lemma reachable_runs:
  "reachable d l \<longleftrightarrow> (\<exists>evs. list_all event_ok evs \<and> runs loop_step (loop_start d) evs l)"
proof
  assume "reachable d l"
  then show "\<exists>evs. list_all event_ok evs \<and> runs loop_step (loop_start d) evs l"
  proof (induction rule: reachable.induct)
    case start
    show ?case by (rule exI [of _ "[]"]) simp
  next
    case (later l ev l')
    then obtain evs where "list_all event_ok evs" "runs loop_step (loop_start d) evs l" by blast
    with later(2,3) show ?case by (intro exI [of _ "evs @ [ev]"]) (auto simp: runs_append)
  qed
next
  assume "\<exists>evs. list_all event_ok evs \<and> runs loop_step (loop_start d) evs l"
  then obtain evs where "list_all event_ok evs" "runs loop_step (loop_start d) evs l" by blast
  then show "reachable d l"
  proof (induction evs arbitrary: l rule: rev_induct)
    case (snoc ev evs)
    then show ?case by (auto simp: runs_append intro: reachable.later)
  qed (simp add: reachable.start)
qed

section \<open>What a handler leaves behind\<close>

definition rearms :: "timer \<Rightarrow> effect list \<Rightarrow> bool" where
  "rearms t effs \<longleftrightarrow> (\<exists>x. Timer_Rearm t x \<in> set effs) \<or> Timer_Again t \<in> set effs"

lemma armed_mono: "A \<subseteq> foldl armed_step A effs"
proof (induction effs arbitrary: A)
  case (Cons e effs)
  have "A \<subseteq> armed_step A e" by (auto simp: armed_step_def split: effect.split)
  then show ?case using Cons.IH [of "armed_step A e"] by auto
qed simp

lemma armed_rearms: "rearms t effs \<Longrightarrow> t \<in> foldl armed_step A effs"
proof (induction effs arbitrary: A)
  case (Cons e effs)
  show ?case
  proof (cases "t \<in> armed_step A e")
    case True
    then show ?thesis using armed_mono by force
  next
    case False
    then have "rearms t effs" using Cons.prems by (auto simp: rearms_def armed_step_def)
    then show ?thesis using Cons.IH by simp
  qed
qed (simp add: rearms_def)

lemma rearms_simps [simp]:
  "rearms t [] = False" "rearms t (xs @ ys) = (rearms t xs \<or> rearms t ys)"
  "rearms t (Timer_Rearm t' x # ys) = (t = t' \<or> rearms t ys)"
  "rearms t (Timer_Again t' # ys) = (t = t' \<or> rearms t ys)"
  "rearms t (Feed_Event w # ys) = rearms t ys" "rearms t (Neighbor q # ys) = rearms t ys"
  "rearms t (Query_Channel i c # ys) = rearms t ys" "rearms t (Set_Channel i c # ys) = rearms t ys"
  "rearms t (Host_Write bs # ys) = rearms t ys" "rearms t (Inject bs # ys) = rearms t ys"
  by (auto simp: rearms_def)

text \<open>\<open>keeps\<close>: invariant and constants; \<open>still_armed\<close>: what waits has its timer armed, or waited
  before.\<close>

definition keeps :: "daemon_state \<Rightarrow> daemon_state \<Rightarrow> bool" where
  "keeps d d' \<longleftrightarrow> daemon_inv d' \<and> same_node d d'"

lemma injected_other [simp]: "list_all no_neighbor (injected io bs)" "\<not> rearms t (injected io bs)"
  by (simp_all add: injected_def no_neighbor_def rearms_def)

lemma data_sent_other:
  "data_sent io p i b = (p', i', effs) \<Longrightarrow> list_all no_neighbor effs \<and> \<not> rearms t effs"
  by (auto simp: data_sent_def split: if_splits)

lemma no_neighbor_simps [simp]:
  "no_neighbor (Timer_Rearm t x)" "no_neighbor (Timer_Again t)" "no_neighbor (Feed_Event w)"
  "no_neighbor (Host_Write bs)" "no_neighbor (Query_Channel i c)" "no_neighbor (Set_Channel i c)"
  by (simp_all add: no_neighbor_def)

lemma unicast_keeps:
  assumes inv: "daemon_inv d" and env: "clocks_ok env" and run: "apple_p2p_send_unicast env d = Some (d', effs)"
  shows "keeps d d' \<and> d_queue d' = d_queue d \<and> list_all no_neighbor effs \<and>
    valid_peers (d_p2p d') = valid_peers (d_p2p d) \<and> (d_next d' \<noteq> None \<longrightarrow> rearms Tx_Timer effs)"
proof -
  obtain now where now: "clock_time_us (ce_clock env 0) = Some now" using env by (auto simp: clocks_ok_def)
  note run' = run [unfolded send_unicast_correct [OF inv env now]]
  show ?thesis
  proof (cases "d_next d")
    case None
    then show ?thesis using run' inv by (auto simp: keeps_def)
  next
    case (Some b)
    obtain p' i' es where ds: "data_sent (d_io d) (d_p2p d) (d_80211 d) b = (p', i', es)"
      by (rule prod_cases3)
    note k = data_sent_keeps [OF ds] and es = data_sent_other [OF ds]
    show ?thesis
      using run' Some inv k es [of Tx_Timer]
      by (auto simp: unicast_result_def ds Let_def keeps_def daemon_inv_def next_ok_def same_node_def
          valid_peers_def split: if_splits option.splits)
  qed
qed

lemma multicast_keeps:
  assumes inv: "daemon_inv d" and env: "clocks_ok env" and run: "apple_p2p_send_multicast env d = Some (d', effs)"
  shows "keeps d d' \<and> d_next d' = d_next d \<and> list_all no_neighbor effs \<and>
    valid_peers (d_p2p d') = valid_peers (d_p2p d) \<and>
    (ring_list (d_queue d') \<noteq> [] \<longrightarrow> rearms Tx_Mcast_Timer effs)"
proof -
  obtain now where now: "clock_time_us (ce_clock env 0) = Some now" using env by (auto simp: clocks_ok_def)
  note run' = run [unfolded send_multicast_correct [OF inv env now]]
  show ?thesis
  proof (cases "ring_list (d_queue d)")
    case Nil
    then show ?thesis using run' inv by (auto simp: keeps_def)
  next
    case (Cons b bs)
    obtain p' i' es where ds: "data_sent (d_io d) (d_p2p d) (d_80211 d) b = (p', i', es)"
      by (rule prod_cases3)
    note k = data_sent_keeps [OF ds] and es = data_sent_other [OF ds]
    have "queue_inv (d_queue d)" using inv by (simp add: daemon_inv_def)
    note q = queue_get [OF this Cons]
    have qs: "list_all queued_ok bs" using inv Cons by (simp add: daemon_inv_def)
    show ?thesis
      using run' Cons inv k es [of Tx_Mcast_Timer] q(2,3) qs
      by (auto simp: multicast_result_def ds Let_def keeps_def daemon_inv_def same_node_def
          valid_peers_def split: if_splits)
  qed
qed

lemma action_keeps:
  assumes "daemon_inv d"
  shows "keeps d (counted_action d) \<and> d_next (counted_action d) = d_next d \<and>
    d_queue (counted_action d) = d_queue d \<and> valid_peers (d_p2p (counted_action d)) = valid_peers (d_p2p d)"
  using assms by (simp add: keeps_def counted_action_def daemon_inv_def same_node_def valid_peers_def)

lemma switch_keeps:
  assumes inv: "daemon_inv d" and env: "clocks_ok env" and run: "apple_p2p_switch_channel env d = Some (d', effs)"
  shows "keeps d d' \<and> d_next d' = d_next d \<and> d_queue d' = d_queue d \<and> list_all no_neighbor effs \<and>
    valid_peers (d_p2p d') = valid_peers (d_p2p d) \<and> rearms Chan_Timer effs"
proof -
  obtain now where now: "clock_time_us (ce_clock env 0) = Some now" using env by (auto simp: clocks_ok_def)
  show ?thesis
    using run inv unfolding switch_channel_correct [OF inv now]
    by (auto simp: Let_def keeps_def daemon_inv_def p2p_inv_def state_wf_def same_node_def valid_peers_def
        split: if_splits)
qed

lemma flags_and:
  "flags m u AND POLL_NEW_MULTICAST \<noteq> 0 \<longleftrightarrow> m" "flags m u AND POLL_NEW_UNICAST \<noteq> 0 \<longleftrightarrow> u"
  by (cases m; cases u; simp add: flags_def)+

lemma poll_keeps:
  assumes inv: "daemon_inv d" and env: "reads_ok env"
  obtains ms u d1 where "poll_host_device env d = Some (flags (ms \<noteq> []) (u \<noteq> None), d1)" and "keeps d d1"
    and "d_p2p d1 = d_p2p d" and "d_next d1 = (if u = None then d_next d else u)"
    and "ring_list (d_queue d1) = ring_list (d_queue d) @ ms"
proof -
  have "queue_inv (d_queue d)" using inv by (simp add: daemon_inv_def)
  from poll_loop_spec [OF env this, of 0 0] obtain ms u d1 where
    poll: "poll_host_device env d = Some (flags (ms \<noteq> []) (u \<noteq> None), d1)" and res: "poll_result env 0 d ms u d1"
    by (auto simp: poll_host_device_def)
  note f = poll_result_fields [OF res] and r = res [unfolded poll_result_def Let_def]
  have q: "queue_inv (d_queue d1)" "ring_list (d_queue d1) = ring_list (d_queue d) @ ms" using r by blast+
  have "list_all queued_ok ms" using r by (auto simp: queued_ok_def list_all_iff)
  then have "daemon_inv d1"
    using inv q f r by (auto simp: daemon_inv_def next_ok_def split: option.splits)
  moreover have "same_node d d1" using f by (simp add: same_node_def)
  ultimately show thesis using that [OF poll] f q(2) by (simp add: keeps_def)
qed

lemma host_ready_keeps:
  assumes inv: "daemon_inv d" and env: "reads_ok env" "clocks_ok env_m" "clocks_ok env_u"
  shows "\<exists>d' effs. host_device_ready env env_m env_u d = Some (d', effs) \<and> keeps d d' \<and>
    list_all no_neighbor effs \<and> valid_peers (d_p2p d') = valid_peers (d_p2p d) \<and>
    (d_next d' \<noteq> None \<longrightarrow> d_next d \<noteq> None \<or> rearms Tx_Timer effs) \<and>
    (ring_list (d_queue d') \<noteq> [] \<longrightarrow> ring_list (d_queue d) \<noteq> [] \<or> rearms Tx_Mcast_Timer effs)"
proof -
  obtain ms u d1 where poll: "poll_host_device env d = Some (flags (ms \<noteq> []) (u \<noteq> None), d1)"
    and k1: "keeps d d1" and f: "d_p2p d1 = d_p2p d" "d_next d1 = (if u = None then d_next d else u)"
    and q1: "ring_list (d_queue d1) = ring_list (d_queue d) @ ms"
    by (rule poll_keeps [OF inv env(1)])
  have inv1: "daemon_inv d1" and same1: "same_node d d1" using k1 by (simp_all add: keeps_def)
  obtain d2 es2 where m: "(if ms \<noteq> [] then apple_p2p_send_multicast env_m d1 else Some (d1, [])) = Some (d2, es2)"
    and m2: "keeps d1 d2" "d_next d2 = d_next d1" "list_all no_neighbor es2"
      "valid_peers (d_p2p d2) = valid_peers (d_p2p d1)"
      "ring_list (d_queue d2) \<noteq> [] \<longrightarrow> ring_list (d_queue d) \<noteq> [] \<or> rearms Tx_Mcast_Timer es2"
  proof (cases "ms = []")
    case True
    then show thesis using that [of d1 "[]"] q1 inv1 by (simp add: keeps_def)
  next
    case False
    obtain now where "clock_time_us (ce_clock env_m 0) = Some now" using env(2) by (auto simp: clocks_ok_def)
    from send_multicast_correct [OF inv1 env(2) this] obtain d2 es2 where
      run: "apple_p2p_send_multicast env_m d1 = Some (d2, es2)" by fastforce
    show thesis using that [of d2 es2] False run multicast_keeps [OF inv1 env(2) run] by simp
  qed
  have inv2: "daemon_inv d2" using m2(1) by (simp add: keeps_def)
  obtain d3 es3 where n: "(if u \<noteq> None then apple_p2p_send_unicast env_u d2 else Some (d2, [])) = Some (d3, es3)"
    and n2: "keeps d2 d3" "d_queue d3 = d_queue d2" "list_all no_neighbor es3"
      "valid_peers (d_p2p d3) = valid_peers (d_p2p d2)"
      "d_next d3 \<noteq> None \<longrightarrow> d_next d \<noteq> None \<or> rearms Tx_Timer es3"
  proof (cases u)
    case None
    then show thesis using that [of d2 "[]"] inv2 m2(2) f(2) by (simp add: keeps_def)
  next
    case (Some b)
    obtain now where "clock_time_us (ce_clock env_u 0) = Some now" using env(3) by (auto simp: clocks_ok_def)
    from send_unicast_correct [OF inv2 env(3) this] obtain d3 es3 where
      run: "apple_p2p_send_unicast env_u d2 = Some (d3, es3)" by fastforce
    show thesis using that [of d3 es3] Some run unicast_keeps [OF inv2 env(3) run] by simp
  qed
  have "host_device_ready env env_m env_u d = Some (d3, es2 @ es3)"
    using m n by (simp add: host_device_ready_def poll flags_and)
  moreover have "keeps d d3" using same1 m2(1) n2(1) by (auto simp: keeps_def intro: same_node_trans)
  ultimately show ?thesis using m2 n2 f(1) by (intro exI [of _ d3] exI [of _ "es2 @ es3"]) auto
qed

end
