(* ===== verification/Core_System.thy ===== *)
theory Core_System
  imports Core_Loop
begin

text \<open>
  The daemon as a whole: the invariant of the event loop from the initialisation on, and what
  it means for the frames that are sent and for the neighbours in the kernel.
\<close>

section \<open>The invariant of the loop\<close>

definition loop_inv :: "daemon_state \<Rightarrow> loop_state \<Rightarrow> bool" where
  "loop_inv d l \<longleftrightarrow> daemon_inv (l_daemon l) \<and> same_node d (l_daemon l) \<and>
     neighbor_inv (l_daemon l) (l_neighbors l) \<and>
     {Mif_Timer, Psf_Timer, Chan_Timer, Peer_Timer} \<subseteq> l_armed l \<and>
     (d_next (l_daemon l) \<noteq> None \<longrightarrow> Tx_Timer \<in> l_armed l) \<and>
     (ring_list (d_queue (l_daemon l)) \<noteq> [] \<longrightarrow> Tx_Mcast_Timer \<in> l_armed l)"

text \<open>What one handler must leave behind for that: \<open>A\<close> are the timers armed while it runs.\<close>

definition step_ok :: "loop_state \<Rightarrow> timer set \<Rightarrow> daemon_state \<Rightarrow> effect list \<Rightarrow> bool" where
  "step_ok l A d' effs \<longleftrightarrow> keeps (l_daemon l) d' \<and> neighbor_inv d' (neighbors (l_neighbors l) effs) \<and>
     (\<forall>t\<in>{Mif_Timer, Psf_Timer, Chan_Timer, Peer_Timer}. t \<in> A \<or> rearms t effs) \<and>
     (d_next d' \<noteq> None \<longrightarrow> d_next (l_daemon l) \<noteq> None \<and> Tx_Timer \<in> A \<or> rearms Tx_Timer effs) \<and>
     (ring_list (d_queue d') \<noteq> [] \<longrightarrow>
        ring_list (d_queue (l_daemon l)) \<noteq> [] \<and> Tx_Mcast_Timer \<in> A \<or> rearms Tx_Mcast_Timer effs)"

lemma step_ok_inv:
  assumes "loop_inv d l" and ok: "step_ok l A d' effs"
  shows "loop_inv d (apply_effects A l (d', effs))"
proof -
  let ?A = "foldl armed_step A effs"
  have armed: "t \<in> ?A" if "t \<in> A \<or> rearms t effs" for t using that armed_mono armed_rearms by blast
  have "same_node d d'" using assms same_node_trans unfolding loop_inv_def step_ok_def keeps_def by blast
  moreover have "{Mif_Timer, Psf_Timer, Chan_Timer, Peer_Timer} \<subseteq> ?A"
    using ok armed unfolding step_ok_def by blast
  moreover have "d_next d' \<noteq> None \<longrightarrow> Tx_Timer \<in> ?A" "ring_list (d_queue d') \<noteq> [] \<longrightarrow> Tx_Mcast_Timer \<in> ?A"
    using ok armed unfolding step_ok_def by blast+
  ultimately show ?thesis
    using ok unfolding loop_inv_def step_ok_def keeps_def apply_effects_def by simp
qed

lemma neighbor_inv_other:
  "list_all no_neighbor effs \<Longrightarrow> valid_peers (d_p2p d') = valid_peers (d_p2p d) \<Longrightarrow>
    neighbor_inv d N \<Longrightarrow> neighbor_inv d' (neighbors N effs)"
  by (simp add: neighbors_other neighbor_inv_def)

lemma short_name_same: "same_node d d' \<Longrightarrow> short_name d' = short_name d"
  by (simp add: short_name_def same_node_def)

lemma clocks_obtain:
  assumes "clocks_ok env"
  obtains now where "clock_time_us (ce_clock env k) = Some now"
  using assms by (auto simp: clocks_ok_def)

text \<open>The frames a captured packet delivers; more than sixteen overflow the array of the handler.\<close>

definition delivered :: "core_env \<Rightarrow> u8 list \<Rightarrow> daemon_state \<Rightarrow> nat" where
  "delivered env bytes d = (case apple_p2p_rx (ce_rx env) (const_buf bytes) [] (d_p2p d) of
     None \<Rightarrow> 0 | Some (r, bs, p, evs) \<Rightarrow> length bs)"

fun fits :: "event \<Rightarrow> daemon_state \<Rightarrow> bool" where
  "fits (Wlan_Ready env (Some bytes)) d = (delivered env bytes d \<le> 16)"
| "fits _ d = True"

lemma receive_keeps:
  assumes inv: "daemon_inv d" and env: "rx_ok env" and N: "neighbor_inv d N"
  shows "apple_p2p_receive_frame env bytes d = Some (d', effs) \<Longrightarrow> keeps d d' \<and> d_next d' = d_next d \<and>
      d_queue d' = d_queue d \<and> neighbor_inv d' (neighbors N effs)"
    and "apple_p2p_receive_frame env bytes d = None \<longleftrightarrow> 16 < delivered env bytes d"
proof -
  obtain res where rx: "apple_p2p_rx (ce_rx env) (const_buf bytes) [] (d_p2p d) = Some res"
    and out: "rx_outcome (d_p2p d) [] res" and run: "apple_p2p_receive_frame env bytes d = received d bytes res"
    using receive_frame_correct [OF inv env] by blast
  show "apple_p2p_receive_frame env bytes d = None \<longleftrightarrow> 16 < delivered env bytes d"
    by (simp add: run delivered_def rx received_def split: prod.split)
  assume "apple_p2p_receive_frame env bytes d = Some (d', effs)"
  then have "received d bytes res = Some (d', effs)" using run by simp
  from received_keeps [OF inv out this] received_neighbors [OF inv out this N]
  show "keeps d d' \<and> d_next d' = d_next d \<and> d_queue d' = d_queue d \<and> neighbor_inv d' (neighbors N effs)"
    by (simp add: keeps_def)
qed

lemma clean_keeps:
  assumes inv: "daemon_inv d" and env: "clocks_ok env" and N: "neighbor_inv d N"
  shows "\<exists>d' effs. apple_p2p_clean_peers env d = Some (d', effs) \<and> keeps d d' \<and> d_next d' = d_next d \<and>
    d_queue d' = d_queue d \<and> neighbor_inv d' (neighbors N effs) \<and> rearms Peer_Timer effs"
proof -
  obtain now where now: "clock_time_us (ce_clock env 0) = Some now" using env by (rule clocks_obtain)
  let ?cut = "now - ps_timeout (s_peers (d_p2p d))"
  obtain m removed where run: "apple_p2p_clean_peers env d =
      Some (aged d m (adopt (s_election (d_p2p d)) (election_winner (s_election (d_p2p d)) m)),
        map (apple_p2p_neighbor_remove (d_io d)) removed @ [Timer_Again Peer_Timer])"
    and m: "peers_wf m" "peer_map m = (\<lambda>a. ages ?cut (peer_map (speers (d_p2p d)) a))"
    and removed: "set removed = {p. peer_map (speers (d_p2p d)) (p_addr p) = Some p \<and>
      p_last_update p < ?cut \<and> p_is_valid p}"
    using clean_peers_correct [OF inv now] by blast
  show ?thesis
    using run aged_keeps [OF inv m(1) refl] aged_neighbors [OF N m(2) removed] by (simp add: keeps_def)
qed

text \<open>Every handler returns, except when a packet delivers more than sixteen frames, and
  leaves the invariant behind.\<close>

lemma timer_progress:
  assumes inv: "loop_inv d l" and name: "short_name d" and env: "clocks_ok env"
  shows "\<exists>d' effs. handle_event (Timer_Fires t env) (l_daemon l) = Some (d', effs) \<and>
    step_ok l (armed_at (Timer_Fires t env) (l_armed l)) d' effs"
proof -
  let ?d = "l_daemon l"
  have dinv: "daemon_inv ?d" and N: "neighbor_inv ?d (l_neighbors l)" using inv by (simp_all add: loop_inv_def)
  have nm: "short_name ?d" using inv name short_name_same by (auto simp: loop_inv_def)
  obtain now0 now1 now2 where clk: "clock_time_us (ce_clock env 0) = Some now0"
    "clock_time_us (ce_clock env 1) = Some now1" "clock_time_us (ce_clock env 2) = Some now2"
    by (meson env clocks_obtain)
  note act = action_keeps [OF dinv]
  show ?thesis
  proof (cases t)
    case Mif_Timer
    then show ?thesis
      using inv act neighbor_inv_other [OF _ _ N, of _ "counted_action ?d"] neighbor_inv_other [OF _ _ N, of _ ?d]
      by (simp add: send_mif_correct [OF dinv nm env clk] Let_def step_ok_def loop_inv_def repeating_def
          neighbors_cons neighbor_step_def keeps_def)
  next
    case Psf_Timer
    then show ?thesis
      using inv act neighbor_inv_other [OF _ _ N, of _ "counted_action ?d"]
      by (simp add: send_psf_correct [OF dinv nm env clk(1,2)] step_ok_def loop_inv_def repeating_def)
  next
    case Tx_Timer
    obtain d' effs where run: "apple_p2p_send_unicast env ?d = Some (d', effs)"
      using send_unicast_correct [OF dinv env clk(1)] by fastforce
    from unicast_keeps [OF dinv env this] neighbor_inv_other [OF _ _ N, of effs d'] show ?thesis
      using Tx_Timer run inv by (simp add: step_ok_def loop_inv_def repeating_def)
  next
    case Tx_Mcast_Timer
    obtain d' effs where run: "apple_p2p_send_multicast env ?d = Some (d', effs)"
      using send_multicast_correct [OF dinv env clk(1)] by fastforce
    from multicast_keeps [OF dinv env this] neighbor_inv_other [OF _ _ N, of effs d'] show ?thesis
      using Tx_Mcast_Timer run inv by (simp add: step_ok_def loop_inv_def repeating_def)
  next
    case Chan_Timer
    obtain d' effs where run: "apple_p2p_switch_channel env ?d = Some (d', effs)"
      using switch_channel_correct [OF dinv clk(1)] by (fastforce simp: Let_def)
    from switch_keeps [OF dinv env this] neighbor_inv_other [OF _ _ N, of effs d'] show ?thesis
      using Chan_Timer run inv by (simp add: step_ok_def loop_inv_def repeating_def)
  next
    case Peer_Timer
    from clean_keeps [OF dinv env N] obtain d' effs where "apple_p2p_clean_peers env ?d = Some (d', effs)"
      "keeps ?d d'" "d_next d' = d_next ?d" "d_queue d' = d_queue ?d"
      "neighbor_inv d' (neighbors (l_neighbors l) effs)" "rearms Peer_Timer effs" by blast
    then show ?thesis using Peer_Timer inv by (simp add: step_ok_def loop_inv_def repeating_def)
  qed
qed

lemma host_progress:
  assumes inv: "loop_inv d l" and ok: "event_ok (Host_Ready env env_m env_u)"
  shows "\<exists>d' effs. handle_event (Host_Ready env env_m env_u) (l_daemon l) = Some (d', effs) \<and>
    step_ok l (l_armed l) d' effs"
proof -
  have dinv: "daemon_inv (l_daemon l)" and N: "neighbor_inv (l_daemon l) (l_neighbors l)"
    using inv by (simp_all add: loop_inv_def)
  have ok': "reads_ok env" "clocks_ok env_m" "clocks_ok env_u" using ok by simp_all
  obtain d' effs where run: "host_device_ready env env_m env_u (l_daemon l) = Some (d', effs)"
    and k: "keeps (l_daemon l) d'" "list_all no_neighbor effs"
      "valid_peers (d_p2p d') = valid_peers (d_p2p (l_daemon l))"
      "d_next d' \<noteq> None \<longrightarrow> d_next (l_daemon l) \<noteq> None \<or> rearms Tx_Timer effs"
      "ring_list (d_queue d') \<noteq> [] \<longrightarrow> ring_list (d_queue (l_daemon l)) \<noteq> [] \<or> rearms Tx_Mcast_Timer effs"
    using host_ready_keeps [OF dinv ok'] by blast
  then show ?thesis
    using inv neighbor_inv_other [OF k(2,3) N] by (simp add: step_ok_def loop_inv_def) blast
qed

lemma wlan_progress:
  assumes inv: "loop_inv d l" and ok: "event_ok (Wlan_Ready env packet)"
  shows "fits (Wlan_Ready env packet) (l_daemon l) \<longleftrightarrow> handle_event (Wlan_Ready env packet) (l_daemon l) \<noteq> None"
    and "handle_event (Wlan_Ready env packet) (l_daemon l) = Some (d', effs) \<Longrightarrow> step_ok l (l_armed l) d' effs"
proof -
  have dinv: "daemon_inv (l_daemon l)" and N: "neighbor_inv (l_daemon l) (l_neighbors l)"
    using inv by (simp_all add: loop_inv_def)
  have env: "rx_ok env" using ok by simp
  note rx = receive_keeps [OF dinv env N]
  show "fits (Wlan_Ready env packet) (l_daemon l) \<longleftrightarrow> handle_event (Wlan_Ready env packet) (l_daemon l) \<noteq> None"
  proof (cases packet)
    case (Some bytes)
    have "handle_event (Wlan_Ready env packet) (l_daemon l) = None \<longleftrightarrow>
        apple_p2p_receive_frame env bytes (l_daemon l) = None"
      by (cases "apple_p2p_receive_frame env bytes (l_daemon l)") (auto simp: Some wlan_device_ready_def)
    then show ?thesis using rx(2) [of bytes] by (simp only: Some fits.simps not_le [symmetric] not_not)
  qed (simp add: wlan_device_ready_def)
  assume run: "handle_event (Wlan_Ready env packet) (l_daemon l) = Some (d', effs)"
  show "step_ok l (l_armed l) d' effs"
  proof (cases packet)
    case None
    then show ?thesis using run inv dinv by (simp add: wlan_device_ready_def step_ok_def loop_inv_def keeps_def)
  next
    case (Some bytes)
    then obtain effs' where "apple_p2p_receive_frame env bytes (l_daemon l) = Some (d', effs')"
      and effs: "effs = effs' @ [Feed_Event Read_Wlan]"
      using run by (cases "apple_p2p_receive_frame env bytes (l_daemon l)") (auto simp: wlan_device_ready_def)
    from rx(1) [OF this(1)] show ?thesis
      using inv by (simp add: effs step_ok_def loop_inv_def neighbors_cons neighbor_step_def)
  qed
qed

lemma event_progress:
  assumes "loop_inv d l" and "short_name d" and "event_ok ev"
  shows "fits ev (l_daemon l) \<longleftrightarrow> (\<exists>res. handle_event ev (l_daemon l) = Some res)"
    and "handle_event ev (l_daemon l) = Some (d', effs) \<Longrightarrow> step_ok l (armed_at ev (l_armed l)) d' effs"
proof -
  show "fits ev (l_daemon l) \<longleftrightarrow> (\<exists>res. handle_event ev (l_daemon l) = Some res)"
  proof (cases ev)
    case (Timer_Fires t env)
    then show ?thesis using assms timer_progress [of d l env t] by auto
  next
    case (Host_Ready env env_m env_u)
    then show ?thesis using assms host_progress [of d l env env_m env_u] by auto
  next
    case (Wlan_Ready env packet)
    then show ?thesis using assms wlan_progress(1) [of d l env packet] by simp
  qed
  assume run: "handle_event ev (l_daemon l) = Some (d', effs)"
  show "step_ok l (armed_at ev (l_armed l)) d' effs"
  proof (cases ev)
    case (Timer_Fires t env)
    then show ?thesis using assms timer_progress [of d l env t] run by auto
  next
    case (Host_Ready env env_m env_u)
    then show ?thesis using assms host_progress [of d l env env_m env_u] run by auto
  next
    case (Wlan_Ready env packet)
    then show ?thesis using assms wlan_progress(2) [of d l env packet] run by simp
  qed
qed

section \<open>Initialisation\<close>

lemma init_p2p_inv:
  assumes init: "apple_p2p_init_state ok mem hostname self chan now = Some p"
  shows "p2p_inv (p\<lparr>s_peer_cb := True, s_peer_remove_cb := True\<rparr>)" and "valid_peers p = {}"
  using init_state_correct [OF init]
  by (auto simp: p2p_inv_def state_wf_def peers_wf_def valid_peers_def)

lemma init_name:
  assumes init: "apple_p2p_init_state ok mem hostname self chan now = Some p"
    and "length (s_name mem) = 65" and host: "0 \<notin> set hostname" "length hostname \<le> 50"
  shows "c_string (s_name p) = Some hostname"
proof -
  note n = init_state_name [OF init assms(2) host(1)]
  then have c: "cstr (s_name p) = hostname" "length (s_name p) = 65" using host by simp_all
  have "0 \<in> set (s_name p)"
  proof (rule ccontr)
    assume "0 \<notin> set (s_name p)"
    from cstr_eq_self [OF this] c have "length hostname = 65" by simp
    then show False using host(2) by simp
  qed
  then show ?thesis by (simp add: c_string_def c(1))
qed

lemma init_correct:
  assumes "apple_p2p_init env d0 wlan host chan dump = Some (0, d)"
  shows "daemon_inv d" and "d_next d = None" and "ring_list (d_queue d) = []" and "valid_peers (d_p2p d) = {}"
    and "length (s_name (d_p2p d0)) = 65 \<Longrightarrow> 0 \<notin> set (ie_hostname env) \<Longrightarrow>
      length (ie_hostname env) \<le> 50 \<Longrightarrow> short_name d"
    and "i < 16 \<Longrightarrow> ch_sequence (s_channel (d_p2p d)) ! i = chan"
proof -
  obtain io cl err now p q where run: "apple_p2p_init_state (ie_calloc_ok env) (d_p2p d0) (ie_hostname env)
      (if_ether_addr io) chan now = Some p" "circular_buf_init (ie_ring env) 16 = Some q"
    and d: "d = d0\<lparr>d_io := io, d_p2p := p\<lparr>s_peer_cb := True, s_peer_remove_cb := True\<rparr>,
      d_80211 := ieee80211_init_state, d_next := None, d_queue := q, d_dump := dump\<rparr>"
    using assms by (auto simp: apple_p2p_init_def Let_def split: if_splits bind_splits)
  note q = circular_buf_init_inv [OF run(2)] and p = init_p2p_inv [OF run(1)]
  show "daemon_inv d" "d_next d = None" "ring_list (d_queue d) = []"
    using p(1) q by (simp_all add: d daemon_inv_def next_ok_def queue_inv_def)
  show "valid_peers (d_p2p d) = {}" using p(2) by (simp add: d valid_peers_def)
  show "i < 16 \<Longrightarrow> ch_sequence (s_channel (d_p2p d)) ! i = chan" using init_state_correct [OF run(1)] by (simp add: d)
  assume "length (s_name (d_p2p d0)) = 65" "0 \<notin> set (ie_hostname env)" "length (ie_hostname env) \<le> 50"
  from init_name [OF run(1) this] show "short_name d" using \<open>length (ie_hostname env) \<le> 50\<close>
    by (simp add: short_name_def d)
qed

lemma start_inv:
  assumes "daemon_inv d" and "d_next d = None" and "ring_list (d_queue d) = []" and "valid_peers (d_p2p d) = {}"
  shows "loop_inv d (loop_start d)"
  using assms by (simp add: loop_inv_def loop_start_def apple_p2p_schedule_def armed_step_def Let_def neighbor_inv_def)

interpretation daemon_loop: event_loop loop_step event_ok "\<lambda>l ev. enabled ev (l_armed l)"
  "\<lambda>l ev. fits ev (l_daemon l)" "\<lambda>l. loop_inv d l \<and> short_name d" for d
proof
  fix l ev l'
  assume inv: "loop_inv d l \<and> short_name d" and ok: "event_ok ev" and step: "loop_step l ev l'"
  then obtain d' effs where run: "handle_event ev (l_daemon l) = Some (d', effs)"
    and l': "l' = apply_effects (armed_at ev (l_armed l)) l (d', effs)"
    by (auto elim!: loop_stepE)
  from event_progress(2) [OF _ _ ok run] inv have "step_ok l (armed_at ev (l_armed l)) d' effs" by blast
  from step_ok_inv [OF _ this] inv show "loop_inv d l' \<and> short_name d" unfolding l' by blast
next
  fix l ev
  assume inv: "loop_inv d l \<and> short_name d" and ok: "event_ok ev" and ready: "enabled ev (l_armed l)"
  have "(\<exists>l'. loop_step l ev l') \<longleftrightarrow> (\<exists>res. handle_event ev (l_daemon l) = Some res)"
    using ready by (simp add: loop_step_iff)
  then show "(\<exists>l'. loop_step l ev l') \<longleftrightarrow> fits ev (l_daemon l)"
    using event_progress(1) [OF _ _ ok] inv by blast
qed (rule loop_step_deterministic)

lemma reachable_loop_inv:
  assumes "reachable d l" and "loop_inv d (loop_start d)" and "short_name d"
  shows "loop_inv d l"
  using assms daemon_loop.run_keeps [of "loop_start d" _ l d] by (auto simp: reachable_runs)

section \<open>A run\<close>

text \<open>A successful initialisation and a first step, to instantiate properties with.\<close>

definition sample_init_at :: "ether_addr \<Rightarrow> init_env" where
  "sample_init_at a = \<lparr>ie_netutils = 0, ie_pcap = sample_pcap, ie_tun = sample_tun,
     ie_link = sample_link\<lparr>lr_ether_addr := (\<lambda>_. (0, a))\<rparr>,
     ie_gethostname = (0, 0), ie_hostname = bytes_of ''phone'', ie_clock = Some (1, 0),
     ie_calloc_ok = (\<lambda>n. n \<le> 4096), ie_ring = (\<lambda>_. const_buf [])\<rparr>"

definition sample_init :: init_env where
  "sample_init = sample_init_at (EtherAddr 2 0 0 0 0 1)"

lemma sample_clocks_ok: "clocks_ok (sample_core_env 0 reads)"
  by (simp add: clocks_ok_def sample_core_env_def clock_time_us_def)

lemma sample_init_name:
  "length (s_name (d_p2p (sample_daemon m))) = 65" "0 \<notin> set (ie_hostname (sample_init_at a))"
  "length (ie_hostname (sample_init_at a)) \<le> 50"
  by (simp_all add: sample_daemon_def sample_state_def sample_init_at_def bytes_of_def)

lemma sample_init_at_runs:
  obtains m d where "apple_p2p_init (sample_init_at a) (sample_daemon m) [119] [104] chan dump = Some (0, d)"
    and "\<not> wlan_is_file (d_io d)" and "wlan_handle (d_io d) \<noteq> None" and "host_fd (d_io d) \<noteq> 0"
    and "ch_current (s_channel (d_p2p d)) = CHAN_NULL" and "s_self_address (d_p2p d) = a"
    and "s_sync (d_p2p d) = apple_p2p_sync_state_init 1000000"
    and "apple_p2p_peers_init (\<lambda>n. n \<le> 4096) = Some (speers (d_p2p d))"
proof -
  fix m0
  let ?d0 = "sample_daemon m0" and ?link = "sample_link\<lparr>lr_ether_addr := (\<lambda>_. (0, a))\<rparr>"
  obtain m where m: "apple_p2p_peers_init (\<lambda>n. n \<le> 4096) = Some m" by (rule empty_peers)
  obtain q where q: "circular_buf_init (\<lambda>_. const_buf []) 16 = Some q"
    by (simp add: circular_buf_init_def circular_buf_reset_def circular_buf_empty_def)
  obtain io cl where io: "io_state_init sample_pcap sample_tun ?link sample_io [119] [104] APPLE_P2P_BSSID = Some (0, io, cl)"
    and live: "\<not> wlan_is_file io" "wlan_handle io \<noteq> None" "host_fd io \<noteq> 0" "if_ether_addr io = a"
    by (simp add: io_state_init_def io_state_init_wlan_def io_state_init_wlan_try_savefile_def open_savefile_def
        io_state_init_host_def open_tun_def open_nonblocking_device_def sample_pcap_def sample_tun_def
        sample_link_def sample_io_def)
  obtain p where p: "apple_p2p_init_state (\<lambda>n. n \<le> 4096) (d_p2p ?d0) (bytes_of ''phone'') (if_ether_addr io)
      chan 1000000 = Some p"
    and fields: "ch_current (s_channel p) = CHAN_NULL" "s_self_address p = a"
      "s_sync p = apple_p2p_sync_state_init 1000000" "speers p = m"
    using m live(4) by (simp add: apple_p2p_init_state_def apple_p2p_peer_state_init_def)
  have sd: "d_io ?d0 = sample_io" "clock_time_us (Some (1, 0)) = Some 1000000"
    by (simp_all add: sample_daemon_def clock_time_us_def)
  obtain d where run: "apple_p2p_init (sample_init_at a) ?d0 [119] [104] chan dump = Some (0, d)"
    and d: "d_io d = io" "d_p2p d = p\<lparr>s_peer_cb := True, s_peer_remove_cb := True\<rparr>"
    using p by (simp add: apple_p2p_init_def sample_init_at_def io q sd get_hostname_def Let_def)
  show thesis using that [OF run] live fields m unfolding d by simp
qed

lemma sample_init_runs:
  obtains m d where "apple_p2p_init sample_init (sample_daemon m) [119] [104] chan dump = Some (0, d)"
    and "\<not> wlan_is_file (d_io d)" and "ch_current (s_channel (d_p2p d)) = CHAN_NULL"
proof (rule sample_init_at_runs)
  fix m d
  assume "apple_p2p_init (sample_init_at (EtherAddr 2 0 0 0 0 1)) (sample_daemon m) [119] [104] chan dump = Some (0, d)"
    and "\<not> wlan_is_file (d_io d)" and "ch_current (s_channel (d_p2p d)) = CHAN_NULL"
  then show thesis using that by (simp add: sample_init_def)
qed

lemma tx_timer_step:
  assumes inv: "daemon_inv d" and none: "d_next d = None"
  shows "\<exists>l. reachable d l \<and> Tx_Timer \<notin> l_armed l"
proof -
  let ?env = "sample_core_env 0 []" and ?ev = "Timer_Fires Tx_Timer (sample_core_env 0 [])"
  obtain now where now: "clock_time_us (ce_clock ?env 0) = Some now" using sample_clocks_ok by (rule clocks_obtain)
  let ?l = "apply_effects (armed_at ?ev (l_armed (loop_start d))) (loop_start d) (d, [Feed_Event Read_Host])"
  have armed: "Tx_Timer \<in> l_armed (loop_start d)"
    by (simp add: loop_start_def apple_p2p_schedule_def armed_step_def Let_def)
  have "handle_event ?ev (l_daemon (loop_start d)) = Some (d, [Feed_Event Read_Host])"
    using send_unicast_correct [OF inv sample_clocks_ok now] none by (simp add: loop_start_def)
  with loop_step.step [of ?ev "loop_start d"] armed have "loop_step (loop_start d) ?ev ?l" by simp
  moreover have "event_ok ?ev" by (simp add: sample_clocks_ok)
  ultimately have "reachable d ?l" by (rule reachable.later [OF reachable.start, rotated])
  moreover have out: "Tx_Timer \<notin> l_armed ?l" by (simp add: apply_effects_def repeating_def armed_step_def)
  ultimately show ?thesis by blast
qed

end
