(* ===== verification/Core_Specs.thy ===== *)
theory Core_Specs
  imports Core_System
begin

text \<open>
  What the handlers promise: when frames leave the node and which, what the clean-up does to
  peers, neighbours and the election, and what a received packet does.
\<close>

lemma div_mod_nat: "(x :: nat) div a mod b = x mod (a * b) div a"
proof (cases "a = 0")
  case False
  have "x mod (a * b) = a * (x div a mod b) + x mod a" by (rule mod_mult2_eq)
  then show ?thesis using False by simp
qed simp

section \<open>A daemon with a peer\<close>

text \<open>A daemon that knows one peer on its own channel, and frames for the peer and for a group.\<close>

definition sample_frame :: "u8 \<Rightarrow> buf" where
  "sample_frame first = const_buf ([first, 0, 0, 0, 0, 3] @ [2, 0, 0, 0, 0, 1] @ [0x86, 0xdd] @ [1, 2, 3])"

definition unicast_daemon :: "peers_table \<Rightarrow> daemon_state" where
  "unicast_daemon m = (sample_daemon m)\<lparr>d_next := Some (sample_frame 2)\<rparr>"

definition multicast_daemon :: "peers_table \<Rightarrow> daemon_state" where
  "multicast_daemon m = (sample_daemon m)\<lparr>d_queue := circular_buf_put sample_queue (sample_frame 51)\<rparr>"

lemma sample_frame_ok:
  "host_frame (sample_frame n)" "frame_dst (sample_frame n) = EtherAddr n 0 0 0 0 3" "b_len (sample_frame n) = 17"
  "group_bytes (buf_view (sample_frame n)) \<longleftrightarrow> n AND 1 \<noteq> 0"
  by (simp_all add: sample_frame_def host_frame_def frame_dst_def group_bytes_def b_len_view)

lemma sample_peer_table:
  obtains m where "peers_wf m" and "peer_map m = [EtherAddr 2 0 0 0 0 3 \<mapsto> sample_peer 3]"
proof -
  obtain m p where m: "peers_wf m" "peer_map m = [EtherAddr 2 0 0 0 0 3 \<mapsto> p]" by (rule known_peer)
  then have "peers_inv m" "peer_map m (EtherAddr 2 0 0 0 0 3) = Some p" by (simp_all add: peers_wf_def)
  moreover have "p_addr (sample_peer 3) = EtherAddr 2 0 0 0 0 3" by (simp add: sample_peer_def)
  ultimately have w: "peers_inv (peer_write m (EtherAddr 2 0 0 0 0 3) (sample_peer 3))"
    "peer_map (peer_write m (EtherAddr 2 0 0 0 0 3) (sample_peer 3)) = (peer_map m)(EtherAddr 2 0 0 0 0 3 \<mapsto> sample_peer 3)"
    by (rule peer_write_spec)+
  moreover have "peer_wf (sample_peer 3)" by (simp add: peer_wf_def sample_peer_def bytes_of_def)
  ultimately show thesis using m(2) by (intro that) (auto simp: peers_wf_def)
qed

lemma sample_daemon_fields:
  "speers (d_p2p (sample_daemon m)) = m" "s_sync (d_p2p (sample_daemon m)) = apple_p2p_sync_state_init 0"
  "s_self_address (d_p2p (sample_daemon m)) = EtherAddr 2 0 0 0 0 1" "wlan_handle (d_io (sample_daemon m)) = Some (Live [119])"
  "d_next (sample_daemon m) = None" "d_queue (sample_daemon m) = sample_queue"
  by (simp_all add: sample_daemon_def sample_state_def sample_io_def)

lemma sample_inv:
  assumes "peers_wf m"
  shows "daemon_inv (sample_daemon m)" and "daemon_inv (unicast_daemon m)" and "daemon_inv (multicast_daemon m)"
    and "ring_list (d_queue (multicast_daemon m)) = [sample_frame 51]"
proof -
  have "state_wf (sample_state m)" using assms by (simp add: peers_wf_def sample_state_wf)
  then have p: "p2p_inv (d_p2p (sample_daemon m))"
    using assms by (simp add: sample_daemon_def p2p_inv_def state_wf_def sample_state_def sample_election_def)
  then show "daemon_inv (sample_daemon m)" "daemon_inv (unicast_daemon m)"
    by (simp_all add: daemon_inv_def next_ok_def sample_queue_inv unicast_daemon_def sample_daemon_fields sample_frame_ok)
  have "queue_inv (circular_buf_put sample_queue (sample_frame 51))"
    "ring_list (circular_buf_put sample_queue (sample_frame 51)) = [sample_frame 51]"
    using queue_facts(1,5) [OF sample_queue_inv(1), of "sample_frame 51"] queue_facts(2) [OF sample_queue_inv(1)]
      sample_queue_inv by simp_all
  then show "daemon_inv (multicast_daemon m)" "ring_list (d_queue (multicast_daemon m)) = [sample_frame 51]"
    using p by (simp_all add: daemon_inv_def next_ok_def multicast_daemon_def sample_daemon_fields queued_ok_def sample_frame_ok)
qed

lemma sample_clock: "clocks_ok (sample_core_env n [])" "clock_time_us (ce_clock (sample_core_env n []) k) = Some (word_of_int (1000000 + n div 1000))"
  by (simp_all add: clocks_ok_def sample_core_env_def clock_time_us_def)

section \<open>Unicast\<close>

lemma unicast_retry_pos: "delay \<noteq> 0 \<Longrightarrow> 0 < unicast_retry delay"
  by (auto simp: unicast_retry_def)

lemma multicast_retry_pos: "0 < multicast_retry delay"
  by (auto simp: multicast_retry_def)

lemma in_injected:
  "Inject bs \<in> set (injected io x) \<longleftrightarrow> wlan_handle io \<noteq> None \<and> bs = x" "Host_Write bs \<notin> set (injected io x)"
  by (auto simp: injected_def)

lemma send_zero_same_channel:
  "apple_p2p_can_send_unicast_in p2p p now g = 0 \<Longrightarrow> daemon_inv d \<Longrightarrow> d_p2p d = p2p \<Longrightarrow>
    apple_p2p_same_channel_as_peer p2p now p"
  using next_aw_position [of p2p now] position_less [of p2p now]
  by (auto simp: apple_p2p_can_send_unicast_in_def Let_def usec_to_sec_def daemon_inv_def p2p_inv_def state_wf_def
      split: if_splits)

text \<open>C18: a unicast frame of the host is put on the air only for a peer in the table, and only
  at a time when the node and that peer are on the same channel, as exactly the data frame for
  its source, destination and payload. Otherwise it is handed back to the host when it is
  addressed to the node, dropped when there is no such peer, or kept with a retry after a
  positive time. It never remains without a timer, and nothing else is sent.\<close>

theorem send_unicast_spec:
  assumes "daemon_inv d" and "clocks_ok env" and "clock_time_us (ce_clock env 0) = Some now" and "d_next d = Some b"
  shows "\<exists>d' effs. apple_p2p_send_unicast env d = Some (d', effs) \<and>
    (d_next d' = Some b \<and> d' = d \<and> (\<exists>x. 0 < x \<and> effs = [Timer_Rearm Tx_Timer x]) \<and>
       frame_dst b \<noteq> s_self_address (d_p2p d) \<and> (\<exists>p. peer_map (speers (d_p2p d)) (frame_dst b) = Some p \<and>
         apple_p2p_can_send_unicast_in (d_p2p d) p now APPLE_P2P_UNICAST_GUARD_TU \<noteq> 0) \<or>
     d_next d' = None \<and> Feed_Event Read_Host \<in> set effs \<and>
       {bs. Host_Write bs \<in> set effs} = (if frame_dst b = s_self_address (d_p2p d) \<and> host_fd (d_io d) \<noteq> 0
          then {buf_view b} else {}) \<and>
       {bs. Inject bs \<in> set effs} \<subseteq> {data_bytes_of (d_p2p d) (d_80211 d) b} \<and>
       ((\<exists>bs. Inject bs \<in> set effs) \<longleftrightarrow> frame_dst b \<noteq> s_self_address (d_p2p d) \<and> 14 \<le> b_len b \<and>
          wlan_handle (d_io d) \<noteq> None \<and> (\<exists>p. peer_map (speers (d_p2p d)) (frame_dst b) = Some p \<and>
            apple_p2p_can_send_unicast_in (d_p2p d) p now APPLE_P2P_UNICAST_GUARD_TU = 0 \<and>
            apple_p2p_same_channel_as_peer (d_p2p d) now p)))"
proof -
  note run = send_unicast_correct [OF assms(1-3)]
  show ?thesis
  proof (cases "frame_dst b = s_self_address (d_p2p d)")
    case True
    then show ?thesis unfolding run by (auto simp: assms(4) unicast_result_def)
  next
    case other: False
    show ?thesis
    proof (cases "peer_map (speers (d_p2p d)) (frame_dst b)")
      case None
      then show ?thesis using other unfolding run by (auto simp: assms(4) unicast_result_def)
    next
      case (Some p)
      let ?delay = "apple_p2p_can_send_unicast_in (d_p2p d) p now APPLE_P2P_UNICAST_GUARD_TU"
      have same: "?delay = 0 \<Longrightarrow> apple_p2p_same_channel_as_peer (d_p2p d) now p"
        using send_zero_same_channel assms(1) by blast
      show ?thesis
      proof (cases "?delay = 0")
        case True
        then show ?thesis
          using other same in_injected unfolding run
          by (auto simp: assms(4) unicast_result_def Some data_sent_def Let_def)
      next
        case False
        then show ?thesis using other unicast_retry_pos unfolding run by (auto simp: assms(4) unicast_result_def Some)
      qed
    qed
  qed
qed

theorem send_unicast_spec_witness:
  "\<exists>m d' effs. apple_p2p_send_unicast (sample_core_env 0 []) (unicast_daemon m) = Some (d', effs) \<and>
     d_next d' = None \<and> (\<exists>bs. Inject bs \<in> set effs)"
proof -
  obtain m where m: "peers_wf m" "peer_map m = [EtherAddr 2 0 0 0 0 3 \<mapsto> sample_peer 3]" by (rule sample_peer_table)
  let ?d = "unicast_daemon m"
  have sd: "d_p2p ?d = d_p2p (sample_daemon m)" "d_io ?d = d_io (sample_daemon m)" "d_next ?d = Some (sample_frame 2)"
    by (simp_all add: unicast_daemon_def)
  have same: "apple_p2p_same_channel_as_peer (d_p2p ?d) t (sample_peer 3)" for t
    by (rule same_channel_static [where c = CHAN_OPCLASS_149])
      (simp_all add: unicast_daemon_def sample_daemon_def sample_state_def sample_peer_def apple_p2p_chan_num_def CHAN_OPCLASS_149_def)
  then have zero: "apple_p2p_can_send_unicast_in (d_p2p ?d) (sample_peer 3) now g = 0" for now g
    by (simp add: apple_p2p_can_send_unicast_in_def Let_def)
  have f: "frame_dst (sample_frame 2) \<noteq> s_self_address (d_p2p ?d)" "14 \<le> b_len (sample_frame 2)"
    "wlan_handle (d_io ?d) \<noteq> None" "peer_map (speers (d_p2p ?d)) (frame_dst (sample_frame 2)) = Some (sample_peer 3)"
    using m(2) by (simp_all add: sd sample_daemon_fields sample_frame_ok)
  then have now_or_never: "apple_p2p_can_send_unicast_in (d_p2p ?d) p now g = 0"
    if "peer_map (speers (d_p2p ?d)) (frame_dst (sample_frame 2)) = Some p" for p now g
    using that zero by simp
  from send_unicast_spec [OF sample_inv(2) [OF m(1)] sample_clock [of 0] sd(3)] obtain d' effs where
    "apple_p2p_send_unicast (sample_core_env 0 []) ?d = Some (d', effs)" "d_next d' = None"
    "\<exists>bs. Inject bs \<in> set effs"
    using f zero same now_or_never by blast
  then show ?thesis by blast
qed

section \<open>Multicast\<close>

lemma can_send_zero:
  assumes "sync_wf (s_sync p)"
  shows "apple_p2p_can_send_in p now 16 = 0 \<longleftrightarrow> 16384 \<le> position p now \<and> position p now \<le> 49152"
proof -
  define r where "r = apple_p2p_can_send_in p now 16"
  have "r * 1000000 = (if 65536 - position p now < 16384 then of_nat (65536 - position p now) - 16384
      else if position p now < 16384 then 16384 - of_nat (position p now) else 0)"
    using can_send_in_position [OF assms, of 16 now] by (simp add: r_def)
  moreover have "(of_nat (65536 - position p now) :: rat) < 16384 \<longleftrightarrow> 65536 - position p now < 16384"
    "(of_nat (position p now) :: rat) < 16384 \<longleftrightarrow> position p now < 16384"
    by (metis of_nat_less_iff of_nat_numeral)+
  ultimately have "r = 0 \<longleftrightarrow> \<not> 65536 - position p now < 16384 \<and> \<not> position p now < 16384"
    by (auto split: if_splits)
  then show ?thesis using position_less [of p now] unfolding r_def by linarith
qed

text \<open>When multicast frames may be sent: slot 0 or 10, 16 time units off the borders.\<close>

definition mcast_window :: "apple_p2p_state \<Rightarrow> u64 \<Rightarrow> bool" where
  "mcast_window p now \<longleftrightarrow> unat (apple_p2p_sync_current_eaw now (s_sync p)) mod 16 \<in> {0, 10} \<and>
     16384 \<le> position p now \<and> position p now \<le> 49152"

lemma window_iff:
  assumes "daemon_inv d"
  shows "apple_p2p_is_multicast_eaw (d_p2p d) now \<and>
      apple_p2p_can_send_in (d_p2p d) now APPLE_P2P_MULTICAST_GUARD_TU = 0 \<longleftrightarrow> mcast_window (d_p2p d) now"
proof -
  have "sync_wf (s_sync (d_p2p d))" using assms by (simp add: daemon_inv_def p2p_inv_def state_wf_def)
  from can_send_zero [OF this, of now] show ?thesis
    by (simp add: mcast_window_def apple_p2p_is_multicast_eaw_def Let_def)
qed

lemma multicast_shut:
  assumes "daemon_inv d" and "clocks_ok env" and "clock_time_us (ce_clock env 0) = Some now"
    and "ring_list (d_queue d) = b # bs" and "\<not> mcast_window (d_p2p d) now"
  shows "apple_p2p_send_multicast env d = Some (d, [Timer_Rearm Tx_Mcast_Timer
    (multicast_retry (apple_p2p_can_send_in (d_p2p d) now APPLE_P2P_MULTICAST_GUARD_TU))])"
  using assms(4,5) window_iff [OF assms(1), of now]
  by (simp add: send_multicast_correct [OF assms(1-3)] multicast_result_def Let_def)

lemma multicast_open:
  assumes "daemon_inv d" and "clocks_ok env" and "clock_time_us (ce_clock env 0) = Some now"
    and "ring_list (d_queue d) = b # bs" and "mcast_window (d_p2p d) now"
  shows "\<exists>d' effs. apple_p2p_send_multicast env d = Some (d', effs) \<and> ring_list (d_queue d') = bs \<and>
    {f. Inject f \<in> set effs} = (if 14 \<le> b_len b \<and> wlan_handle (d_io d) \<noteq> None
      then {data_bytes_of (d_p2p d) (d_80211 d) b} else {}) \<and>
    (if bs = [] then Feed_Event Read_Host \<in> set effs else Timer_Rearm Tx_Mcast_Timer 0 \<in> set effs)"
proof -
  have "queue_inv (d_queue d)" using assms(1) by (simp add: daemon_inv_def)
  note rest = queue_get(3) [OF this assms(4)]
  show ?thesis
    using rest assms(4,5) window_iff [OF assms(1), of now]
    by (auto simp: send_multicast_correct [OF assms(1-3)] multicast_result_def data_sent_def injected_def Let_def)
qed

text \<open>C19: the oldest frame of the multicast queue is put on the air only in slot 0 or 10 and at
  least 16 time units away from both borders of the window; it leaves the queue from the front
  and its bytes are the data frame for its source, destination and payload. In every other case
  nothing is sent, nothing is lost, and the handler runs again after a positive time. After a
  frame was sent it runs again at once if there are more, or asks the host for more.\<close>

theorem send_multicast_spec:
  assumes "daemon_inv d" and "clocks_ok env" and "clock_time_us (ce_clock env 0) = Some now"
    and "ring_list (d_queue d) = b # bs"
  shows "\<exists>d' effs. apple_p2p_send_multicast env d = Some (d', effs) \<and>
    (if mcast_window (d_p2p d) now
     then ring_list (d_queue d') = bs \<and>
       {f. Inject f \<in> set effs} = (if 14 \<le> b_len b \<and> wlan_handle (d_io d) \<noteq> None
         then {data_bytes_of (d_p2p d) (d_80211 d) b} else {}) \<and>
       (if bs = [] then Feed_Event Read_Host \<in> set effs else Timer_Rearm Tx_Mcast_Timer 0 \<in> set effs)
     else d' = d \<and> (\<exists>x. 0 < x \<and> effs = [Timer_Rearm Tx_Mcast_Timer x]))"
proof (cases "mcast_window (d_p2p d) now")
  case True
  then show ?thesis using multicast_open [OF assms] by presburger
next
  case False
  then show ?thesis using multicast_shut [OF assms] multicast_retry_pos by auto
qed

lemma sample_window:
  assumes "t < 2 ^ 40"
  shows "mcast_window (d_p2p (multicast_daemon m)) (word_of_int (int t)) \<longleftrightarrow>
    t mod 65536 \<in> {16384..49152} \<and> t div 65536 mod 16 \<in> {0, 10}"
proof -
  have sync: "s_sync (d_p2p (multicast_daemon m)) = apple_p2p_sync_state_init 0"
    by (simp add: multicast_daemon_def sample_daemon_fields)
  have "unat (word_of_nat t :: u64) = t" using assms by (simp add: unat_of_nat)
  moreover have "t div 16384 mod 65536 div 4 mod 16 = t div 65536 mod 16"
    using div_mod_nat [of "t div 16384" 4 16] div_mod_nat [of "t div 16384 mod 65536" 4 16]
    by (simp add: div_mult2_eq [symmetric] mod_mod_cancel)
  ultimately show ?thesis
    using current_eaw_nat [where s = "apple_p2p_sync_state_init 0" and now = "word_of_nat t"]
    by (auto simp: mcast_window_def sync position_def)
qed

theorem send_multicast_spec_witness:
  "\<exists>m d' effs. apple_p2p_send_multicast (sample_core_env 65536000 []) (multicast_daemon m) = Some (d', effs) \<and>
     ring_list (d_queue d') = [] \<and> Feed_Event Read_Host \<in> set effs"
proof -
  obtain m where m: "peers_wf m" by (rule sample_peer_table)
  have "mcast_window (d_p2p (multicast_daemon m)) (word_of_int (1000000 + 65536000 div 1000))"
    using sample_window [of 1065536 m] by simp
  with send_multicast_spec [OF sample_inv(3) [OF m] sample_clock [of 65536000] sample_inv(4) [OF m]]
  show ?thesis by auto
qed

section \<open>Clean-up\<close>

text \<open>C20: the clean-up removes exactly the peers last heard before the cutoff (the current time
  minus the timeout, modulo \<open>2 ^ 64\<close>), withdraws the neighbour of each removed peer that was
  valid and of no other, and keeps the rest of the table. The election that follows runs on the
  peers that remain: the node becomes its own master or follows a valid peer that is still in
  the table, the tree height stays within its limit, and the timer is started again.\<close>

theorem clean_peers_spec:
  assumes "daemon_inv d" and "clock_time_us (ce_clock env 0) = Some now"
  shows "\<exists>m e removed. apple_p2p_clean_peers env d = Some (aged d m e,
      map (apple_p2p_neighbor_remove (d_io d)) removed @ [Timer_Again Peer_Timer]) \<and>
    (\<forall>a. peer_map m a = ages (now - ps_timeout (s_peers (d_p2p d))) (peer_map (speers (d_p2p d)) a)) \<and>
    distinct (map p_addr removed) \<and>
    set removed = {p. peer_map (speers (d_p2p d)) (p_addr p) = Some p \<and> p_is_valid p \<and>
      p_last_update p < now - ps_timeout (s_peers (d_p2p d))} \<and>
    e_height e \<le> APPLE_P2P_ELECTION_TREE_MAX_HEIGHT \<and>
    (e = apple_p2p_election_reset_self (s_election (d_p2p d)) \<or>
      (\<exists>q. peer_map m (p_addr q) = Some q \<and> p_is_valid q \<and> e_sync_addr e = e_self_addr (p_election q)))"
proof -
  from clean_peers_correct [OF assms] obtain m removed where
    "apple_p2p_clean_peers env d = Some (aged d m (adopt (s_election (d_p2p d)) (election_winner (s_election (d_p2p d)) m)),
        map (apple_p2p_neighbor_remove (d_io d)) removed @ [Timer_Again Peer_Timer])"
    and "peers_wf m"
    and "peer_map m = (\<lambda>a. ages (now - ps_timeout (s_peers (d_p2p d))) (peer_map (speers (d_p2p d)) a))"
    and "distinct (map p_addr removed)"
    and "set removed = {p. peer_map (speers (d_p2p d)) (p_addr p) = Some p \<and>
      p_last_update p < now - ps_timeout (s_peers (d_p2p d)) \<and> p_is_valid p}"
    by blast
  moreover from this(2) have "peers_inv m" by (simp add: peers_wf_def)
  note adopt_winner_safe [OF this, of "s_election (d_p2p d)"]
  ultimately show ?thesis
    by (intro exI [of _ m] exI [of _ "adopt (s_election (d_p2p d)) (election_winner (s_election (d_p2p d)) m)"]
        exI [of _ removed]) auto
qed

theorem clean_peers_spec_witness:
  "\<exists>m d' n. apple_p2p_clean_peers (sample_core_env 990000000 []) ((sample_daemon m)\<lparr>d_p2p := (d_p2p (sample_daemon m))
       \<lparr>s_peers := (s_peers (d_p2p (sample_daemon m)))\<lparr>ps_timeout := 5\<rparr>\<rparr>\<rparr>) = Some (d', [Neighbor n, Timer_Again Peer_Timer])"
proof -
  obtain m where m: "peers_wf m" "peer_map m = [EtherAddr 2 0 0 0 0 3 \<mapsto> sample_peer 3]" by (rule sample_peer_table)
  let ?d = "(sample_daemon m)\<lparr>d_p2p := (d_p2p (sample_daemon m))
    \<lparr>s_peers := (s_peers (d_p2p (sample_daemon m)))\<lparr>ps_timeout := 5\<rparr>\<rparr>\<rparr>"
  have inv: "daemon_inv ?d"
    using sample_inv(1) [OF m(1)] by (simp add: daemon_inv_def p2p_inv_def state_wf_def)
  have "{p. peer_map (speers (d_p2p ?d)) (p_addr p) = Some p \<and> p_is_valid p \<and>
      p_last_update p < word_of_int (1000000 + 990000000 div 1000) - ps_timeout (s_peers (d_p2p ?d))} = {sample_peer 3}"
    using m(2) by (auto simp: sample_daemon_fields sample_peer_def split: if_splits)
  with clean_peers_spec [OF inv sample_clock(2) [of 990000000]] obtain m' e removed where
    run: "apple_p2p_clean_peers (sample_core_env 990000000 []) ?d = Some (aged ?d m' e,
      map (apple_p2p_neighbor_remove (d_io ?d)) removed @ [Timer_Again Peer_Timer])"
    and r: "set removed = {sample_peer 3}" "distinct (map p_addr removed)"
    by auto
  from r have "length removed = 1"
    using distinct_card [of removed] distinct_map [of p_addr removed] by simp
  then have "removed = [sample_peer 3]" using r(1) by (cases removed) auto
  with run show ?thesis by (auto simp: apple_p2p_neighbor_remove_def)
qed

text \<open>Before the clock has reached the timeout the cutoff wraps around, and the clean-up removes
  every peer, also those just heard.\<close>

theorem clean_peers_early:
  assumes "daemon_inv d" and "clock_time_us (ce_clock env 0) = Some now"
    and "now < ps_timeout (s_peers (d_p2p d))" and "ps_timeout (s_peers (d_p2p d)) < 2 ^ 62"
    and "\<forall>a p. peer_map (speers (d_p2p d)) a = Some p \<longrightarrow> p_last_update p \<le> now"
  shows "\<exists>m e effs. apple_p2p_clean_peers env d = Some (aged d m e, effs) \<and> peer_map m = Map.empty"
proof -
  let ?t = "ps_timeout (s_peers (d_p2p d))"
  have "p_last_update p < now - ?t" if "p_last_update p \<le> now" for p
    using that assms(3,4) by (simp add: word_less_nat_alt word_le_nat_alt unat_sub_if_size word_size)
  then have none: "(\<lambda>a. ages (now - ?t) (peer_map (speers (d_p2p d)) a)) = Map.empty"
    using assms(5) by (auto simp: ages_def fun_eq_iff split: option.split)
  from clean_peers_correct [OF assms(1,2)] obtain m removed where
    "apple_p2p_clean_peers env d = Some (aged d m (adopt (s_election (d_p2p d)) (election_winner (s_election (d_p2p d)) m)),
        map (apple_p2p_neighbor_remove (d_io d)) removed @ [Timer_Again Peer_Timer])"
    and "peer_map m = (\<lambda>a. ages (now - ?t) (peer_map (speers (d_p2p d)) a))"
    by blast
  then show ?thesis unfolding none by blast
qed

section \<open>Reception\<close>

text \<open>C21: what a captured packet does: on success the frames it contained are written to the
  host in order; an unknown or malformed frame is counted, and appended to the dump file if there is
  one; an ignored frame leaves no trace. In each case the peers that have just become valid are
  announced to the kernel first, the frames waiting to be sent are not touched, and the
  invariant holds afterwards. A packet with more than sixteen frames is undefined.\<close>

theorem receive_frame_spec:
  assumes "daemon_inv d" and "rx_ok env"
  shows "\<exists>r bs p evs. apple_p2p_rx (ce_rx env) (const_buf bytes) [] (d_p2p d) = Some (r, bs, p, evs) \<and>
    (if 16 < length bs then apple_p2p_receive_frame env bytes d = None
     else \<exists>d'. apple_p2p_receive_frame env bytes d = Some (d', callback_effects (d_io d) evs @
         (if r = RX_OK then (if host_fd (d_io d) = 0 then [] else map (\<lambda>b. Host_Write (buf_view b)) bs)
          else if r < RX_OK then (case d_dump d of None \<Rightarrow> [] | Some f \<Rightarrow> [Dump_Frame f bytes]) else [])) \<and>
       daemon_inv d' \<and> d_next d' = d_next d \<and> d_queue d' = d_queue d \<and>
       st_rx_unknown (s_stats (d_p2p d')) = st_rx_unknown (s_stats p) + (if r < RX_OK then 1 else 0) \<and>
       speers (d_p2p d') = speers p)"
proof -
  from receive_frame_correct [OF assms] obtain res where
    rx: "apple_p2p_rx (ce_rx env) (const_buf bytes) [] (d_p2p d) = Some res"
    and out: "rx_outcome (d_p2p d) [] res" and run: "apple_p2p_receive_frame env bytes d = received d bytes res"
    by blast
  obtain r bs p evs where res: "res = (r, bs, p, evs)" by (cases res) auto
  show ?thesis
  proof (cases "16 < length bs")
    case True
    then show ?thesis using rx run by (auto simp: res received_def)
  next
    case False
    let ?d = "d\<lparr>d_p2p := (if r < 0 then counted_unknown p else p)\<rparr>"
    obtain effs where rec: "received d bytes res = Some (?d, effs)"
      and effs: "effs = callback_effects (d_io d) evs @
        (if r = 0 then host_writes (d_io d) bs else if r < 0 then dump_frame (d_dump d) bytes else [])"
      using False by (simp add: res received_def)
    note k = received_keeps [OF assms(1) out rec]
    have "effs = callback_effects (d_io d) evs @
         (if r = RX_OK then (if host_fd (d_io d) = 0 then [] else map (\<lambda>b. Host_Write (buf_view b)) bs)
          else if r < RX_OK then (case d_dump d of None \<Rightarrow> [] | Some f \<Rightarrow> [Dump_Frame f bytes]) else [])"
      by (simp add: effs host_writes_def dump_frame_def comp_def)
    moreover have "st_rx_unknown (s_stats (d_p2p ?d)) = st_rx_unknown (s_stats p) + (if r < RX_OK then 1 else 0)"
      "speers (d_p2p ?d) = speers p"
      by (simp_all add: counted_unknown_def)
    ultimately show ?thesis
      using False rx run rec k by (intro exI [of _ r] exI [of _ bs] exI [of _ p] exI [of _ evs]) (auto simp: res)
  qed
qed

theorem receive_frame_spec_witness:
  "\<exists>m d'. apple_p2p_receive_frame (sample_core_env 0 []) [] (sample_daemon m) = Some (d', []) \<and>
     st_rx_unknown (s_stats (d_p2p d')) = 1"
proof -
  obtain m where m: "peers_wf m" by (rule sample_peer_table)
  have env: "rx_ok (sample_core_env 0 [])"
    using sample_env_ok by (simp add: rx_ok_def sample_core_env_def clock_time_us_def [of "Some _"] sample_env_def sample_iterator_def)
  have "apple_p2p_rx (ce_rx (sample_core_env 0 [])) (const_buf []) [] (d_p2p (sample_daemon m)) =
      Some (RX_UNEXPECTED_FORMAT, [], d_p2p (sample_daemon m), [])"
    by (simp add: apple_p2p_rx_def sample_core_env_def sample_env_def clock_time_us_def radiotap_parse_def
        ieee80211_radiotap_iterator_init_def buf_len_def const_buf_def Let_def)
  with receive_frame_spec [OF sample_inv(1) [OF m] env, of "[]"] obtain d' where
    "apple_p2p_receive_frame (sample_core_env 0 []) [] (sample_daemon m) = Some (d', [])"
    and "st_rx_unknown (s_stats (d_p2p d')) = st_rx_unknown (s_stats (d_p2p (sample_daemon m))) + 1"
    by (auto simp: callback_effects_def sample_daemon_def)
  then show ?thesis by (auto simp: sample_daemon_def sample_state_def apple_p2p_stats_init_def)
qed

end
