(* ===== verification/Core_Liveness.thy ===== *)
theory Core_Liveness
  imports Core_Specs
begin

text \<open>
  A waiting multicast frame is sent: the phase of the clock within the sixteen windows, where the
  retries of the handler lead it, and the bound on their number.
\<close>

section \<open>Multicast frames are sent\<close>

text \<open>Everything repeats after sixteen windows. The place in that period, and the slot there.\<close>

definition phase :: "apple_p2p_state \<Rightarrow> u64 \<Rightarrow> nat" where
  "phase p t = elapsed t (s_sync p) mod 1048576"

lemma phase_position: "position p t = phase p t mod 65536"
  by (simp add: position_def phase_def mod_mod_cancel)

lemma phase_slot:
  assumes "sync_wf (s_sync p)"
  shows "unat (apple_p2p_sync_current_eaw t (s_sync p)) mod 16 =
    (unat (aw_counter (s_sync p)) * 16384 + phase p t) div 65536 mod 16"
proof -
  let ?c = "unat (aw_counter (s_sync p))" and ?e = "elapsed t (s_sync p)"
  have quarter: "x mod 65536 div 4 mod 16 = x mod 64 div 4" for x :: nat
    by (simp add: div_mod_nat mod_mod_cancel)
  have "(?c + ?e div 16384) mod 65536 div 4 mod 16 = (?c + ?e div 16384) mod 64 div 4" by (rule quarter)
  also have "(?c + ?e div 16384) mod 64 = (?c * 16384 + ?e) div 16384 mod 64"
    by simp
  also have "\<dots> div 4 = (?c * 16384 + ?e) mod 1048576 div 65536"
    using div_mod_nat [of "?c * 16384 + ?e" 16384 64] by (simp add: div_mult2_eq [symmetric])
  also have "\<dots> = (?c * 16384 + phase p t) mod 1048576 div 65536" by (simp add: phase_def mod_simps)
  also have "\<dots> = (?c * 16384 + phase p t) div 65536 mod 16" using div_mod_nat [of _ 65536 16] by simp
  finally show ?thesis by (simp add: current_eaw_nat [OF assms] phase_def)
qed

lemma phase_later:
  "phase p (t + word_of_nat x) = (phase p t + x) mod 1048576"
proof -
  let ?l = "last_update (s_sync p)"
  have "t + word_of_nat x - ?l = word_of_nat (unat (t - ?l) + x)" by simp
  then have "unat (t + word_of_nat x - ?l) = (unat (t - ?l) + x) mod 18446744073709551616"
    by (simp only: unat_of_nat) simp
  moreover have "(1048576 :: nat) dvd 18446744073709551616" by (rule dvdI [of _ _ 17592186044416]) simp
  ultimately show ?thesis by (simp add: phase_def elapsed_def mod_mod_cancel mod_simps)
qed

text \<open>The microseconds to the next attempt, by the position.\<close>

definition retry_usec :: "nat \<Rightarrow> nat" where
  "retry_usec pos = (if 49152 < pos then pos - 32768 else if pos < 16384 then 16384 - pos else 65536)"

lemma retry_usec_correct:
  assumes wf: "sync_wf (s_sync p)" and shut: "\<not> mcast_window p t"
  shows "sec_to_usec (multicast_retry (apple_p2p_can_send_in p t APPLE_P2P_MULTICAST_GUARD_TU)) =
    word_of_nat (retry_usec (position p t))"
proof -
  define r pos where "r = apple_p2p_can_send_in p t APPLE_P2P_MULTICAST_GUARD_TU" and "pos = position p t"
  have pos: "pos < 65536" unfolding pos_def by (rule position_less)
  have r: "r * 1000000 = (if 65536 - pos < 16384 then of_nat (65536 - pos) - 16384
      else if pos < 16384 then 16384 - of_nat pos else 0)"
    using can_send_in_position [OF wf, of 16 t] by (simp add: r_def pos_def)
  have "multicast_retry r * 1000000 = of_nat (retry_usec pos)"
  proof -
    consider "49152 < pos" | "pos < 16384" | "16384 \<le> pos" "pos \<le> 49152" by linarith
    then show ?thesis
    proof cases
      case 1
      then have "r * 1000000 = of_nat (65536 - pos) - 16384" using r by simp
      also have "(of_nat (65536 - pos) :: rat) = 65536 - of_nat pos" using pos by (simp add: of_nat_diff)
      finally have r1: "r * 1000000 = 49152 - of_nat pos" by simp
      moreover have "(49152 :: rat) < of_nat pos" using 1 by (metis of_nat_less_iff of_nat_numeral)
      ultimately have "r < 0" by linarith
      then have "multicast_retry r * 1000000 = of_nat pos - 32768" using r1 by (simp add: multicast_retry_def)
      also have "\<dots> = of_nat (retry_usec pos)" using 1 by (simp add: retry_usec_def of_nat_diff)
      finally show ?thesis .
    next
      case 2
      then have r1: "r * 1000000 = 16384 - of_nat pos" using r by simp
      moreover have "(of_nat pos :: rat) < 16384" using 2 by (metis of_nat_less_iff of_nat_numeral)
      ultimately have "0 < r" by linarith
      then show ?thesis using r1 2 by (simp add: multicast_retry_def retry_usec_def of_nat_diff)
    next
      case 3
      then have "\<not> 65536 - pos < 16384" "\<not> pos < 16384" by linarith+
      then have "r = 0" using r by simp
      then show ?thesis using 3 by (simp add: multicast_retry_def retry_usec_def)
    qed
  qed
  then have "\<lfloor>multicast_retry r * 1000000\<rfloor> = int (retry_usec pos)" by (metis floor_of_nat)
  then show ?thesis unfolding r_def pos_def by (simp add: sec_to_usec_def)
qed

text \<open>Close to the end of a window the handler asks for the guard twice over minus the time that is left,
  instead of the time that is left plus the guard: in the first half of the guard at the end it
  is called again too early, inside the guard of the next window.\<close>

theorem end_of_slot_retry_too_early:
  assumes wf: "sync_wf (s_sync p)" and pos: "49152 < position p t" "position p t < 57344"
  shows "position p (t + sec_to_usec (multicast_retry (apple_p2p_can_send_in p t APPLE_P2P_MULTICAST_GUARD_TU))) =
    2 * (position p t - 49152)" and "2 * (position p t - 49152) < 16384"
proof -
  have shut: "\<not> mcast_window p t" using pos(1) by (simp add: mcast_window_def)
  have retry: "retry_usec (position p t) = position p t - 32768" using pos(1) by (simp add: retry_usec_def)
  have "position p (t + sec_to_usec (multicast_retry (apple_p2p_can_send_in p t APPLE_P2P_MULTICAST_GUARD_TU))) =
      (phase p t + (position p t - 32768)) mod 1048576 mod 65536"
    unfolding retry_usec_correct [OF wf shut] retry by (simp only: phase_position [of p "t + _"] phase_later)
  also have "\<dots> = (phase p t mod 65536 + (position p t - 32768)) mod 65536"
    by (simp add: mod_mod_cancel mod_simps)
  also have "\<dots> = (position p t + (position p t - 32768)) mod 65536" by (simp only: phase_position)
  also have "\<dots> = 2 * (position p t - 49152)"
  proof -
    obtain q where q: "position p t = 49152 + q" "q < 8192"
      using pos that [of "position p t - 49152"] by linarith
    have "49152 + q + (49152 + q - 32768) = 2 * q + 65536" by simp
    then have "(49152 + q + (49152 + q - 32768)) mod 65536 = 2 * q" using q(2) by simp
    then show ?thesis by (simp add: q(1))
  qed
  finally show "position p (t + sec_to_usec (multicast_retry (apple_p2p_can_send_in p t APPLE_P2P_MULTICAST_GUARD_TU))) =
    2 * (position p t - 49152)" .
  show "2 * (position p t - 49152) < 16384" using pos by simp
qed

text \<open>At most two attempts lead out of the guards, and then at most nine to a slot.\<close>

lemma phases_leave_guard:
  assumes f: "\<And>n. n < 11 \<Longrightarrow> f (Suc n) = (f n + retry_usec (f n mod 65536)) mod 1048576"
  obtains i where "i \<le> 2" "16384 \<le> f i mod 65536" "f i mod 65536 \<le> 49152"
proof -
  have step: "f (Suc n) mod 65536 = (f n mod 65536 + retry_usec (f n mod 65536)) mod 65536" if "n < 11" for n
    using f [OF that] by (simp add: mod_mod_cancel mod_simps)
  have low: "f (Suc n) mod 65536 = 16384" if "n < 11" "f n mod 65536 < 16384" for n
    using step [OF that(1)] that(2) by (simp add: retry_usec_def)
  consider "f 0 mod 65536 < 16384" | "16384 \<le> f 0 mod 65536" "f 0 mod 65536 \<le> 49152" | "49152 < f 0 mod 65536"
    by linarith
  then show thesis
  proof cases
    case 1
    then show thesis using that [of 1] low [of 0] by simp
  next
    case 2
    then show thesis using that [of 0] by simp
  next
    case 3
    define q where "q = f 0 mod 65536"
    have q: "q < 65536" "49152 < q" using 3 by (simp_all add: q_def)
    have "f 1 mod 65536 = (q + (q - 32768)) mod 65536" using step [of 0] q by (simp add: retry_usec_def q_def)
    also have "\<dots> = q + q - 98304" using q by (intro mod_nat_eqI) auto
    finally have f1: "f 1 mod 65536 \<le> 32768" using q by simp
    show thesis
    proof (cases "16384 \<le> f 1 mod 65536")
      case True
      then show thesis using that [of 1] f1 by simp
    next
      case False
      then show thesis using that [of 2] low [of 1] by (simp add: numeral_2_eq_2)
    qed
  qed
qed

lemma phases_reach_slot:
  assumes f: "\<And>n. n < 11 \<Longrightarrow> f (Suc n) = (f n + retry_usec (f n mod 65536)) mod 1048576"
    and lt: "\<And>n. f n < 1048576"
  obtains n where "n \<le> 11" "16384 \<le> f n mod 65536" "f n mod 65536 \<le> 49152"
    "(c + f n) div 65536 mod 16 \<in> {0, 10 :: nat}"
proof -
  obtain i where i: "i \<le> 2" "16384 \<le> f i mod 65536" "f i mod 65536 \<le> 49152" by (rule phases_leave_guard [of f]) (use f in blast)+
  have walk: "f (i + j) = (f i + 65536 * j) mod 1048576" if "j \<le> 9" for j
    using that
  proof (induction j)
    case (Suc j)
    then have fj: "f (i + j) = (f i + 65536 * j) mod 1048576" by simp
    then have "f (i + j) mod 65536 = f i mod 65536" by (simp add: mod_mod_cancel)
    then have "f (Suc (i + j)) = (f (i + j) + 65536) mod 1048576"
      using f [of "i + j"] i Suc.prems by (simp add: retry_usec_def)
    then show ?case by (simp add: fj mod_simps algebra_simps)
  qed (simp add: lt)
  define S where "S = (c + f i) div 65536"
  define j where "j = (if S mod 16 = 0 then 0 else if S mod 16 \<le> 10 then 10 - S mod 16 else 16 - S mod 16)"
  have j: "j \<le> 9" "(S + j) mod 16 \<in> {0, 10}"
  proof -
    define r where "r = S mod 16"
    have r: "r < 16" "(S + j) mod 16 = (r + j) mod 16" by (simp_all add: r_def mod_simps)
    then show "j \<le> 9" "(S + j) mod 16 \<in> {0, 10}" by (auto simp: j_def r_def [symmetric])
  qed
  have "(c + f (i + j)) div 65536 mod 16 = (c + f i + 65536 * j) div 65536 mod 16"
  proof -
    have "(c + f (i + j)) mod 1048576 = (c + f i + 65536 * j) mod 1048576"
      by (simp add: walk [OF j(1)] mod_simps add.assoc)
    moreover have "x div 65536 mod 16 = x mod 1048576 div 65536" for x :: nat
      using div_mod_nat [of x 65536 16] by simp
    ultimately show ?thesis by (simp only:)
  qed
  also have "\<dots> = (S + j) mod 16" by (simp add: S_def add.commute)
  finally have "(c + f (i + j)) div 65536 mod 16 \<in> {0, 10}" using j(2) by simp
  moreover have "f (i + j) mod 65536 = f i mod 65536" by (simp add: walk [OF j(1)] mod_mod_cancel)
  ultimately show thesis using that [of "i + j"] i j(1) by simp
qed

text \<open>C7: a multicast frame does not wait forever. Let the handler run again and again, each
  time exactly when its last call asked for, while the synchronisation stays as it is and the frame
  remains the oldest one until it is sent; other handlers may change everything else in
  between, and the clock may wrap around. Then one of the first twelve calls sends it.\<close>

theorem multicast_is_sent:
  fixes ds :: "nat \<Rightarrow> daemon_state" and envs :: "nat \<Rightarrow> core_env" and t :: "nat \<Rightarrow> u64"
  assumes first: "daemon_inv (ds 0)" "s_sync (d_p2p (ds 0)) = s" "ring_list (d_queue (ds 0)) = b # bs 0"
    and clocks: "\<And>n. clocks_ok (envs n) \<and> clock_time_us (ce_clock (envs n) 0) = Some (t n)"
    and retry: "\<And>n x. apple_p2p_send_multicast (envs n) (ds n) = Some (ds n, [Timer_Rearm Tx_Mcast_Timer x]) \<Longrightarrow>
      t (Suc n) = t n + sec_to_usec x \<and> daemon_inv (ds (Suc n)) \<and> s_sync (d_p2p (ds (Suc n))) = s \<and>
      ring_list (d_queue (ds (Suc n))) = b # bs (Suc n)"
  shows "\<exists>n\<le>11. \<exists>d' effs. apple_p2p_send_multicast (envs n) (ds n) = Some (d', effs) \<and>
    ring_list (d_queue d') = bs n \<and> mcast_window (d_p2p (ds n)) (t n) \<and>
    (14 \<le> b_len b \<and> wlan_handle (d_io (ds n)) \<noteq> None \<longrightarrow>
       Inject (data_bytes_of (d_p2p (ds n)) (d_80211 (ds n)) b) \<in> set effs)"
proof -
  define ok where "ok n \<longleftrightarrow> daemon_inv (ds n) \<and> s_sync (d_p2p (ds n)) = s \<and>
    ring_list (d_queue (ds n)) = b # bs n" for n
  let ?c = "unat (aw_counter s) * 16384"
  have wf: "sync_wf s" using first(1,2) by (auto simp: daemon_inv_def p2p_inv_def state_wf_def)
  have "\<exists>n\<le>11. ok n \<and> mcast_window (d_p2p (ds n)) (t n)"
  proof (rule ccontr)
    assume shut: "\<not> ?thesis"
    define f where "f n = phase (d_p2p (ds n)) (t n)" for n
    have next_try: "ok (Suc n) \<and> t (Suc n) = t n + word_of_nat (retry_usec (position (d_p2p (ds n)) (t n)))"
      if "ok n" "n \<le> 11" for n
    proof -
      have "\<not> mcast_window (d_p2p (ds n)) (t n)" using shut that by blast
      moreover have "sync_wf (s_sync (d_p2p (ds n)))" using that wf by (simp add: ok_def)
      ultimately show ?thesis
        using retry [of n] that clocks [of n] retry_usec_correct [of "d_p2p (ds n)" "t n"]
        by (simp add: ok_def multicast_shut)
    qed
    have ok: "ok n" if "n \<le> 12" for n
      using that next_try by (induction n) (auto simp: ok_def first)
    have "f (Suc n) = (f n + retry_usec (f n mod 65536)) mod 1048576" if "n < 11" for n
    proof -
      have "ok n" "ok (Suc n)" using ok that by auto
      then have "phase (d_p2p (ds (Suc n))) u = phase (d_p2p (ds n)) u" for u
        by (simp add: phase_def ok_def)
      with next_try [OF \<open>ok n\<close>] that show ?thesis by (simp add: f_def phase_later phase_position)
    qed
    moreover have "f n < 1048576" for n by (simp add: f_def phase_def)
    ultimately obtain n where n: "n \<le> 11" "16384 \<le> f n mod 65536" "f n mod 65536 \<le> 49152"
      "(?c + f n) div 65536 mod 16 \<in> {0, 10}"
      by (rule phases_reach_slot [where c = ?c and f = f])
    have okn: "ok n" using ok n(1) by simp
    then have "mcast_window (d_p2p (ds n)) (t n)"
      using n(2-4) wf phase_slot [of "d_p2p (ds n)" "t n"]
      by (simp add: mcast_window_def ok_def phase_position f_def)
    then show False using shut okn n(1) by blast
  qed
  then obtain n where n: "n \<le> 11" "ok n" "mcast_window (d_p2p (ds n)) (t n)" by blast
  then have "\<exists>d' effs. apple_p2p_send_multicast (envs n) (ds n) = Some (d', effs) \<and>
    ring_list (d_queue d') = bs n \<and>
    {f. Inject f \<in> set effs} = (if 14 \<le> b_len b \<and> wlan_handle (d_io (ds n)) \<noteq> None
         then {data_bytes_of (d_p2p (ds n)) (d_80211 (ds n)) b} else {})"
    using multicast_open [of "ds n" "envs n" "t n" b "bs n"] clocks [of n] by (auto simp: ok_def)
  with n show ?thesis by (intro exI [of _ n]) auto
qed

theorem multicast_is_sent_witness:
  "\<exists>m d' effs. \<exists>n::nat. n \<le> 11 \<and> apple_p2p_send_multicast (sample_core_env (if n = 0 then 0 else 65536000) [])
       (multicast_daemon m) = Some (d', effs) \<and> ring_list (d_queue d') = [] \<and> (\<exists>f. Inject f \<in> set effs)"
proof -
  obtain m where m: "peers_wf m" by (rule sample_peer_table)
  let ?d = "multicast_daemon m" and ?env = "\<lambda>n :: nat. sample_core_env (if n = 0 then 0 else 65536000) []"
  let ?t = "\<lambda>n :: nat. word_of_int (1000000 + (if n = 0 then 0 else 65536000) div 1000) :: u64"
  have wf: "sync_wf (s_sync (d_p2p ?d))" and pos: "position (d_p2p ?d) (?t 0) = 16960"
    by (simp_all add: position_def multicast_daemon_def sample_daemon_fields)
  have shut: "\<not> mcast_window (d_p2p ?d) (?t 0)" using sample_window [of 1000000 m] by simp
  have "open": "mcast_window (d_p2p ?d) (?t n)" if "n \<noteq> 0" for n
    using sample_window [of 1065536 m] that by simp
  have now: "clocks_ok (?env n) \<and> clock_time_us (ce_clock (?env n) 0) = Some (?t n)" for n
    using sample_clock by auto
  have retry: "?t (Suc n) = ?t n + sec_to_usec x"
    if run: "apple_p2p_send_multicast (?env n) ?d = Some (?d, [Timer_Rearm Tx_Mcast_Timer x])" for n x
  proof -
    have "\<not> mcast_window (d_p2p ?d) (?t n)"
    proof
      assume "mcast_window (d_p2p ?d) (?t n)"
      from multicast_open [OF sample_inv(3) [OF m] conjunct1 [OF now] conjunct2 [OF now] sample_inv(4) [OF m] this] run
      show False using sample_inv(4) [OF m] by auto
    qed
    then have n: "n = 0" using "open" by blast
    have "x = multicast_retry (apple_p2p_can_send_in (d_p2p ?d) (?t 0) APPLE_P2P_MULTICAST_GUARD_TU)"
      using multicast_shut [OF sample_inv(3) [OF m] conjunct1 [OF now] conjunct2 [OF now] sample_inv(4) [OF m] shut] run n
      by simp
    then have "sec_to_usec x = 65536" using retry_usec_correct [OF wf shut] pos by (simp add: retry_usec_def)
    then show ?thesis by (simp add: n)
  qed
  have "\<exists>n\<le>11. \<exists>d' effs. apple_p2p_send_multicast (?env n) ?d = Some (d', effs) \<and>
    ring_list (d_queue d') = [] \<and> mcast_window (d_p2p ?d) (?t n) \<and>
    (14 \<le> b_len (sample_frame 51) \<and> wlan_handle (d_io ?d) \<noteq> None \<longrightarrow>
       Inject (data_bytes_of (d_p2p ?d) (d_80211 ?d) (sample_frame 51)) \<in> set effs)"
    by (rule multicast_is_sent [where ds = "\<lambda>_. ?d" and bs = "\<lambda>_. []"])
      (use sample_inv(3,4) [OF m] now retry in \<open>simp_all only: simp_thms\<close>)
  moreover have "14 \<le> b_len (sample_frame 51)" "wlan_handle (d_io ?d) \<noteq> None"
    by (simp_all add: sample_frame_ok multicast_daemon_def sample_daemon_fields)
  ultimately show ?thesis by blast
qed

end
