(* ===== verification/Netutils.thy ===== *)
theory Netutils
  imports Io Channel
begin

text \<open>
  netutils.c for Linux: the sockets, the entries for neighbours, and the requests to the wireless
  and link subsystems. What libnl does is a parameter: the record \<open>nl_env\<close> says which
  allocations and attributes succeed and what the kernel answers. The code here decides what
  is asked, in which order, and what comes back. \<open>None\<close> stands for the use of a pointer that was
  never set.
\<close>

section \<open>Sockets\<close>

abbreviation ENOMEM :: int where "ENOMEM \<equiv> 12"
abbreviation ENOLINK :: int where "ENOLINK \<equiv> 67"
abbreviation ENOBUFS :: int where "ENOBUFS \<equiv> 105"

datatype nl_sock = Null_Sock | Open_Sock | Freed_Sock

record nl80211_state =
  n_socket :: nl_sock
  n_nl80211_id :: int

record nl_sockets =
  nlroute :: nl_sock
  nl80211 :: nl80211_state

text \<open>Results of opening a socket: allocation, connection (0 or an error) and the family's number.\<close>

record sock_env =
  se_alloc :: bool
  se_connect :: int
  se_resolve :: int

definition nlroute_init :: "sock_env \<Rightarrow> int \<times> nl_sock" where
  "nlroute_init env =
     (if \<not> se_alloc env then (- ENOMEM, Null_Sock)
      else if se_connect env \<noteq> 0 then (- ENOLINK, Freed_Sock)
      else (0, Open_Sock))"

definition nl80211_init :: "sock_env \<Rightarrow> nl80211_state \<Rightarrow> int \<times> nl80211_state" where
  "nl80211_init env state =
     (if \<not> se_alloc env then (- ENOMEM, state\<lparr>n_socket := Null_Sock\<rparr>)
      else if se_connect env \<noteq> 0 then (- ENOLINK, state\<lparr>n_socket := Freed_Sock\<rparr>)
      else let state = state\<lparr>n_socket := Open_Sock, n_nl80211_id := se_resolve env\<rparr> in
        if n_nl80211_id state < 0 then (- ENOENT, state\<lparr>n_socket := Freed_Sock\<rparr>)
        else (0, state))"

definition netutils_init :: "sock_env \<Rightarrow> sock_env \<Rightarrow> nl_sockets \<Rightarrow> int \<times> nl_sockets" where
  "netutils_init env_route env_genl state =
     (let (err, s) = nlroute_init env_route;
          state = state\<lparr>nlroute := s\<rparr>
      in if err < 0 then (err, state) else
        let (err, s) = nl80211_init env_genl (nl80211 state);
            state = state\<lparr>nl80211 := s\<rparr>
        in if err < 0 then (err, state) else (0, state))"

text \<open>Freeing a NULL socket is allowed, freeing one twice is not.\<close>

definition nl_socket_free :: "nl_sock \<Rightarrow> nl_sock option" where
  "nl_socket_free s = (case s of Null_Sock \<Rightarrow> Some Null_Sock | Open_Sock \<Rightarrow> Some Freed_Sock | Freed_Sock \<Rightarrow> None)"

definition netutils_cleanup :: "nl_sockets \<Rightarrow> nl_sockets option" where
  "netutils_cleanup state =
     (case nl_socket_free (nlroute state) of None \<Rightarrow> None
      | Some r \<Rightarrow> (case nl_socket_free (n_socket (nl80211 state)) of None \<Rightarrow> None
         | Some n \<Rightarrow> Some (state\<lparr>nlroute := r, nl80211 := (nl80211 state)\<lparr>n_socket := n\<rparr>\<rparr>)))"

section \<open>Messages\<close>

datatype nl80211_cmd = SET_INTERFACE | GET_WIPHY | SET_CHANNEL

datatype nl80211_attr =
    ATTR_IFINDEX | ATTR_IFTYPE | ATTR_MNTR_FLAGS | MNTR_FLAG_ACTIVE
  | ATTR_SPLIT_WIPHY_DUMP | ATTR_WIPHY_FREQ | ATTR_WIPHY_CHANNEL_TYPE

datatype nl_value = Num u32 | IFTYPE_MONITOR | CHAN_HT40PLUS

datatype nl_attr = U32 nl80211_attr nl_value | Flag nl80211_attr | Nested nl80211_attr "nl_attr list"

text \<open>The header is missing when there was no room for it.\<close>

record nl_msg =
  nm_header :: "(int \<times> nl80211_cmd) option"
  nm_dump :: bool
  nm_attrs :: "nl_attr list"

text \<open>Attributes of a channel, and a reply about a device: its bands with their channels.\<close>

record freq_attrs =
  fa_freq :: "u32 option"
  fa_disabled :: bool
  fa_no_ir :: bool

type_synonym wiphy_reply = "(int \<times> freq_attrs list option) list option"

record nl_env =
  ne_alloc :: "nat \<Rightarrow> bool"
  ne_header :: bool
  ne_put :: "nat \<Rightarrow> bool"
  ne_send :: int
  ne_recv :: int
  ne_replies :: "wiphy_reply list"

definition empty_msg :: nl_msg where
  "empty_msg = \<lparr>nm_header = None, nm_dump = False, nm_attrs = []\<rparr>"

definition genlmsg_put :: "nl_env \<Rightarrow> int \<Rightarrow> nl80211_cmd \<Rightarrow> nl_msg \<Rightarrow> nl_msg" where
  "genlmsg_put env fam cmd m = (if ne_header env then m\<lparr>nm_header := Some (fam, cmd)\<rparr> else m)"

definition nla_put :: "nl_env \<Rightarrow> nat \<Rightarrow> nl_attr \<Rightarrow> nl_msg \<Rightarrow> nl_msg option" where
  "nla_put env k a m = (if ne_put env k then Some (m\<lparr>nm_attrs := nm_attrs m @ [a]\<rparr>) else None)"

text \<open>A put whose result the code ignores.\<close>

definition nla_try :: "nl_env \<Rightarrow> nat \<Rightarrow> nl_attr \<Rightarrow> nl_msg \<Rightarrow> nl_msg" where
  "nla_try env k a m = (case nla_put env k a m of None \<Rightarrow> m | Some m \<Rightarrow> m)"

section \<open>Neighbours\<close>

text \<open>\<open>ne_recv\<close> is the result of the request; the second component is the request, if made. When
  an earlier allocation fails, the pointers to later ones are released without being set.\<close>

definition neighbor_add :: "nl_env \<Rightarrow> int \<Rightarrow> ether_addr \<Rightarrow> u8 list \<Rightarrow> (int \<times> neighbor_request option) option" where
  "neighbor_add env ifindex eth in6 =
     (if \<not> ne_alloc env 0 then None
      else if \<not> ne_alloc env 1 then None
      else if \<not> ne_alloc env 2 then Some (- ENOMEM, None)
      else Some (ne_recv env, Some (Neighbor_Add ifindex eth in6)))"

definition neighbor_remove :: "nl_env \<Rightarrow> int \<Rightarrow> u8 list \<Rightarrow> (int \<times> neighbor_request option) option" where
  "neighbor_remove env ifindex in6 =
     (if \<not> ne_alloc env 0 then None
      else if \<not> ne_alloc env 1 then Some (- ENOMEM, None)
      else Some (ne_recv env, Some (Neighbor_Remove ifindex in6)))"

section \<open>The wireless device\<close>

text \<open>The results and the message handed to \<open>nl_send_auto\<close>, if any.\<close>

definition set_monitor_mode :: "nl_env \<Rightarrow> int \<Rightarrow> int \<Rightarrow> int \<times> nl_msg option" where
  "set_monitor_mode env fam ifindex =
     (if \<not> ne_alloc env 0 then (- ENOMEM, None) else
      case nla_put env 0 (U32 ATTR_IFINDEX (Num (word_of_int ifindex)))
             (genlmsg_put env fam SET_INTERFACE empty_msg) of None \<Rightarrow> (- ENOBUFS, None) | Some m \<Rightarrow>
      case nla_put env 1 (U32 ATTR_IFTYPE IFTYPE_MONITOR) m of None \<Rightarrow> (- ENOBUFS, None) | Some m \<Rightarrow>
      if \<not> ne_alloc env 1 then (- ENOMEM, None) else
      case nla_put env 2 (Flag MNTR_FLAG_ACTIVE) empty_msg of None \<Rightarrow> (- ENOBUFS, None) | Some flags \<Rightarrow>
      let m = nla_try env 3 (Nested ATTR_MNTR_FLAGS (nm_attrs flags)) m in
      if ne_send env < 0 then (ne_send env, Some m)
      else if ne_recv env < 0 then (ne_recv env, Some m)
      else (ne_recv env, Some m))"

record channels_ctx =
  last_band :: int
  width_40 :: bool
  width_80 :: bool
  width_160 :: bool

record channel_args =
  ca_freq :: int
  ca_is_available :: bool
  ca_ctx :: channels_ctx

fun parse_freqs :: "channel_args \<Rightarrow> freq_attrs list \<Rightarrow> channel_args" where
  "parse_freqs cargs [] = cargs"
| "parse_freqs cargs (nl_freq # rest) =
     parse_freqs
       (case fa_freq nl_freq of
          None \<Rightarrow> cargs
        | Some freq \<Rightarrow>
            if sint freq \<noteq> ca_freq cargs then cargs
            else if fa_disabled nl_freq \<or> fa_no_ir nl_freq then cargs
            else cargs\<lparr>ca_is_available := True\<rparr>) rest"

fun parse_bands :: "channel_args \<Rightarrow> (int \<times> freq_attrs list option) list \<Rightarrow> channel_args" where
  "parse_bands cargs [] = cargs"
| "parse_bands cargs ((nla_type, freqs) # rest) =
     (let ctx = ca_ctx cargs;
          ctx = (if last_band ctx \<noteq> nla_type
                 then ctx\<lparr>width_40 := False, width_80 := False, width_160 := False, last_band := nla_type\<rparr>
                 else ctx);
          cargs = cargs\<lparr>ca_ctx := ctx\<rparr>
      in parse_bands (case freqs of None \<Rightarrow> cargs | Some fs \<Rightarrow> parse_freqs cargs fs) rest)"

definition parse_freq_support :: "wiphy_reply \<Rightarrow> channel_args \<Rightarrow> channel_args" where
  "parse_freq_support msg cargs = (case msg of None \<Rightarrow> cargs | Some bands \<Rightarrow> parse_bands cargs bands)"

text \<open>The static variable \<open>args\<close>: its contents before the first call, and after each call. The
  replies are parsed by the callback while they are received.\<close>

definition static_args :: channel_args where
  "static_args = \<lparr>ca_freq = 0, ca_is_available = False,
     ca_ctx = \<lparr>last_band = -1, width_40 = False, width_80 = False, width_160 = False\<rparr>\<rparr>"

definition is_channel_available ::
  "nl_env \<Rightarrow> int \<Rightarrow> channel_args \<Rightarrow> int \<Rightarrow> int \<Rightarrow> (int \<times> bool \<times> nl_msg option \<times> channel_args) option" where
  "is_channel_available env fam args ifindex channel =
     (let freq = ieee80211_channel_to_frequency channel in
      if freq = 0 then None else
      let args = args\<lparr>ca_freq := freq\<rparr>; give_up = (\<lambda>err. Some (err, ca_is_available args, None, args)) in
      if \<not> ne_alloc env 0 then None else
      if \<not> ne_header env then give_up (- ENOBUFS) else
      case nla_put env 0 (U32 ATTR_IFINDEX (Num (word_of_int ifindex))) (genlmsg_put env fam GET_WIPHY empty_msg) of
        None \<Rightarrow> give_up (- ENOBUFS)
      | Some m \<Rightarrow>
          let m = (nla_try env 1 (Flag ATTR_SPLIT_WIPHY_DUMP) m)\<lparr>nm_dump := True\<rparr> in
          if ne_send env < 0 then Some (ne_send env, ca_is_available args, Some m, args)
          else if \<not> ne_alloc env 1 then None
          else let args = foldl (\<lambda>a r. parse_freq_support r a) args (ne_replies env)
               in Some (ne_recv env, ca_is_available args, Some m, args))"

definition set_channel :: "nl_env \<Rightarrow> int \<Rightarrow> int \<Rightarrow> int \<Rightarrow> (int \<times> nl_msg option) option" where
  "set_channel env fam ifindex channel =
     (let freq = ieee80211_channel_to_frequency channel in
      if freq = 0 then None else
      if \<not> ne_alloc env 0 then Some (- ENOMEM, None) else
      if \<not> ne_header env then Some (- ENOBUFS, None) else
      case nla_put env 0 (U32 ATTR_IFINDEX (Num (word_of_int ifindex))) (genlmsg_put env fam SET_CHANNEL empty_msg) of
        None \<Rightarrow> Some (- ENOBUFS, None) | Some m \<Rightarrow>
      case nla_put env 1 (U32 ATTR_WIPHY_FREQ (Num (word_of_int freq))) m of
        None \<Rightarrow> Some (- ENOBUFS, None) | Some m \<Rightarrow>
      case nla_put env 2 (U32 ATTR_WIPHY_CHANNEL_TYPE CHAN_HT40PLUS) m of
        None \<Rightarrow> Some (- ENOBUFS, None) | Some m \<Rightarrow>
      if ne_send env < 0 then Some (ne_send env, Some m) else Some (ne_recv env, Some m))"

section \<open>Links\<close>

text \<open>\<open>get\<close> is the result of \<open>rtnl_link_get_kernel\<close>, \<open>flags_of\<close> stands for
  \<open>rtnl_link_str2flags\<close>; the result of the change is not looked at.\<close>

definition link_updown ::
  "(string \<Rightarrow> u32) \<Rightarrow> (int \<Rightarrow> int) \<Rightarrow> bool \<Rightarrow> int \<Rightarrow> bool \<Rightarrow> (int \<times> (int \<times> u32) option) option" where
  "link_updown flags_of get alloc ifindex up =
     (if get ifindex < 0 then Some (get ifindex, None)
      else if \<not> alloc then None
      else Some (0, Some (ifindex, flags_of (if up then ''up'' else ''down''))))"

definition link_up :: "(string \<Rightarrow> u32) \<Rightarrow> (int \<Rightarrow> int) \<Rightarrow> bool \<Rightarrow> int \<Rightarrow> (int \<times> (int \<times> u32) option) option" where
  "link_up flags_of get alloc ifindex = link_updown flags_of get alloc ifindex True"

definition link_down :: "(string \<Rightarrow> u32) \<Rightarrow> (int \<Rightarrow> int) \<Rightarrow> bool \<Rightarrow> int \<Rightarrow> (int \<times> (int \<times> u32) option) option" where
  "link_down flags_of get alloc ifindex = link_updown flags_of get alloc ifindex False"

text \<open>The result, and the address written; \<open>None\<close> inside \<open>link\<close> is a link without address.\<close>

definition link_ether_addr_get ::
  "(u8 list \<Rightarrow> int \<times> ether_addr option) \<Rightarrow> u8 list \<Rightarrow> (int \<times> ether_addr option) option" where
  "link_ether_addr_get link ifname =
     (case link ifname of (err, addr) \<Rightarrow>
        if err < 0 then Some (err, None)
        else case addr of None \<Rightarrow> None | Some a \<Rightarrow> Some (0, Some a))"

section \<open>Properties\<close>

text \<open>The channels without a frequency.\<close>

definition bad_channel :: "int \<Rightarrow> bool" where
  "bad_channel c \<longleftrightarrow> c \<le> 0 \<or> 15 \<le> c \<and> c < 32"

lemma frequency_zero: "ieee80211_channel_to_frequency c = 0 \<longleftrightarrow> bad_channel c"
  by (auto simp: ieee80211_channel_to_frequency_def bad_channel_def)

text \<open>A reply offers a frequency when some band lists it without restriction.\<close>

definition usable :: "int \<Rightarrow> freq_attrs \<Rightarrow> bool" where
  "usable freq f \<longleftrightarrow> (\<exists>w. fa_freq f = Some w \<and> sint w = freq) \<and> \<not> fa_disabled f \<and> \<not> fa_no_ir f"

definition offers :: "int \<Rightarrow> wiphy_reply \<Rightarrow> bool" where
  "offers freq r \<longleftrightarrow> (\<exists>bands band fs. r = Some bands \<and> (band, Some fs) \<in> set bands \<and> Bex (set fs) (usable freq))"

lemma parse_freqs_correct:
  "ca_freq (parse_freqs a fs) = ca_freq a \<and>
   (ca_is_available (parse_freqs a fs) \<longleftrightarrow> ca_is_available a \<or> Bex (set fs) (usable (ca_freq a)))"
  by (induction a fs rule: parse_freqs.induct) (auto simp: usable_def split: option.splits if_splits)

lemma parse_bands_correct:
  "ca_freq (parse_bands a bs) = ca_freq a \<and> (ca_is_available (parse_bands a bs) \<longleftrightarrow>
     ca_is_available a \<or> (\<exists>band fs. (band, Some fs) \<in> set bs \<and> Bex (set fs) (usable (ca_freq a))))"
proof (induction bs arbitrary: a)
  case (Cons b bs)
  obtain t freqs where b: "b = (t, freqs)" by force
  obtain a1 where a1: "ca_freq a1 = ca_freq a" "ca_is_available a1 = ca_is_available a"
    and step: "parse_bands a (b # bs) = parse_bands (case freqs of None \<Rightarrow> a1 | Some fs \<Rightarrow> parse_freqs a1 fs) bs"
  proof
    let ?ctx = "ca_ctx a"
    let ?c = "if last_band ?ctx \<noteq> t then ?ctx\<lparr>width_40 := False, width_80 := False, width_160 := False, last_band := t\<rparr>
      else ?ctx"
    show "ca_freq (a\<lparr>ca_ctx := ?c\<rparr>) = ca_freq a" "ca_is_available (a\<lparr>ca_ctx := ?c\<rparr>) = ca_is_available a" by simp_all
    show "parse_bands a (b # bs) =
        parse_bands (case freqs of None \<Rightarrow> a\<lparr>ca_ctx := ?c\<rparr> | Some fs \<Rightarrow> parse_freqs (a\<lparr>ca_ctx := ?c\<rparr>) fs) bs"
      by (simp only: b parse_bands.simps Let_def)
  qed
  show ?case
  proof (cases freqs)
    case None
    then show ?thesis using Cons.IH [of a1] unfolding step by (simp add: a1 b)
  next
    case (Some fs)
    have "(\<exists>band fs'. (band, Some fs') \<in> set (b # bs) \<and> Bex (set fs') (usable (ca_freq a))) \<longleftrightarrow>
        Bex (set fs) (usable (ca_freq a)) \<or> (\<exists>band fs'. (band, Some fs') \<in> set bs \<and> Bex (set fs') (usable (ca_freq a)))"
      unfolding b Some by auto
    then show ?thesis using Cons.IH [of "parse_freqs a1 fs"] unfolding step by (simp add: a1 Some parse_freqs_correct)
  qed
qed simp

lemma parse_replies_correct:
  "ca_freq (foldl (\<lambda>a r. parse_freq_support r a) a rs) = ca_freq a \<and>
   (ca_is_available (foldl (\<lambda>a r. parse_freq_support r a) a rs) \<longleftrightarrow>
     ca_is_available a \<or> Bex (set rs) (offers (ca_freq a)))"
proof (induction rs arbitrary: a)
  case (Cons r rs)
  have "ca_freq (parse_freq_support r a) = ca_freq a \<and>
      (ca_is_available (parse_freq_support r a) \<longleftrightarrow> ca_is_available a \<or> offers (ca_freq a) r)"
    using parse_bands_correct by (auto simp: parse_freq_support_def offers_def split: option.split)
  then show ?case using Cons.IH [of "parse_freq_support r a"] by auto
qed simp

text \<open>C35: whether a channel is reported available: if the kernel's replies list its frequency
  without restriction, or if any earlier call, for whatever channel, has found its channel
  available: the answer is kept in a static variable that is never cleared. A channel number
  without a frequency makes the function release pointers that were never set.\<close>

theorem is_channel_available_spec:
  "is_channel_available env fam args ifindex c =
    (if bad_channel c \<or> \<not> ne_alloc env 0 then None
     else let freq = ieee80211_channel_to_frequency c;
         m = \<lparr>nm_header = Some (fam, GET_WIPHY), nm_dump = True,
           nm_attrs = U32 ATTR_IFINDEX (Num (word_of_int ifindex)) #
             (if ne_put env 1 then [Flag ATTR_SPLIT_WIPHY_DUMP] else [])\<rparr>;
         before = ca_is_available args;
         after = (before \<or> Bex (set (ne_replies env)) (offers freq)) in
       if \<not> ne_header env \<or> \<not> ne_put env 0
       then Some (- ENOBUFS, before, None, args\<lparr>ca_freq := freq\<rparr>)
       else if ne_send env < 0 then Some (ne_send env, before, Some m, args\<lparr>ca_freq := freq\<rparr>)
       else if \<not> ne_alloc env 1 then None
       else Some (ne_recv env, after, Some m,
         foldl (\<lambda>a r. parse_freq_support r a) (args\<lparr>ca_freq := freq\<rparr>) (ne_replies env)))"
  by (simp add: is_channel_available_def frequency_zero Let_def nla_put_def nla_try_def genlmsg_put_def
      empty_msg_def parse_replies_correct)

text \<open>A kernel with one band: channel 44 is free, channel 149 must not be used first.\<close>

definition sample_nl :: nl_env where
  "sample_nl = \<lparr>ne_alloc = (\<lambda>_. True), ne_header = True, ne_put = (\<lambda>_. True), ne_send = 0, ne_recv = 0,
     ne_replies = [None, Some [(1, Some [\<lparr>fa_freq = Some 5220, fa_disabled = False, fa_no_ir = False\<rparr>,
       \<lparr>fa_freq = Some 5745, fa_disabled = False, fa_no_ir = True\<rparr>])]]\<rparr>"

theorem is_channel_available_spec_witness:
  "\<exists>m args err av. is_channel_available sample_nl 20 static_args 3 44 = Some (0, True, Some m, args) \<and>
     is_channel_available sample_nl 20 static_args 3 149 = Some (err, False, Some m, av)"
proof -
  have f: "ieee80211_channel_to_frequency 44 = 5220" "ieee80211_channel_to_frequency 149 = 5745"
    by (simp_all add: ieee80211_channel_to_frequency_def)
  have o: "Bex (set (ne_replies sample_nl)) (offers 5220)" "\<not> Bex (set (ne_replies sample_nl)) (offers 5745)"
    by (auto simp: sample_nl_def offers_def usable_def)
  show ?thesis
    using is_channel_available_spec [of sample_nl 20 static_args 3 44]
      is_channel_available_spec [of sample_nl 20 static_args 3 149] o
    by (simp add: f bad_channel_def static_args_def Let_def) (simp add: sample_nl_def)
qed

lemma set_channel_defined: "set_channel env fam ifindex c = None \<longleftrightarrow> bad_channel c"
  by (auto simp: set_channel_def frequency_zero Let_def nla_put_def genlmsg_put_def empty_msg_def)

text \<open>The request that sets a channel carries the interface and the centre frequency of the
  channel, from which the channel number can be read back; errors of each step are returned.
  A channel number without a frequency makes the function release a pointer that was never set.\<close>

theorem set_channel_spec:
  "set_channel env fam ifindex c =
    (if bad_channel c then None
     else if \<not> ne_alloc env 0 then Some (- ENOMEM, None)
     else if \<not> ne_header env \<or> \<not> ne_put env 0 \<or> \<not> ne_put env 1 \<or> \<not> ne_put env 2 then Some (- ENOBUFS, None)
     else Some (if ne_send env < 0 then ne_send env else ne_recv env,
       Some \<lparr>nm_header = Some (fam, SET_CHANNEL), nm_dump = False,
         nm_attrs = [U32 ATTR_IFINDEX (Num (word_of_int ifindex)),
           U32 ATTR_WIPHY_FREQ (Num (word_of_int (ieee80211_channel_to_frequency c))),
           U32 ATTR_WIPHY_CHANNEL_TYPE CHAN_HT40PLUS]\<rparr>))"
  by (auto simp: set_channel_def frequency_zero Let_def nla_put_def genlmsg_put_def empty_msg_def)

text \<open>A result of success for one channel makes every later question succeed.\<close>

theorem channel_availability_sticks:
  assumes "is_channel_available env fam args i c = Some (err, True, sent, args')"
    and "is_channel_available env' fam args' i' c' = Some (err', av, sent', args'')"
  shows "av"
proof -
  have "ca_is_available args'"
    using assms(1) parse_replies_correct [of "args\<lparr>ca_freq := ieee80211_channel_to_frequency c\<rparr>" "ne_replies env"]
    by (auto simp: is_channel_available_spec Let_def split: if_splits)
  then show ?thesis using assms(2) by (auto simp: is_channel_available_spec Let_def split: if_splits)
qed

text \<open>The requests for a neighbour fail cleanly only when the last allocation fails.\<close>

theorem neighbor_requests:
  "neighbor_add env i eth ip = None \<longleftrightarrow> \<not> ne_alloc env 0 \<or> \<not> ne_alloc env 1"
  "neighbor_remove env i ip = None \<longleftrightarrow> \<not> ne_alloc env 0"
  by (simp_all add: neighbor_add_def neighbor_remove_def)

text \<open>Monitor mode is requested with the flag for active monitoring; a failure to send or an error of
  the kernel is returned.\<close>

theorem set_monitor_mode_sent:
  assumes "\<And>k. ne_alloc env k" and "\<And>k. ne_put env k" and "ne_header env"
  shows "set_monitor_mode env fam ifindex = (if ne_send env < 0 then ne_send env else ne_recv env,
    Some \<lparr>nm_header = Some (fam, SET_INTERFACE), nm_dump = False,
      nm_attrs = [U32 ATTR_IFINDEX (Num (word_of_int ifindex)), U32 ATTR_IFTYPE IFTYPE_MONITOR,
        Nested ATTR_MNTR_FLAGS [Flag MNTR_FLAG_ACTIVE]]\<rparr>)"
  using assms by (simp add: set_monitor_mode_def nla_put_def nla_try_def genlmsg_put_def empty_msg_def)

text \<open>After a successful start both sockets are open and can be released; a start that fails in its
  second half leaves the first socket open and the second one in a state that must not be released.\<close>

theorem netutils_init_cleanup:
  "netutils_init er eg s = (err, s') \<Longrightarrow>
    (if err = 0 then nlroute s' = Open_Sock \<and> n_socket (nl80211 s') = Open_Sock \<and>
       n_nl80211_id (nl80211 s') = se_resolve eg \<and> netutils_cleanup s' \<noteq> None
     else err < 0 \<and> (netutils_cleanup s' = None \<longleftrightarrow>
       nlroute s' = Freed_Sock \<or> n_socket (nl80211 s') = Freed_Sock))"
  by (auto simp: netutils_init_def nlroute_init_def nl80211_init_def netutils_cleanup_def nl_socket_free_def
      Let_def split: if_splits nl_sock.splits)

text \<open>If the library knows no flag called \<^verbatim>\<open>down\<close>, taking a link down asks for no flag at all.\<close>

theorem link_down_sets_nothing:
  assumes "flags_of ''down'' = 0" and "0 \<le> get ifindex"
  shows "link_down flags_of get True ifindex = Some (0, Some (ifindex, 0))"
  using assms by (simp add: link_down_def link_updown_def)

end
