(* ===== verification/Logging.thy ===== *)
theory Logging
  imports Printing
begin

text \<open>
  log.c: the logger, its setters and what one call writes. The texts made by the C library (the two
  time stamps and the formatted message) are parameters; colours are switched off in the
  build. \<open>None\<close> stands for a level outside the table of names.
\<close>

abbreviation LOG_EMERG :: int where "LOG_EMERG \<equiv> 0"
abbreviation LOG_INFO :: int where "LOG_INFO \<equiv> 6"
abbreviation LOG_TRACE :: int where "LOG_TRACE \<equiv> 8"

record logger =
  lg_udata :: nat
  lg_lock :: bool
  lg_fp :: bool
  lg_level :: int
  lg_quiet :: bool

datatype log_effect = Lock_Call nat int | To_Stderr "u8 list" | To_File "u8 list"

definition level_names :: "u8 list list" where
  "level_names = map bytes_of [''EMERG'', ''ALERT'', ''CRIT'', ''ERROR'', ''WARN'', ''NOTICE'', ''INFO'', ''DEBUG'', ''TRACE'']"

definition lock :: "logger \<Rightarrow> log_effect list" where
  "lock L = (if lg_lock L then [Lock_Call (lg_udata L) 1] else [])"

definition unlock :: "logger \<Rightarrow> log_effect list" where
  "unlock L = (if lg_lock L then [Lock_Call (lg_udata L) 0] else [])"

definition log_set_udata :: "nat \<Rightarrow> logger \<Rightarrow> logger" where
  "log_set_udata udata L = L\<lparr>lg_udata := udata\<rparr>"

definition log_set_lock :: "bool \<Rightarrow> logger \<Rightarrow> logger" where
  "log_set_lock installed L = L\<lparr>lg_lock := installed\<rparr>"

definition log_set_fp :: "bool \<Rightarrow> logger \<Rightarrow> logger" where
  "log_set_fp opened L = L\<lparr>lg_fp := opened\<rparr>"

definition log_set_level :: "int \<Rightarrow> logger \<Rightarrow> logger" where
  "log_set_level level L = L\<lparr>lg_level := level\<rparr>"

definition log_set_quiet :: "int \<Rightarrow> logger \<Rightarrow> logger" where
  "log_set_quiet enable L = L\<lparr>lg_quiet := enable \<noteq> 0\<rparr>"

text \<open>The conversion \<^verbatim>\<open>%-ns\<close>.\<close>

definition pad_right :: "nat \<Rightarrow> u8 list \<Rightarrow> u8 list" where
  "pad_right n s = s @ replicate (n - length s) 32"

definition log_log ::
  "logger \<Rightarrow> u8 list \<Rightarrow> u8 list \<Rightarrow> int \<Rightarrow> u8 list \<Rightarrow> int \<Rightarrow> u8 list \<Rightarrow> (int \<times> log_effect list) option" where
  "log_log L clock date level source line message =
     (if level > lg_level L then Some (0, [])
      else if \<not> (lg_quiet L \<and> \<not> lg_fp L) \<and> (level < 0 \<or> int (length level_names) \<le> level) then None
      else
        let name = level_names ! nat level;
            stderr = (if \<not> lg_quiet L
              then [To_Stderr (clock @ [32] @ pad_right 5 name @ bytes_of '': '' @ message @ [10])] else []);
            log_file = (if lg_fp L
              then [To_File (date @ [32] @ pad_right 6 name @ [32] @ source @ bytes_of '':'' @ fmt_d line @
                bytes_of '': '' @ message @ [10])] else [])
        in Some (1, lock L @ stderr @ log_file @ unlock L))"

text \<open>A message above the level leaves no trace; any other is written between taking and releasing
  the lock, at most once to each destination, and levels 0 to 8 are always defined.\<close>

theorem log_log_writes:
  assumes "0 \<le> level" and "level \<le> LOG_TRACE"
  shows "(lg_level L < level \<longrightarrow> log_log L clock date level source line message = Some (0, [])) \<and>
    (level \<le> lg_level L \<longrightarrow> (\<exists>out. log_log L clock date level source line message = Some (1, lock L @ out @ unlock L) \<and>
       length out = of_bool (\<not> lg_quiet L) + of_bool (lg_fp L) \<and> (\<forall>u k. Lock_Call u k \<notin> set out)))"
  using assms by (auto simp: log_log_def level_names_def Let_def of_bool_def)

end
