(* ===== verification/Program.thy ===== *)
theory Program
  imports Core_System Netutils Logging
begin

text \<open>
  main.c: the options, becoming a daemon, and the start of the node; and what the whole program
  guarantees from the command line on.
\<close>

section \<open>Options\<close>

text \<open>\<open>atoi\<close>: white space, a sign, digits; \<open>None\<close> for a number that does not fit an \<open>int\<close>, which C
  leaves undefined.\<close>

definition is_space :: "u8 \<Rightarrow> bool" where
  "is_space c \<longleftrightarrow> c = 32 \<or> 9 \<le> c \<and> c \<le> 13"

definition is_digit :: "u8 \<Rightarrow> bool" where
  "is_digit c \<longleftrightarrow> 48 \<le> c \<and> c \<le> 57"

definition atoi :: "u8 list \<Rightarrow> int option" where
  "atoi s =
     (let s = dropWhile is_space s;
          neg = (s \<noteq> [] \<and> hd s = 45);
          s = (if s \<noteq> [] \<and> (hd s = 45 \<or> hd s = 43) then tl s else s);
          n = foldl (\<lambda>n c. n * 10 + (uint c - 48)) 0 (takeWhile is_digit s);
          n = (if neg then - n else n)
      in if - (2 ^ 31) \<le> n \<and> n < 2 ^ 31 then Some n else None)"

text \<open>\<open>o_wlan\<close> is \<open>None\<close> until the option is given: the array is not initialised.\<close>

record options =
  o_daemon :: bool
  o_dump :: bool
  o_chan_num :: int
  o_log_level :: int
  o_filter_rssi :: int
  o_no_monitor_mode :: bool
  o_wlan :: "u8 list option"
  o_host :: "u8 list"

definition default_options :: options where
  "default_options = \<lparr>o_daemon = False, o_dump = False, o_chan_num = 149, o_log_level = LOG_INFO,
     o_filter_rssi = 1, o_no_monitor_mode = False, o_wlan = None, o_host = bytes_of ''apple_p2p''\<rparr>"

abbreviation EXIT_SUCCESS :: int where "EXIT_SUCCESS \<equiv> 0"
abbreviation EXIT_FAILURE :: int where "EXIT_FAILURE \<equiv> 1"

datatype parsed = Options options | Bad_Usage | Aborted

text \<open>The list holds what the successive calls of \<open>getopt\<close> return, with \<open>optarg\<close>; \<open>None\<close> stands for a
  name that does not fit its array.\<close>

fun parse_options :: "(char \<times> u8 list) list \<Rightarrow> options \<Rightarrow> parsed option" where
  "parse_options [] opts = Some (Options opts)"
| "parse_options ((c, optarg) # rest) opts =
     (if c = CHR ''D'' then parse_options rest (opts\<lparr>o_daemon := True\<rparr>)
      else if c = CHR ''c'' then
        (case atoi optarg of None \<Rightarrow> None | Some n \<Rightarrow> parse_options rest (opts\<lparr>o_chan_num := n\<rparr>))
      else if c = CHR ''d'' then parse_options rest (opts\<lparr>o_dump := True\<rparr>)
      else if c = CHR ''f'' then parse_options rest (opts\<lparr>o_filter_rssi := 0\<rparr>)
      else if c = CHR ''v'' then
        parse_options rest (if o_log_level opts < LOG_TRACE then opts\<lparr>o_log_level := o_log_level opts + 1\<rparr> else opts)
      else if c = CHR ''i'' then
        (if length optarg < PATH_MAX then parse_options rest (opts\<lparr>o_wlan := Some optarg\<rparr>) else None)
      else if c = CHR ''h'' then
        (if length optarg < IFNAMSIZ then parse_options rest (opts\<lparr>o_host := optarg\<rparr>) else None)
      else if c = CHR ''N'' then parse_options rest (opts\<lparr>o_no_monitor_mode := True\<rparr>)
      else if c = CHR ''?'' then Some Bad_Usage
      else Some Aborted)"

lemma dec_digits_value:
  "foldl (\<lambda>m c. m * 10 + (uint c - 48)) 0 (dec_digits n) = int n \<and> (\<forall>c\<in>set (dec_digits n). is_digit c) \<and>
   dec_digits n \<noteq> []"
proof (induction n rule: dec_digits.induct)
  case (1 n)
  have digit: "uint (of_nat (48 + k) :: u8) = 48 + int k" "is_digit (of_nat (48 + k))" if "k < 10" for k
  proof -
    have "k \<in> {0, 1, 2, 3, 4, 5, 6, 7, 8, 9}" using that by auto
    then show "uint (of_nat (48 + k) :: u8) = 48 + int k" "is_digit (of_nat (48 + k))"
      by (auto simp: is_digit_def)
  qed
  show ?case
  proof (cases "n < 10")
    case True
    then show ?thesis using digit [of n] by (simp add: dec_digits.simps [of n])
  next
    case False
    have "int (n div 10) * 10 + int (n mod 10) = int n" by (simp add: zdiv_int zmod_int)
    then show ?thesis using False 1 digit [of "n mod 10"] by (simp add: dec_digits.simps [of n])
  qed
qed

text \<open>A number written in decimal is read back, within the range of an \<open>int\<close>.\<close>

theorem atoi_fmt_d:
  assumes "- (2 ^ 31) \<le> n" and "n < 2 ^ 31"
  shows "atoi (fmt_d n) = Some n"
proof -
  define ds where "ds = dec_digits (nat \<bar>n\<bar>)"
  have ds: "foldl (\<lambda>m c. m * 10 + (uint c - 48)) 0 ds = \<bar>n\<bar>" "\<forall>c\<in>set ds. is_digit c" "ds \<noteq> []"
    using dec_digits_value [of "nat \<bar>n\<bar>"] by (simp_all add: ds_def)
  then have take: "takeWhile is_digit ds = ds" by (simp add: takeWhile_eq_all_conv)
  have hd: "is_digit (hd ds)" using ds by simp
  then have first: "\<not> is_space (hd ds)" "hd ds \<noteq> 45" "hd ds \<noteq> 43"
    by (auto simp: is_digit_def is_space_def word_le_nat_alt)
  then have drop: "dropWhile is_space ds = ds" using ds(3) by (cases ds) simp_all
  have fmt: "fmt_d n = (if n < 0 then 45 # ds else ds)" by (simp add: fmt_d_def ds_def)
  show ?thesis
    using assms ds(1,3) first(2,3) by (simp add: fmt atoi_def Let_def is_space_def [of 45] take drop)
qed

text \<open>Two options that the option string announces end the program in \<open>abort\<close>.\<close>

theorem announced_options_abort:
  "parse_options ((CHR ''a'', arg) # rest) opts = Some Aborted"
  "parse_options ((CHR ''t'', arg) # rest) opts = Some Aborted"
  by simp_all

section \<open>Becoming a daemon\<close>

datatype daemon_step =
  Fork | Setsid | Ignore_Signal string | Umask nat | Chdir string | Close_Fd int | Open_Log

text \<open>What the process does, and the status it exits with, if it does: \<open>pid1\<close> and \<open>pid2\<close> are the results
  of the calls of \<open>fork\<close>.\<close>

definition daemonize :: "int \<Rightarrow> int \<Rightarrow> int \<Rightarrow> int \<Rightarrow> daemon_step list \<times> int option" where
  "daemonize pid1 sid pid2 open_max =
     (if pid1 < 0 then ([Fork], Some EXIT_FAILURE)
      else if pid1 > 0 then ([Fork], Some EXIT_SUCCESS)
      else if sid < 0 then ([Fork, Setsid], Some EXIT_FAILURE)
      else
        let steps = [Fork, Setsid, Ignore_Signal ''SIGCHLD'', Ignore_Signal ''SIGHUP'', Fork] in
        if pid2 < 0 then (steps, Some EXIT_FAILURE)
        else if pid2 > 0 then (steps, Some EXIT_SUCCESS)
        else (steps @ [Umask 0, Chdir ''/''] @ map Close_Fd (rev [0..open_max]) @ [Open_Log], None))"

section \<open>The program\<close>

record start_env =
  st_pid1 :: int
  st_sid :: int
  st_pid2 :: int
  st_open_max :: int
  st_init :: init_env
  st_logger :: logger

datatype main_result = Exits int | Aborts | Runs daemon_state "effect list" logger

definition channel_of :: "int \<Rightarrow> apple_p2p_chan option" where
  "channel_of chan_num =
     (if chan_num = 6 then Some CHAN_OPCLASS_6
      else if chan_num = 44 then Some CHAN_OPCLASS_44
      else if chan_num = 149 then Some CHAN_OPCLASS_149
      else None)"

text \<open>Up to the event loop; \<open>state\<close> is the memory of the state before.\<close>

definition main :: "start_env \<Rightarrow> (char \<times> u8 list) list \<Rightarrow> daemon_state \<Rightarrow> (daemon_step list \<times> main_result) option" where
  "main env args state =
     (case parse_options args default_options of
        None \<Rightarrow> None
      | Some Bad_Usage \<Rightarrow> Some ([], Exits EXIT_FAILURE)
      | Some Aborted \<Rightarrow> Some ([], Aborts)
      | Some (Options opts) \<Rightarrow>
          let L = log_set_level (o_log_level opts) (st_logger env);
              (steps, status) = (if o_daemon opts
                then daemonize (st_pid1 env) (st_sid env) (st_pid2 env) (st_open_max env) else ([], None))
          in case status of
            Some s \<Rightarrow> Some (steps, Exits s)
          | None \<Rightarrow> (case channel_of (o_chan_num opts) of
              None \<Rightarrow> Some (steps, Exits EXIT_FAILURE)
            | Some chan \<Rightarrow>
                let state = state\<lparr>d_io := (d_io state)\<lparr>wlan_no_monitor_mode := o_no_monitor_mode opts\<rparr>\<rparr> in
                (case o_wlan opts of
                   None \<Rightarrow> None
                 | Some wlan \<Rightarrow> do {
                     (err, state) \<leftarrow> apple_p2p_init (st_init env) state wlan (o_host opts) chan
                       (if o_dump opts then Some (bytes_of ''failed.pcap'') else None);
                     (if err < 0 then Some (steps, Exits EXIT_FAILURE) else
                       let state = state\<lparr>d_p2p := (d_p2p state)\<lparr>s_filter_rssi := o_filter_rssi opts\<rparr>\<rparr>
                       in Some (steps, Runs state (apple_p2p_schedule state) L))
                   })))"

text \<open>After the event loop.\<close>

definition main_end :: "daemon_state \<Rightarrow> closed list \<times> int" where
  "main_end state = (apple_p2p_free state, EXIT_SUCCESS)"

section \<open>From the command line on\<close>

lemma channel_of_num:
  "channel_of n = Some chan \<Longrightarrow> uint (apple_p2p_chan_num chan APPLE_P2P_CHAN_ENC_OPCLASS) = n \<and> n \<in> {6, 44, 149}"
  by (auto simp: channel_of_def apple_p2p_chan_num_def CHAN_OPCLASS_6_def CHAN_OPCLASS_44_def CHAN_OPCLASS_149_def
      split: if_splits)

lemma init_result: "apple_p2p_init env d0 wlan host chan dump = Some (err, d) \<Longrightarrow> \<not> err < 0 \<Longrightarrow> err = 0"
  by (auto simp: apple_p2p_init_def Let_def split: if_splits bind_splits)

lemma program_start:
  assumes run: "main env args state = Some (steps, Runs d effs L)" and "length (s_name (d_p2p state)) = 65"
    and "0 \<notin> set (ie_hostname (st_init env))" and "length (ie_hostname (st_init env)) \<le> 50"
  obtains n chan where "channel_of n = Some chan" and "loop_inv d (loop_start d)" and "short_name d"
    and "\<forall>i<16. ch_sequence (s_channel (d_p2p d)) ! i = chan"
proof -
  obtain chan wlan dump err d1 and opts :: options where chan: "channel_of (o_chan_num opts) = Some chan"
    and init: "apple_p2p_init (st_init env)
      (state\<lparr>d_io := (d_io state)\<lparr>wlan_no_monitor_mode := o_no_monitor_mode opts\<rparr>\<rparr>) wlan (o_host opts) chan dump = Some (err, d1)"
    and err: "\<not> err < 0" and d: "d = d1\<lparr>d_p2p := (d_p2p d1)\<lparr>s_filter_rssi := o_filter_rssi opts\<rparr>\<rparr>" and effs: "effs = apple_p2p_schedule d"
    using run unfolding main_def
    by (auto simp: Let_def split: option.splits parsed.splits prod.splits if_splits bind_splits)
  note c = init_correct [OF init [unfolded init_result [OF init err]]]
  have "daemon_inv d" "d_next d = None" "ring_list (d_queue d) = []" "valid_peers (d_p2p d) = {}" "short_name d"
    using c(1-4) c(5) assms(2-4)
    by (simp_all add: d daemon_inv_def p2p_inv_def state_wf_def valid_peers_def short_name_def)
  moreover have "ch_sequence (s_channel (d_p2p d)) ! i = chan" if "i < 16" for i using c(6) [OF that] by (simp add: d)
  ultimately show thesis using chan start_inv [of d] that by blast
qed

lemma program_starts_well:
  assumes "main env args state = Some (steps, Runs d effs L)" and "length (s_name (d_p2p state)) = 65"
    and "0 \<notin> set (ie_hostname (st_init env))" and "length (ie_hostname (st_init env)) \<le> 50"
  shows "loop_inv d (loop_start d)" and "short_name d"
  using program_start [OF assms] by blast+

text \<open>A start on the command line, to instantiate the properties with.\<close>

definition sample_start_at :: "ether_addr \<Rightarrow> start_env" where
  "sample_start_at a = \<lparr>st_pid1 = 0, st_sid = 5, st_pid2 = 0, st_open_max = 3, st_init = sample_init_at a,
     st_logger = \<lparr>lg_udata = 0, lg_lock = False, lg_fp = False, lg_level = 0, lg_quiet = False\<rparr>\<rparr>"

definition sample_start :: start_env where
  "sample_start = sample_start_at (EtherAddr 2 0 0 0 0 1)"

abbreviation sample_args :: "(char \<times> u8 list) list" where
  "sample_args \<equiv> [(CHR ''c'', bytes_of '' 44''), (CHR ''v'', []), (CHR ''i'', [119]), (CHR ''h'', [104])]"

lemma sample_main_at:
  obtains m d effs L where "main (sample_start_at a) sample_args (sample_daemon m) = Some ([], Runs d effs L)"
    and "d_next d = None" and "\<not> wlan_is_file (d_io d)" and "wlan_handle (d_io d) \<noteq> None" and "host_fd (d_io d) \<noteq> 0"
    and "ch_current (s_channel (d_p2p d)) = CHAN_NULL" and "s_self_address (d_p2p d) = a"
    and "s_sync (d_p2p d) = apple_p2p_sync_state_init 1000000"
    and "apple_p2p_peers_init (\<lambda>n. n \<le> 4096) = Some (speers (d_p2p d))"
proof -
  obtain m d where run: "apple_p2p_init (sample_init_at a) (sample_daemon m) [119] [104] CHAN_OPCLASS_44 None = Some (0, d)"
    and d: "\<not> wlan_is_file (d_io d)" "wlan_handle (d_io d) \<noteq> None" "host_fd (d_io d) \<noteq> 0"
      "ch_current (s_channel (d_p2p d)) = CHAN_NULL" "s_self_address (d_p2p d) = a"
      "s_sync (d_p2p d) = apple_p2p_sync_state_init 1000000"
      "apple_p2p_peers_init (\<lambda>n. n \<le> 4096) = Some (speers (d_p2p d))"
    by (rule sample_init_at_runs)
  have same: "(sample_daemon m)\<lparr>d_io := (d_io (sample_daemon m))\<lparr>wlan_no_monitor_mode := False\<rparr>\<rparr> = sample_daemon m"
    by (simp add: sample_daemon_def sample_io_def)
  have "atoi (bytes_of '' 44'') = Some 44" by code_simp
  then have "parse_options sample_args default_options = Some (Options (default_options\<lparr>o_chan_num := 44,
      o_log_level := 7, o_wlan := Some [119], o_host := [104]\<rparr>))"
    by (simp add: default_options_def)
  then have "main (sample_start_at a) sample_args (sample_daemon m) = Some ([], Runs (d\<lparr>d_p2p := (d_p2p d)\<lparr>s_filter_rssi := 1\<rparr>\<rparr>)
      (apple_p2p_schedule (d\<lparr>d_p2p := (d_p2p d)\<lparr>s_filter_rssi := 1\<rparr>\<rparr>)) (log_set_level 7 (st_logger (sample_start_at a))))"
    using run by (simp add: main_def default_options_def Let_def channel_of_def sample_start_at_def same)
  then show thesis using that d init_correct(2) [OF run] by simp
qed

lemma sample_main:
  obtains m d effs L where "main sample_start sample_args (sample_daemon m) = Some ([], Runs d effs L)"
    and "d_next d = None" and "\<not> wlan_is_file (d_io d)" and "ch_current (s_channel (d_p2p d)) = CHAN_NULL"
proof (rule sample_main_at)
  fix m d effs L
  assume "main (sample_start_at (EtherAddr 2 0 0 0 0 1)) sample_args (sample_daemon m) = Some ([], Runs d effs L)"
    and "d_next d = None" and "\<not> wlan_is_file (d_io d)" and "ch_current (s_channel (d_p2p d)) = CHAN_NULL"
  then show thesis using that by (simp add: sample_start_def)
qed

lemma sample_main_name:
  "length (s_name (d_p2p (sample_daemon m))) = 65" "0 \<notin> set (ie_hostname (st_init sample_start))"
  "length (ie_hostname (st_init sample_start)) \<le> 50"
  using sample_init_name by (simp_all add: sample_start_def sample_start_at_def)



text \<open>C2: in every state that the running program reaches, the peer table, the queue and the
  synchronisation state are well-formed, the schedule, the interfaces and the node's address
  are those of the start, the periodic timers are armed, and no frame is forgotten: while a
  unicast frame waits its timer is armed, and while the multicast queue holds a frame the
  multicast timer is armed.\<close>

theorem program_invariant:
  assumes "main env args state = Some (steps, Runs d effs L)" and "length (s_name (d_p2p state)) = 65"
    and "0 \<notin> set (ie_hostname (st_init env))" and "length (ie_hostname (st_init env)) \<le> 50" and "reachable d l"
  shows "daemon_inv (l_daemon l) \<and> same_node d (l_daemon l) \<and>
    {Mif_Timer, Psf_Timer, Chan_Timer, Peer_Timer} \<subseteq> l_armed l \<and>
    (d_next (l_daemon l) = None \<or> Tx_Timer \<in> l_armed l) \<and>
    (ring_list (d_queue (l_daemon l)) = [] \<or> Tx_Mcast_Timer \<in> l_armed l)"
proof -
  note start = program_starts_well [OF assms(1-4)]
  from reachable_loop_inv [OF assms(5) start] show ?thesis by (auto simp: loop_inv_def)
qed

theorem program_invariant_witness:
  "\<exists>m d effs L l'. main sample_start sample_args (sample_daemon m) = Some ([], Runs d effs L) \<and>
     reachable d l' \<and> Tx_Timer \<notin> l_armed l' \<and> d_next (l_daemon l') = None \<and> Chan_Timer \<in> l_armed l'"
proof -
  obtain m d effs L where run: "main sample_start sample_args (sample_daemon m) = Some ([], Runs d effs L)"
    "d_next d = None" by (rule sample_main)
  have "daemon_inv d" using program_invariant [OF run(1) sample_main_name reachable.start] by (simp add: loop_start_def)
  from tx_timer_step [OF this run(2)] obtain l' where "reachable d l'" "Tx_Timer \<notin> l_armed l'" by blast
  from program_invariant [OF run(1) sample_main_name this(1)] this show ?thesis using run(1) by blast
qed



section \<open>Channels\<close>

lemma switch_effects:
  assumes inv: "daemon_inv d" and run: "apple_p2p_switch_channel env d = Some (d', effs)" and req: "Set_Channel i c \<in> set effs"
  shows "\<exists>k<16. c = apple_p2p_chan_num (ch_sequence (s_channel (d_p2p d)) ! k) APPLE_P2P_CHAN_ENC_OPCLASS \<and>
    i = wlan_ifindex (d_io d)"
proof -
  have enc: "ch_enc (s_channel (d_p2p d)) = APPLE_P2P_CHAN_ENC_OPCLASS"
    using inv by (simp add: daemon_inv_def p2p_inv_def state_wf_def)
  obtain now where now: "clock_time_us (ce_clock env 0) = Some now"
    using run by (cases "clock_time_us (ce_clock env 0)") (auto simp: apple_p2p_switch_channel_def Let_def)
  let ?k = "unat (apple_p2p_sync_current_eaw now (s_sync (d_p2p d))) mod 16"
  have "c = apple_p2p_chan_num (ch_sequence (s_channel (d_p2p d)) ! ?k) APPLE_P2P_CHAN_ENC_OPCLASS \<and> i = wlan_ifindex (d_io d)"
    using run req unfolding switch_channel_correct [OF inv now] by (auto simp: Let_def enc split: if_splits)
  then show ?thesis by (intro exI [of _ ?k]) simp
qed

text \<open>C34: in every state the program reaches, the radio is only ever asked for channel 6, 44 or 149,
  namely the one of the command line, on the interface of the start; so the function that sets
  it always has a frequency and never releases an unset pointer.\<close>

theorem program_sets_valid_channels:
  assumes "main env args state = Some (steps, Runs d effs L)" and "length (s_name (d_p2p state)) = 65"
    and "0 \<notin> set (ie_hostname (st_init env))" and "length (ie_hostname (st_init env)) \<le> 50" and "reachable d l"
    and "apple_p2p_switch_channel cenv (l_daemon l) = Some (d', es)" and "Set_Channel i c \<in> set es"
  shows "uint c \<in> {6, 44, 149} \<and> i = wlan_ifindex (d_io d) \<and> set_channel nenv fam i (uint c) \<noteq> None"
proof -
  obtain n chan where chan: "channel_of n = Some chan"
    and start: "loop_inv d (loop_start d)" "short_name d" "\<forall>i<16. ch_sequence (s_channel (d_p2p d)) ! i = chan"
    by (rule program_start [OF assms(1-4)])
  from reachable_loop_inv [OF assms(5) start(1,2)] have inv: "daemon_inv (l_daemon l)" and same: "same_node d (l_daemon l)"
    by (simp_all add: loop_inv_def)
  from switch_effects [OF inv assms(6,7)] start(3) same have "c = apple_p2p_chan_num chan APPLE_P2P_CHAN_ENC_OPCLASS"
    and i: "i = wlan_ifindex (d_io d)"
    by (auto simp: same_node_def)
  then have "uint c \<in> {6, 44, 149}" using channel_of_num [OF chan] by simp
  then show ?thesis using i by (auto simp: set_channel_defined bad_channel_def)
qed

theorem program_sets_valid_channels_witness:
  "\<exists>m d effs L d' es i c. main sample_start sample_args (sample_daemon m) = Some ([], Runs d effs L) \<and>
     apple_p2p_switch_channel (sample_core_env 0 []) d = Some (d', es) \<and>
     Set_Channel i c \<in> set es \<and> uint c \<in> {6, 44, 149}"
proof -
  obtain m d effs L where run: "main sample_start sample_args (sample_daemon m) = Some ([], Runs d effs L)"
    and d: "\<not> wlan_is_file (d_io d)" "ch_current (s_channel (d_p2p d)) = CHAN_NULL" by (rule sample_main)
  obtain n chan where start: "loop_inv d (loop_start d)" and n: "channel_of n = Some chan"
    and chan: "\<forall>i<16. ch_sequence (s_channel (d_p2p d)) ! i = chan"
    by (rule program_start [OF run sample_main_name])
  have inv: "daemon_inv d" and start': "l_daemon (loop_start d) = d"
    using start by (simp_all add: loop_inv_def loop_start_def)
  then have enc: "ch_enc (s_channel (d_p2p d)) = APPLE_P2P_CHAN_ENC_OPCLASS"
    by (simp add: daemon_inv_def p2p_inv_def state_wf_def)
  have num: "apple_p2p_chan_num chan APPLE_P2P_CHAN_ENC_OPCLASS \<noteq> 0" "apple_p2p_chan_num CHAN_NULL APPLE_P2P_CHAN_ENC_OPCLASS = 0"
    using channel_of_num [OF n] by (auto simp: apple_p2p_chan_num_def CHAN_NULL_def)
  obtain now where now: "clock_time_us (ce_clock (sample_core_env 0 []) 0) = Some now"
    using sample_clocks_ok by (rule clocks_obtain)
  obtain d' es where switch: "apple_p2p_switch_channel (sample_core_env 0 []) d = Some (d', es)"
    and es: "Set_Channel (wlan_ifindex (d_io d)) (apple_p2p_chan_num chan APPLE_P2P_CHAN_ENC_OPCLASS) \<in> set es"
    using num d by (simp add: switch_channel_correct [OF inv now] chan enc Let_def)
  from program_sets_valid_channels [OF run sample_main_name reachable.start _ es] switch start' run es
  show ?thesis by (metis (no_types))
qed

end
