(* ===== verification/Air.thy ===== *)
theory Air
  imports Program Tx_Rx
begin

text \<open>
  Frames on the air: what a running node transmits, and what such a frame does to another running
  node, with the code of both sides.
\<close>

section \<open>What a node transmits\<close>

text \<open>The part of a node's state that never changes while it runs.\<close>

definition same_identity :: "daemon_state \<Rightarrow> apple_p2p_state \<Rightarrow> bool" where
  "same_identity d s \<longleftrightarrow> s_self_address s = s_self_address (d_p2p d) \<and> s_name s = s_name (d_p2p d) \<and>
     ch_sequence (s_channel s) = ch_sequence (s_channel (d_p2p d)) \<and> node_constants s = node_constants (d_p2p d)"

lemma same_node_identity: "same_node d d' \<Longrightarrow> same_identity d (d_p2p d')"
  by (simp add: same_node_def same_identity_def)

lemma same_identity_node: "same_node d d' \<Longrightarrow> same_identity d' s \<Longrightarrow> same_identity d s"
  by (simp add: same_node_def same_identity_def)

definition action_by :: "daemon_state \<Rightarrow> u8 \<Rightarrow> u8 list \<Rightarrow> bool" where
  "action_by d typ f \<longleftrightarrow> (typ = APPLE_P2P_ACTION_PSF \<or> typ = APPLE_P2P_ACTION_MIF) \<and>
     (\<exists>s seq now1 now2 name. same_identity d s \<and> enc_ok s \<and> c_string (s_name s) = Some name \<and>
       length name \<le> 50 \<and> f = action_frame s seq typ now1 now2 name)"

definition data_by :: "ether_addr \<Rightarrow> ether_addr \<Rightarrow> u8 list \<Rightarrow> u8 list \<Rightarrow> bool" where
  "data_by src dst payload f \<longleftrightarrow> length payload \<le> 1504 \<and> (\<exists>s seq. f = data_frame s seq src dst payload)"

definition transmitted_by :: "daemon_state \<Rightarrow> u8 list \<Rightarrow> bool" where
  "transmitted_by d f \<longleftrightarrow> (\<exists>typ. action_by d typ f) \<or> (\<exists>src dst payload. data_by src dst payload f)"

lemma action_by_same:
  assumes "same_node d d'" and "action_by d' typ f"
  shows "action_by d typ f"
proof -
  obtain s where "same_identity d' s" and rest: "typ = APPLE_P2P_ACTION_PSF \<or> typ = APPLE_P2P_ACTION_MIF"
    "enc_ok s" "\<exists>seq now1 now2 name. c_string (s_name s) = Some name \<and> length name \<le> 50 \<and>
       f = action_frame s seq typ now1 now2 name"
    using assms(2) unfolding action_by_def by (elim conjE exE) blast
  then have "same_identity d s" using same_identity_node assms(1) by blast
  with rest show ?thesis unfolding action_by_def by blast
qed

lemma transmitted_same: "same_node d d' \<Longrightarrow> transmitted_by d' f \<Longrightarrow> transmitted_by d f"
  unfolding transmitted_by_def using action_by_same [of d d' _ f] by blast

lemma transmitted_length:
  assumes "transmitted_by d f"
  shows "42 \<le> length f \<and> length f \<le> 1562"
proof -
  consider (action) ty where "action_by d ty f" | (data) src dst payload where "data_by src dst payload f"
    using assms by (auto simp: transmitted_by_def)
  then show ?thesis
  proof cases
    case action
    then obtain s seq now1 now2 name where "enc_ok s" "length name \<le> 50" and f: "f = action_frame s seq ty now1 now2 name"
      by (auto simp: action_by_def)
    then have "length f \<le> 1302" using action_frame_length [of s name seq ty now1 now2] by simp
    moreover have "42 \<le> length f" by (simp add: f action_frame_def hdr_bytes_def)
    ultimately show ?thesis by simp
  next
    case data
    then obtain s seq where "length payload \<le> 1504" "f = data_frame s seq src dst payload" by (auto simp: data_by_def)
    then show ?thesis by (simp add: data_frame_def hdr_bytes_def llc_bytes_def data_bytes_def)
  qed
qed

text \<open>The frames in the effects of a handler.\<close>

definition sent :: "effect list \<Rightarrow> u8 list set" where
  "sent effs = {f. Inject f \<in> set effs}"

lemma sent_simps [simp]:
  "sent [] = {}" "sent (xs @ ys) = sent xs \<union> sent ys"
  "sent (Inject f # ys) = insert f (sent ys)" "sent (Timer_Rearm t x # ys) = sent ys"
  "sent (Timer_Again t # ys) = sent ys" "sent (Feed_Event w # ys) = sent ys" "sent (Neighbor q # ys) = sent ys"
  "sent (Query_Channel i c # ys) = sent ys" "sent (Set_Channel i c # ys) = sent ys" "sent (Host_Write bs # ys) = sent ys"
  "sent (Dump_Frame n bs # ys) = sent ys"
  by (auto simp: sent_def)

lemma sent_injected: "sent (injected io f) = (if wlan_handle io = None then {} else {f})"
  by (simp add: injected_def)

definition transmits :: "daemon_state \<Rightarrow> effect list \<Rightarrow> bool" where
  "transmits d effs \<longleftrightarrow> (\<forall>f \<in> sent effs. transmitted_by d f)"

lemma transmits_simps [simp]:
  "transmits d []" "transmits d (xs @ ys) \<longleftrightarrow> transmits d xs \<and> transmits d ys"
  by (auto simp: transmits_def)

lemma transmits_none: "sent effs = {} \<Longrightarrow> transmits d effs"
  by (simp add: transmits_def)

lemma action_transmits:
  assumes "daemon_inv d" and "short_name d" and "\<not> i_fcs (d_80211 d)"
    and "typ = APPLE_P2P_ACTION_PSF \<or> typ = APPLE_P2P_ACTION_MIF"
  shows "action_by d typ (action_bytes_of d typ now1 now2)"
proof -
  obtain name where "c_string (s_name (d_p2p d)) = Some name" "length name \<le> 50"
    using assms(2) by (auto simp: short_name_def)
  moreover from this have "action_bytes_of d typ now1 now2 =
      action_frame (d_p2p d) (i_sequence_number (d_80211 d)) typ now1 now2 name"
    using assms(3) by (simp add: action_bytes_of_def with_fcs_def)
  moreover have "enc_ok (d_p2p d)" using assms(1) p2p_inv_enc by (simp add: daemon_inv_def)
  moreover have "same_identity d (d_p2p d)" by (simp add: same_identity_def)
  ultimately show ?thesis using assms(4) unfolding action_by_def by blast
qed

lemma data_transmits:
  assumes "data_sent io p i b = (p', i', effs)" and "host_frame b" and "\<not> i_fcs i" and "f \<in> sent effs"
  shows "data_by (frame_src b) (frame_dst b) (drop 14 (buf_view b)) f" and "14 \<le> b_len b"
proof -
  have "wf_buf b" "b_len b \<le> 1518" using assms(2) by (simp_all add: host_frame_def)
  then have "length (buf_view b) \<le> 1518" by (simp add: b_len_view)
  then have len: "length (drop 14 (buf_view b)) \<le> 1504" by simp
  have f: "14 \<le> b_len b \<and> f = data_frame p (i_sequence_number i) (frame_src b) (frame_dst b) (drop 14 (buf_view b))"
    using assms(1,3,4) by (auto simp: data_sent_def sent_injected data_bytes_of_def with_fcs_def split: if_splits)
  then show "14 \<le> b_len b" by simp
  from len f show "data_by (frame_src b) (frame_dst b) (drop 14 (buf_view b)) f" unfolding data_by_def by blast
qed

text \<open>A timer is never armed with a negative delay.\<close>

definition delays_ok :: "effect list \<Rightarrow> bool" where
  "delays_ok effs \<longleftrightarrow> (\<forall>t x. Timer_Rearm t x \<in> set effs \<longrightarrow> 0 \<le> x)"

lemma delays_simps [simp]:
  "delays_ok []" "delays_ok (xs @ ys) \<longleftrightarrow> delays_ok xs \<and> delays_ok ys"
  "delays_ok (Inject f # ys) = delays_ok ys" "delays_ok (Timer_Rearm t x # ys) \<longleftrightarrow> 0 \<le> x \<and> delays_ok ys"
  "delays_ok (Timer_Again t # ys) = delays_ok ys" "delays_ok (Feed_Event w # ys) = delays_ok ys"
  "delays_ok (Neighbor q # ys) = delays_ok ys" "delays_ok (Query_Channel i c # ys) = delays_ok ys"
  "delays_ok (Set_Channel i c # ys) = delays_ok ys" "delays_ok (Host_Write bs # ys) = delays_ok ys"
  "delays_ok (Dump_Frame n bs # ys) = delays_ok ys" "delays_ok (injected io f)"
  by (auto simp: delays_ok_def injected_def)

lemma retry_nonneg [simp]: "0 \<le> unicast_retry x" "0 \<le> multicast_retry x"
  by (simp_all add: unicast_retry_def multicast_retry_def)

lemma data_sent_air:
  assumes ds: "data_sent io p i b = (p', i', effs)" and "host_frame b" and "\<not> i_fcs i"
  shows "transmits d effs \<and> delays_ok effs \<and> speers p' = speers p"
proof (intro conjI)
  show "transmits d effs"
    unfolding transmits_def transmitted_by_def using data_transmits(1) [OF assms] by blast
  show "delays_ok effs" using ds by (auto simp: data_sent_def split: if_splits)
  show "speers p' = speers p" using data_sent_keeps(6) [OF ds] by simp
qed

text \<open>Only the reception of a frame puts something new into the peer table.\<close>

definition quiet :: "daemon_state \<Rightarrow> daemon_state \<Rightarrow> effect list \<Rightarrow> bool" where
  "quiet d d' effs \<longleftrightarrow> transmits d effs \<and> delays_ok effs \<and>
     peer_map (speers (d_p2p d')) \<subseteq>\<^sub>m peer_map (speers (d_p2p d))"

lemma unicast_quiet:
  assumes inv: "daemon_inv d" and fcs: "\<not> i_fcs (d_80211 d)" and env: "clocks_ok env"
    and run: "apple_p2p_send_unicast env d = Some (d', effs)"
  shows "quiet d d' effs"
proof -
  obtain now where now: "clock_time_us (ce_clock env 0) = Some now" using env by (rule clocks_obtain)
  note run' = run [unfolded send_unicast_correct [OF inv env now]]
  show ?thesis
  proof (cases "d_next d")
    case None
    then show ?thesis using run' by (auto simp: quiet_def transmits_none)
  next
    case (Some b)
    then have b: "host_frame b" using inv by (simp add: daemon_inv_def next_ok_def)
    obtain p' i' es where ds: "data_sent (d_io d) (d_p2p d) (d_80211 d) b = (p', i', es)"
      by (rule prod_cases3)
    note air = data_sent_air [OF ds b fcs, of d]
    show ?thesis
      using run' Some air by (auto simp: unicast_result_def ds Let_def quiet_def transmits_none split: if_splits option.splits)
  qed
qed

lemma multicast_quiet:
  assumes inv: "daemon_inv d" and fcs: "\<not> i_fcs (d_80211 d)" and env: "clocks_ok env"
    and run: "apple_p2p_send_multicast env d = Some (d', effs)"
  shows "quiet d d' effs"
proof -
  obtain now where now: "clock_time_us (ce_clock env 0) = Some now" using env by (rule clocks_obtain)
  note run' = run [unfolded send_multicast_correct [OF inv env now]]
  show ?thesis
  proof (cases "ring_list (d_queue d)")
    case Nil
    then show ?thesis using run' by (auto simp: quiet_def transmits_none)
  next
    case (Cons b bs)
    then have b: "host_frame b" using inv by (simp add: daemon_inv_def queued_ok_def)
    obtain p' i' es where ds: "data_sent (d_io d) (d_p2p d) (d_80211 d) b = (p', i', es)"
      by (rule prod_cases3)
    note air = data_sent_air [OF ds b fcs, of d]
    show ?thesis
      using run' Cons air by (auto simp: multicast_result_def ds Let_def quiet_def transmits_none split: if_splits)
  qed
qed

lemma quiet_trans:
  "quiet d d1 es1 \<Longrightarrow> same_node d d1 \<Longrightarrow> quiet d1 d2 es2 \<Longrightarrow> quiet d d2 (es1 @ es2)"
  using transmitted_same [of d d1] unfolding quiet_def transmits_def by (auto intro: map_le_trans)

lemma action_quiet:
  assumes "daemon_inv d" and "short_name d" and "\<not> i_fcs (d_80211 d)"
    and "typ = APPLE_P2P_ACTION_PSF \<or> typ = APPLE_P2P_ACTION_MIF"
  shows "quiet d (counted_action d) (injected io (action_bytes_of d typ now1 now2))"
  using action_transmits [OF assms]
  by (auto simp: quiet_def transmits_def transmitted_by_def sent_injected counted_action_def)

lemma timer_quiet:
  assumes inv: "daemon_inv d" and name: "short_name d" and fcs: "\<not> i_fcs (d_80211 d)" and env: "clocks_ok env"
    and run: "handle_event (Timer_Fires t env) d = Some (d', effs)"
  shows "quiet d d' effs"
proof -
  obtain now0 now1 now2 where clk: "clock_time_us (ce_clock env 0) = Some now0"
    "clock_time_us (ce_clock env 1) = Some now1" "clock_time_us (ce_clock env 2) = Some now2"
    by (meson env clocks_obtain)
  note act = action_quiet [OF inv name fcs]
  show ?thesis
  proof (cases t)
    case Mif_Timer
    then show ?thesis
      using run act [of APPLE_P2P_ACTION_MIF "d_io d" now1 now2]
      by (auto simp: send_mif_correct [OF inv name env clk] Let_def quiet_def transmits_none split: if_splits)
  next
    case Psf_Timer
    then show ?thesis
      using run act [of APPLE_P2P_ACTION_PSF "d_io d" now0 now1]
      by (simp add: send_psf_correct [OF inv name env clk(1,2)])
  next
    case Tx_Timer
    then show ?thesis using run unicast_quiet [OF inv fcs env] by simp
  next
    case Tx_Mcast_Timer
    then show ?thesis using run multicast_quiet [OF inv fcs env] by simp
  next
    case Chan_Timer
    then show ?thesis
      using run by (auto simp: switch_channel_correct [OF inv clk(1)] Let_def quiet_def transmits_none split: if_splits)
  next
    case Peer_Timer
    let ?cut = "now0 - ps_timeout (s_peers (d_p2p d))"
    obtain m removed where clean: "apple_p2p_clean_peers env d =
        Some (aged d m (adopt (s_election (d_p2p d)) (election_winner (s_election (d_p2p d)) m)),
          map (apple_p2p_neighbor_remove (d_io d)) removed @ [Timer_Again Peer_Timer])"
      and m: "peer_map m = (\<lambda>a. ages ?cut (peer_map (speers (d_p2p d)) a))"
      using clean_peers_correct [OF inv clk(1)] by blast
    have "sent (map (apple_p2p_neighbor_remove (d_io d)) removed) = {}"
      and "delays_ok (map (apple_p2p_neighbor_remove (d_io d)) removed)"
      by (auto simp: sent_def delays_ok_def apple_p2p_neighbor_remove_def)
    moreover have "peer_map m \<subseteq>\<^sub>m peer_map (speers (d_p2p d))"
      by (auto simp: map_le_def m ages_def split: option.splits if_splits)
    ultimately show ?thesis
      using run Peer_Timer clean by (auto simp: quiet_def transmits_none aged_def)
  qed
qed

lemma host_quiet:
  assumes inv: "daemon_inv d" and fcs: "\<not> i_fcs (d_80211 d)" and env: "event_ok (Host_Ready env env_m env_u)"
    and run: "handle_event (Host_Ready env env_m env_u) d = Some (d', effs)"
  shows "quiet d d' effs"
proof -
  have ok: "reads_ok env" "clocks_ok env_m" "clocks_ok env_u" using env by simp_all
  obtain ms :: "buf list" and u :: "buf option" and d1 where
    poll: "poll_host_device env d = Some (flags (ms \<noteq> []) (u \<noteq> None), d1)"
    and k1: "keeps d d1" and p1: "d_p2p d1 = d_p2p d"
    by (rule poll_keeps [OF inv ok(1)]) blast
  obtain d2 es2 es3 where m: "(if ms \<noteq> [] then apple_p2p_send_multicast env_m d1 else Some (d1, [])) = Some (d2, es2)"
    and n: "(if u \<noteq> None then apple_p2p_send_unicast env_u d2 else Some (d2, [])) = Some (d', es3)"
    and effs: "effs = es2 @ es3"
    using run by (auto simp: host_device_ready_def poll flags_and split: bind_splits)
  have d1: "daemon_inv d1" "\<not> i_fcs (d_80211 d1)" "same_node d d1"
    using k1 fcs by (simp_all add: keeps_def same_node_def)
  have q1: "quiet d d1 []" by (simp add: quiet_def p1)
  have "quiet d1 d2 es2 \<and> keeps d1 d2"
  proof (cases "ms = []")
    case True
    then show ?thesis using m d1(1) by (auto simp: quiet_def keeps_def)
  next
    case False
    then have r: "apple_p2p_send_multicast env_m d1 = Some (d2, es2)" using m by simp
    show ?thesis using multicast_quiet [OF d1(1,2) ok(2) r] multicast_keeps [OF d1(1) ok(2) r] by blast
  qed
  then have q2: "quiet d1 d2 es2" and d2: "daemon_inv d2" "same_node d1 d2" by (simp_all add: keeps_def)
  then have fcs2: "\<not> i_fcs (d_80211 d2)" using d1(2) by (simp add: same_node_def)
  have q3: "quiet d2 d' es3"
  proof (cases "u = None")
    case True
    then show ?thesis using n by (auto simp: quiet_def)
  next
    case False
    then show ?thesis using n unicast_quiet [OF d2(1) fcs2 ok(3)] by auto
  qed
  from quiet_trans [OF quiet_trans [OF q1 d1(3) q2] same_node_trans [OF d1(3) d2(2)] q3] show ?thesis
    by (simp add: effs)
qed

section \<open>What a transmission does to another node\<close>

text \<open>The values every node starts with: version 3.4, the device class of a macOS node, and the limits
  of the signal filter.\<close>

definition standard_node :: "daemon_state \<Rightarrow> bool" where
  "standard_node d \<longleftrightarrow> node_constants (d_p2p d) =
     (apple_p2p_version 3 4, APPLE_P2P_DEVCLASS_MACOS, word_of_int (-65), word_of_int (-5)) \<and> \<not> i_fcs (d_80211 d)"

lemma standard_same: "same_node d d' \<Longrightarrow> standard_node d' = standard_node d"
  by (simp add: standard_node_def same_node_def)

lemma standard_hears: "standard_node d \<Longrightarrow> -65 \<le> sint signal \<Longrightarrow> \<not> rssi_ignored (d_p2p d) signal a"
  by (simp add: standard_node_def node_constants_def rssi_ignored_def Let_def)

text \<open>What a node holds about node \<open>k\<close> is what \<open>k\<close> is: its address, channel sequence, version and
  device class, and its name once the entry is valid.\<close>

definition truthful :: "daemon_state \<Rightarrow> apple_p2p_peer \<Rightarrow> bool" where
  "truthful k p \<longleftrightarrow> p_addr p = s_self_address (d_p2p k) \<and> p_sequence p = ch_sequence (s_channel (d_p2p k)) \<and>
     p_version p = s_version (d_p2p k) \<and> p_devclass p = s_dev_class (d_p2p k) \<and>
     (p_is_valid p \<or> p_sent_mif p \<longrightarrow> c_string (s_name (d_p2p k)) = Some (p_name p))"

lemma receive_data:
  assumes inv: "daemon_inv d" and env: "rx_ok env" and f: "data_by src dst payload f" and cap: "captured f signal c"
  shows "\<exists>d' effs. apple_p2p_receive_frame env c d = Some (d', effs) \<and> sent effs = {} \<and>
    speers (d_p2p d') = speers (d_p2p d) \<and>
    (src \<noteq> s_self_address (d_p2p d) \<and> peer_map (speers (d_p2p d)) src \<noteq> None \<and> host_fd (d_io d) \<noteq> 0 \<longrightarrow>
     (\<exists>w. effs = [Host_Write w] \<and>
       take (14 + length payload) w = octets dst @ octets src @ be_bytes 2 (0x86dd :: u16) @ payload))"
proof -
  let ?p = "d_p2p d"
  have wf: "peers_wf (speers ?p)" using inv by (simp add: daemon_inv_def p2p_inv_def)
  obtain tsft where clk: "clock_time_us (re_clock (ce_rx env)) = Some tsft" using env by (auto simp: rx_ok_def)
  obtain s seq where fr: "f = data_frame s seq src dst payload" and len: "length payload \<le> 1504"
    using f by (auto simp: data_by_def)
  have v: "drop 18 f = hdr_bytes src dst (IEEE80211_FTYPE_DATA OR IEEE80211_STYPE_DATA) seq @ llc_bytes @ data_bytes s @ payload"
    by (simp add: fr data_frame_def)
  from rx_captured [OF cap v clk, of "[]" ?p] obtain g where
    g: "wf_buf g" "buf_view g = llc_bytes @ data_bytes s @ payload"
    and rx: "apple_p2p_rx (ce_rx env) (const_buf c) [] ?p =
      (if src = s_self_address ?p then Some (RX_IGNORE_FROM_SELF, [], ?p, [])
       else rx_frame_type (ce_rx env) (IEEE80211_FTYPE_DATA OR IEEE80211_STYPE_DATA) g [] signal tsft src dst ?p)"
    by blast
  have t: "be_word [0x86, 0xdd] = (0x86dd :: u16)" by code_simp
  have valid: "valid_llc (buf_view g)" "16 \<le> length (buf_view g)" "slice (buf_view g) 14 2 = [0x86, 0xdd]"
    "drop 16 (buf_view g) = payload"
    by (simp_all add: g(2) valid_llc_def llc_bytes_def data_bytes_def slice_def)
  from rx_data_correct [OF g(1) wf, of "ce_rx env" "[]" dst src] valid t obtain b where
    b: "wf_buf b" "buf_view b = ethernet_out (re_heap (ce_rx env) 0) dst src 0x86dd payload"
    and data: "apple_p2p_rx_data (ce_rx env) g [] src dst ?p =
      (if peer_map (speers ?p) src = None then (RX_IGNORE_PEER, [], count_data 1 ?p)
       else (RX_OK, [b], count_data 1 ?p))"
    by (auto simp: count_data_def)
  have bytes: "take (14 + length payload) (buf_view b) = octets dst @ octets src @ be_bytes 2 (0x86dd :: u16) @ payload"
    unfolding b(2) by (rule ethernet_out_take [OF len])
  have run: "apple_p2p_receive_frame env c d = received d c (if src = s_self_address ?p then (RX_IGNORE_FROM_SELF, [], ?p, [])
      else if peer_map (speers ?p) src = None then (RX_IGNORE_PEER, [], count_data 1 ?p, [])
      else (RX_OK, [b], count_data 1 ?p, []))"
    using receive_frame_correct [OF inv env, of c] rx data by (auto simp: rx_frame_type_def Let_def)
  show ?thesis
    unfolding run using bytes by (auto simp: received_def callback_effects_def host_writes_def)
qed

text \<open>Hearing node \<open>k\<close> again leaves a truthful entry truthful, and makes a new one so.\<close>

lemma truthful_again:
  fixes env :: rx_env and mem :: apple_p2p_peer and tsft :: u64
  assumes old: "\<And>q. old = Some q \<Longrightarrow> truthful k q" and s: "same_identity k s"
    and name: "c_string (s_name s) = Some name" and a: "s_self_address s = a" and std: "standard_node k"
    and kind: "typ = APPLE_P2P_ACTION_PSF \<or> typ = APPLE_P2P_ACTION_MIF"
  defines "p \<equiv> action_peer env a tsft (uint typ) True (announced_peer s typ name (added_peer mem old a tsft))"
  shows "truthful k p" and "typ = APPLE_P2P_ACTION_MIF \<Longrightarrow> p_is_valid p" and "p_last_update p = tsft"
    and "p_election p = (s_election s)\<lparr>e_self_addr := e_self_addr (p_election p)\<rparr>"
proof -
  let ?q = "announced_peer s typ name (added_peer mem old a tsft)"
  have id: "s_self_address (d_p2p k) = a" "s_name (d_p2p k) = s_name s"
    "ch_sequence (s_channel (d_p2p k)) = ch_sequence (s_channel s)" "s_version s = s_version (d_p2p k)"
    "s_dev_class s = s_dev_class (d_p2p k)"
    using s a by (simp_all add: same_identity_def node_constants_def)
  have dev: "s_version (d_p2p k) \<noteq> 0" "s_dev_class (d_p2p k) \<noteq> 0"
    using std by (simp_all add: standard_node_def node_constants_def apple_p2p_version_def)
  have marks: "p_addr (added_peer mem old a tsft) = a"
    "p_is_valid (added_peer mem old a tsft) \<or> p_sent_mif (added_peer mem old a tsft) \<Longrightarrow>
       Some (p_name (added_peer mem old a tsft)) = c_string (s_name s)"
    using old id(1,2)
    by (cases old; force simp: added_peer_def apple_p2p_peer_new_def apple_p2p_peer_is_valid_def truthful_def Let_def)+
  have p: "p = (let q = (marked_mif (uint typ) ?q)\<lparr>p_last_update := tsft\<rparr>
      in q\<lparr>p_is_valid := p_is_valid q \<or> apple_p2p_peer_is_valid q\<rparr>)"
    by (simp add: p_def action_peer_def added_peer_def)
  show "p_last_update p = tsft" and "p_election p = (s_election s)\<lparr>e_self_addr := e_self_addr (p_election p)\<rparr>"
    by (simp_all add: p Let_def marked_mif_def announced_peer_def announced_election_def)
  show "p_is_valid p" if "typ = APPLE_P2P_ACTION_MIF"
    using that dev id by (simp add: p Let_def marked_mif_def announced_peer_def apple_p2p_peer_is_valid_def)
  show "truthful k p"
    using kind marks id name
    by (auto simp: truthful_def p Let_def marked_mif_def announced_peer_def apple_p2p_peer_is_valid_def)
qed

lemma receive_own:
  assumes inv: "daemon_inv d" and env: "rx_ok env" and f: "action_by k typ f" and cap: "captured f signal c"
    and self: "s_self_address (d_p2p k) = s_self_address (d_p2p d)"
  shows "apple_p2p_receive_frame env c d = Some (d, [])"
proof -
  let ?p = "d_p2p d"
  obtain tsft where clk: "clock_time_us (re_clock (ce_rx env)) = Some tsft" using env by (auto simp: rx_ok_def)
  obtain s seq now1 now2 name where "same_identity k s" and fr: "f = action_frame s seq typ now1 now2 name"
    and kind: "typ = APPLE_P2P_ACTION_PSF \<or> typ = APPLE_P2P_ACTION_MIF"
    using f by (auto simp: action_by_def)
  then have src: "s_self_address s = s_self_address ?p" using self by (simp add: same_identity_def)
  have "apple_p2p_rx (ce_rx env) (const_buf c) [] ?p = Some (RX_IGNORE_FROM_SELF, [], ?p, [])"
    using rx_captured_action [OF cap [unfolded fr] kind clk, of "[]" ?p] src by auto
  then show ?thesis
    using receive_frame_correct [OF inv env, of c] by (auto simp: received_def callback_effects_def host_writes_def)
qed

lemma receive_action:
  assumes inv: "daemon_inv d" and env: "rx_ok env" and f: "action_by k typ f" and cap: "captured f signal c"
    and std: "standard_node d" "standard_node k"
    and other: "s_self_address (d_p2p k) \<noteq> s_self_address (d_p2p d)"
    and old: "\<forall>q. peer_map (speers (d_p2p d)) (s_self_address (d_p2p k)) = Some q \<longrightarrow> truthful k q"
  shows "\<exists>d' effs. apple_p2p_receive_frame env c d = Some (d', effs) \<and> sent effs = {} \<and>
    (((\<exists>tsft. no_room (ce_rx env) (d_p2p d) (s_self_address (d_p2p k)) tsft) \<or> sint signal < -65) \<and>
       peer_map (speers (d_p2p d')) \<subseteq>\<^sub>m peer_map (speers (d_p2p d)) \<or>
     (\<exists>p. peer_map (speers (d_p2p d')) = (peer_map (speers (d_p2p d)))(s_self_address (d_p2p k) \<mapsto> p) \<and>
       truthful k p \<and> (typ = APPLE_P2P_ACTION_MIF \<longrightarrow> p_is_valid p)))"
proof -
  let ?p = "d_p2p d" and ?a = "s_self_address (d_p2p k)"
  have wf: "peers_wf (speers ?p)" "sync_wf (s_sync ?p)"
    using inv by (simp_all add: daemon_inv_def p2p_inv_def state_wf_def)
  obtain tsft where clk: "clock_time_us (re_clock (ce_rx env)) = Some tsft" and rxenv: "rx_env_ok (ce_rx env)"
    using env by (auto simp: rx_ok_def)
  have kind: "typ = APPLE_P2P_ACTION_PSF \<or> typ = APPLE_P2P_ACTION_MIF" using f by (simp add: action_by_def)
  obtain s seq now1 now2 name where s: "same_identity k s" "enc_ok s" "c_string (s_name s) = Some name" "length name \<le> 50"
    and fr: "f = action_frame s seq typ now1 now2 name"
    using f unfolding action_by_def by blast
  have a: "s_self_address s = ?a" using s(1) by (simp add: same_identity_def)
  note air = cap [unfolded fr]
  have "\<exists>res p' evs. apple_p2p_rx (ce_rx env) (const_buf c) [] ?p = Some (res, [], p', evs) \<and>
     (res = RX_IGNORE_RSSI \<and> p' = ?p \<and> sint signal < -65 \<or>
      res = RX_IGNORE \<and> rx_dropped ?p ?a p' \<and> no_room (ce_rx env) ?p ?a tsft \<or>
      res = RX_OK \<and> rx_preserves ?p ?a p' \<and> peer_map (speers p') ?a =
       Some (action_peer (ce_rx env) ?a tsft (uint typ) True (announced_peer s typ name
         (added_peer (re_peer_mem (ce_rx env)) (peer_map (speers ?p) ?a) ?a tsft))))"
  proof (cases "rssi_ignored ?p signal ?a")
    case True
    then have "sint signal < -65" using standard_hears [OF std(1)] by force
    then show ?thesis using rx_weak_action [OF air kind clk other [folded a]] True by (simp add: a)
  next
    case False
    from action_roundtrip_correct [OF s(2,4) kind wf rxenv clk other [folded a] False [folded a] air, of "[]"]
    show ?thesis unfolding a by blast
  qed
  then obtain res p' evs where rx: "apple_p2p_rx (ce_rx env) (const_buf c) [] ?p = Some (res, [], p', evs)"
    and alt: "res = RX_IGNORE_RSSI \<and> p' = ?p \<and> sint signal < -65 \<or>
      res = RX_IGNORE \<and> rx_dropped ?p ?a p' \<and> no_room (ce_rx env) ?p ?a tsft \<or>
      res = RX_OK \<and> rx_preserves ?p ?a p' \<and> peer_map (speers p') ?a =
       Some (action_peer (ce_rx env) ?a tsft (uint typ) True (announced_peer s typ name
         (added_peer (re_peer_mem (ce_rx env)) (peer_map (speers ?p) ?a) ?a tsft)))"
    by blast
  obtain res' where res': "apple_p2p_rx (ce_rx env) (const_buf c) [] ?p = Some res'" "rx_outcome ?p [] res'"
    "apple_p2p_receive_frame env c d = received d c res'"
    using receive_frame_correct [OF inv env] by blast
  then have out: "rx_outcome ?p [] (res, [], p', evs)" and run: "apple_p2p_receive_frame env c d = received d c (res, [], p', evs)"
    using rx by simp_all
  have nonneg: "\<not> res < 0" using alt by auto
  have "sent (callback_effects (d_io d) evs) = {}"
    by (auto simp: sent_def callback_effects_def apple_p2p_neighbor_add_def split: rx_event.splits)
  then have step: "apple_p2p_receive_frame env c d = Some (d\<lparr>d_p2p := p'\<rparr>, callback_effects (d_io d) evs) \<and>
      sent (callback_effects (d_io d) evs) = {}"
    using nonneg by (simp add: run received_def host_writes_def)
  show ?thesis
  proof (cases "res = RX_OK")
    case True
    note again = truthful_again [where mem = "re_peer_mem (ce_rx env)" and env = "ce_rx env" and tsft = tsft,
        OF old [rule_format] s(1,3) a std(2) kind]
    let ?q = "action_peer (ce_rx env) ?a tsft (uint typ) True (announced_peer s typ name
         (added_peer (re_peer_mem (ce_rx env)) (peer_map (speers ?p) ?a) ?a tsft))"
    have "peer_map (speers p') = (peer_map (speers ?p))(?a \<mapsto> ?q)"
      using alt True by (auto simp: rx_preserves_def)
    then show ?thesis using step again(1,2) by (intro exI [of _ "d\<lparr>d_p2p := p'\<rparr>"] exI conjI disjI2) auto
  next
    case False
    then have "peer_map (speers p') \<subseteq>\<^sub>m peer_map (speers ?p)" "no_room (ce_rx env) ?p ?a tsft \<or> sint signal < -65"
      using alt by (auto simp: rx_dropped_def)
    then show ?thesis
      using step by (intro exI [of _ "d\<lparr>d_p2p := p'\<rparr>"] exI [of _ "callback_effects (d_io d) evs"]) auto
  qed
qed

text \<open>A damaged frame changes nothing.\<close>

lemma receive_damaged:
  assumes inv: "daemon_inv d" and env: "rx_ok env" and "damaged c"
  shows "apple_p2p_receive_frame env c d = Some (d, [])"
proof -
  obtain tsft where clk: "clock_time_us (re_clock (ce_rx env)) = Some tsft" using env by (auto simp: rx_ok_def)
  show ?thesis
    using rx_damaged [OF assms(3) clk, of "[]" "d_p2p d"] receive_frame_correct [OF inv env, of c]
    by (auto simp: received_def callback_effects_def host_writes_def)
qed

section \<open>Which handler transmits what\<close>

lemma mif_transmits:
  assumes inv: "daemon_inv d" and name: "short_name d" and fcs: "\<not> i_fcs (d_80211 d)" and env: "clocks_ok env"
    and run: "handle_event (Timer_Fires Mif_Timer env) d = Some (d', effs)" and f: "f \<in> sent effs"
  shows "action_by d APPLE_P2P_ACTION_MIF f"
proof -
  obtain now0 now1 now2 where clk: "clock_time_us (ce_clock env 0) = Some now0"
    "clock_time_us (ce_clock env 1) = Some now1" "clock_time_us (ce_clock env 2) = Some now2"
    by (meson env clocks_obtain)
  have "f = action_bytes_of d APPLE_P2P_ACTION_MIF now1 now2"
    using run f by (auto simp: send_mif_correct [OF inv name env clk] Let_def sent_injected split: if_splits)
  then show ?thesis using action_transmits [OF inv name fcs] by simp
qed

text \<open>The frame of the host that a timer sends.\<close>

fun waiting :: "timer \<Rightarrow> daemon_state \<Rightarrow> buf option" where
  "waiting Tx_Timer d = d_next d"
| "waiting Tx_Mcast_Timer d = (case ring_list (d_queue d) of [] \<Rightarrow> None | b # bs \<Rightarrow> Some b)"
| "waiting _ d = None"

lemma waiting_transmits:
  assumes inv: "daemon_inv d" and fcs: "\<not> i_fcs (d_80211 d)" and env: "clocks_ok env"
    and run: "handle_event (Timer_Fires t env) d = Some (d', effs)" and f: "f \<in> sent effs" and b: "waiting t d = Some b"
  shows "data_by (frame_src b) (frame_dst b) (drop 14 (buf_view b)) f" and "14 \<le> b_len b" and "wf_buf b"
proof -
  obtain now where now: "clock_time_us (ce_clock env 0) = Some now" using env by (rule clocks_obtain)
  obtain p' i' es where ds: "data_sent (d_io d) (d_p2p d) (d_80211 d) b = (p', i', es)"
    by (rule prod_cases3)
  have "host_frame b \<and> f \<in> sent es"
  proof (cases t)
    case Tx_Timer
    then have "d_next d = Some b" using b by simp
    then show ?thesis
      using run f inv Tx_Timer unfolding handle_event.simps Tx_Timer send_unicast_correct [OF inv env now]
      by (auto simp: unicast_result_def ds Let_def daemon_inv_def next_ok_def split: if_splits option.splits)
  next
    case Tx_Mcast_Timer
    then obtain bs where queue: "ring_list (d_queue d) = b # bs" using b by (auto split: list.splits)
    then show ?thesis
      using run f inv unfolding handle_event.simps Tx_Mcast_Timer send_multicast_correct [OF inv env now]
      by (auto simp: multicast_result_def ds Let_def daemon_inv_def queued_ok_def split: if_splits)
  qed (use b in auto)
  then have h: "host_frame b" and "f \<in> sent es" by blast+
  from data_transmits [OF ds h fcs this(2)] show "data_by (frame_src b) (frame_dst b) (drop 14 (buf_view b)) f"
    and "14 \<le> b_len b" by blast+
  show "wf_buf b" using h by (simp add: host_frame_def)
qed

text \<open>Any event, with any captured packet: what is transmitted is a frame of the node's own.\<close>

lemma received_silent:
  assumes "received d bytes res = Some (d', effs)"
  shows "sent effs = {} \<and> delays_ok effs"
proof -
  have "sent (callback_effects io evs) = {} \<and> delays_ok (callback_effects io evs)" for io evs
    by (auto simp: sent_def delays_ok_def callback_effects_def apple_p2p_neighbor_add_def split: rx_event.splits)
  moreover have "sent (host_writes io bs) = {} \<and> delays_ok (host_writes io bs)" for io bs
    by (auto simp: sent_def delays_ok_def host_writes_def)
  moreover have "sent (dump_frame f bytes) = {} \<and> delays_ok (dump_frame f bytes)" for f
    by (auto simp: dump_frame_def split: option.split)
  ultimately show ?thesis using assms by (auto simp: received_def split: prod.splits if_splits)
qed

lemma event_transmits:
  assumes inv: "daemon_inv d" and name: "short_name d" and fcs: "\<not> i_fcs (d_80211 d)" and ok: "event_ok ev"
    and run: "handle_event ev d = Some (d', effs)"
  shows "transmits d effs \<and> delays_ok effs"
proof (cases ev)
  case (Timer_Fires t env)
  then show ?thesis using timer_quiet [OF inv name fcs _ run [unfolded Timer_Fires]] ok by (simp add: quiet_def)
next
  case (Host_Ready env env_m env_u)
  then show ?thesis
    using host_quiet [OF inv fcs ok [unfolded Host_Ready] run [unfolded Host_Ready]] by (simp add: quiet_def)
next
  case (Wlan_Ready env packet)
  show ?thesis
  proof (cases packet)
    case None
    then show ?thesis using run Wlan_Ready by (simp add: wlan_device_ready_def)
  next
    case (Some f)
    have "rx_ok env" using ok Wlan_Ready by simp
    from receive_frame_correct [OF inv this] obtain res where "apple_p2p_receive_frame env f d = received d f res" by blast
    then obtain es where "received d f res = Some (d', es)" "effs = es @ [Feed_Event Read_Wlan]"
      using run Wlan_Ready Some by (cases "received d f res") (auto simp: wlan_device_ready_def)
    then show ?thesis using received_silent by (simp add: transmits_def)
  qed
qed

end
