(* ===== verification/Network.thy ===== *)
theory Network
  imports Air
begin

text \<open>
  A closed network of nodes that all run this program: any number of nodes in any interleaving,
  on a medium that may lose, delay, repeat, reorder and damage frames but invents none. Frames that
  have been transmitted stay on the air; a node may capture any of them at any time, with any header
  of its driver and any signal, or never.
\<close>

section \<open>Nodes that have been started\<close>

definition started :: "daemon_state \<Rightarrow> bool" where
  "started d \<longleftrightarrow> (\<exists>env args state steps effs L. main env args state = Some (steps, Runs d effs L) \<and>
     length (s_name (d_p2p state)) = 65 \<and> 0 \<notin> set (ie_hostname (st_init env)) \<and>
     length (ie_hostname (st_init env)) \<le> 50)"

lemma init_standard:
  assumes "apple_p2p_init env d0 wlan host chan dump = Some (0, d)"
  shows "standard_node d" and "peer_map (speers (d_p2p d)) = Map.empty"
proof -
  obtain io cl err now p q where run: "apple_p2p_init_state (ie_calloc_ok env) (d_p2p d0) (ie_hostname env)
      (if_ether_addr io) chan now = Some p"
    and d: "d = d0\<lparr>d_io := io, d_p2p := p\<lparr>s_peer_cb := True, s_peer_remove_cb := True\<rparr>,
      d_80211 := ieee80211_init_state, d_next := None, d_queue := q, d_dump := dump\<rparr>"
    using assms by (auto simp: apple_p2p_init_def Let_def split: if_splits bind_splits)
  have "node_constants p = (apple_p2p_version 3 4, APPLE_P2P_DEVCLASS_MACOS, word_of_int (-65), word_of_int (-5))"
    using run by (auto simp: apple_p2p_init_state_def node_constants_def split: option.splits)
  then show "standard_node d" by (simp add: standard_node_def d ieee80211_init_state_def)
  show "peer_map (speers (d_p2p d)) = Map.empty" using init_state_correct [OF run] by (simp add: d)
qed

lemma main_standard:
  assumes "main env args state = Some (steps, Runs d effs L)"
  shows "standard_node d" and "peer_map (speers (d_p2p d)) = Map.empty" and "d_next d = None"
    and "ring_list (d_queue d) = []"
proof -
  obtain chan wlan dump err d1 and opts :: options where
    init: "apple_p2p_init (st_init env)
      (state\<lparr>d_io := (d_io state)\<lparr>wlan_no_monitor_mode := o_no_monitor_mode opts\<rparr>\<rparr>) wlan (o_host opts) chan dump = Some (err, d1)"
    and err: "\<not> err < 0" and d: "d = d1\<lparr>d_p2p := (d_p2p d1)\<lparr>s_filter_rssi := o_filter_rssi opts\<rparr>\<rparr>"
    using assms unfolding main_def
    by (auto simp: Let_def split: option.splits parsed.splits prod.splits if_splits bind_splits)
  note init0 = init [unfolded init_result [OF init err]]
  from init_standard [OF init0] init_correct(2,3) [OF init0]
  show "standard_node d" and "peer_map (speers (d_p2p d)) = Map.empty" and "d_next d = None"
    and "ring_list (d_queue d) = []"
    by (simp_all add: standard_node_def d)
qed

lemma startedD:
  assumes "started d"
  shows "loop_inv d (loop_start d)" and "short_name d" and "standard_node d"
    and "peer_map (speers (d_p2p d)) = Map.empty" and "d_next d = None" and "ring_list (d_queue d) = []"
proof -
  obtain env args state steps effs L where run: "main env args state = Some (steps, Runs d effs L)"
    and ok: "length (s_name (d_p2p state)) = 65" "0 \<notin> set (ie_hostname (st_init env))"
      "length (ie_hostname (st_init env)) \<le> 50"
    using assms by (auto simp: started_def)
  show "loop_inv d (loop_start d)" and "short_name d" by (rule program_starts_well [OF run ok])+
  show "standard_node d" and "peer_map (speers (d_p2p d)) = Map.empty" and "d_next d = None"
    and "ring_list (d_queue d) = []" by (rule main_standard [OF run])+
qed

section \<open>The network\<close>

record 'n network =
  n_node :: "'n \<Rightarrow> loop_state"
  n_air :: "u8 list set"

definition net_start :: "('n \<Rightarrow> daemon_state) \<Rightarrow> 'n network" where
  "net_start ds = \<lparr>n_node = (\<lambda>i. loop_start (ds i)), n_air = {}\<rparr>"

text \<open>A node hears only what has been transmitted, or frames its driver marks as damaged.\<close>

fun heard :: "event \<Rightarrow> u8 list set \<Rightarrow> bool" where
  "heard (Wlan_Ready env (Some c)) air = (damaged c \<or> (\<exists>f\<in>air. \<exists>signal. captured f signal c))"
| "heard _ air = True"

definition net_apply :: "'n \<Rightarrow> event \<Rightarrow> 'n network \<Rightarrow> daemon_state \<times> effect list \<Rightarrow> 'n network" where
  "net_apply i ev N res = \<lparr>n_node = (n_node N)(i := apply_effects (armed_at ev (l_armed (n_node N i))) (n_node N i) res),
     n_air = n_air N \<union> sent (snd res)\<rparr>"

inductive net_step :: "'n network \<Rightarrow> 'n \<times> event \<Rightarrow> 'n network \<Rightarrow> bool" where
  step: "enabled ev (l_armed (n_node N i)) \<Longrightarrow> heard ev (n_air N) \<Longrightarrow>
    handle_event ev (l_daemon (n_node N i)) = Some res \<Longrightarrow> net_step N (i, ev) (net_apply i ev N res)"

inductive_simps net_step_iff: "net_step N (i, ev) N'"

inductive_cases net_stepE: "net_step N ie N'"

definition net_ok :: "'n \<times> event \<Rightarrow> bool" where
  "net_ok = (\<lambda>(i, ev). event_ok ev)"

definition net_ready :: "'n network \<Rightarrow> 'n \<times> event \<Rightarrow> bool" where
  "net_ready N = (\<lambda>(i, ev). enabled ev (l_armed (n_node N i)) \<and> heard ev (n_air N))"

text \<open>The states of the network: after any finite sequence of permitted events.\<close>

definition net_reaches :: "('n \<Rightarrow> daemon_state) \<Rightarrow> 'n network \<Rightarrow> bool" where
  "net_reaches ds N \<longleftrightarrow> (\<exists>es. list_all net_ok es \<and> runs net_step (net_start ds) es N)"

lemma net_reaches_start [simp]: "net_reaches ds (net_start ds)"
  unfolding net_reaches_def by (rule exI [of _ "[]"]) simp

lemma net_reaches_step:
  assumes "net_reaches ds N" and "net_ok ie" and "net_step N ie N'"
  shows "net_reaches ds N'"
proof -
  obtain es where "list_all net_ok es" "runs net_step (net_start ds) es N" using assms(1) by (auto simp: net_reaches_def)
  then show ?thesis
    using assms(2,3) unfolding net_reaches_def by (intro exI [of _ "es @ [ie]"]) (auto simp: runs_append)
qed

text \<open>Each node of the network goes through states of the program on its own.\<close>

lemma net_step_node:
  assumes "net_step N (i, ev) N'"
  shows "loop_step (n_node N i) ev (n_node N' i)" and "k \<noteq> i \<Longrightarrow> n_node N' k = n_node N k"
  using assms by (auto simp: net_step_iff net_apply_def loop_step_iff)

section \<open>The invariant\<close>

text \<open>All nodes have been started, with different addresses.\<close>

definition network_of :: "('n \<Rightarrow> daemon_state) \<Rightarrow> bool" where
  "network_of ds \<longleftrightarrow> (\<forall>i. started (ds i)) \<and> inj (\<lambda>i. s_self_address (d_p2p (ds i)))"

definition honest :: "('n \<Rightarrow> daemon_state) \<Rightarrow> 'n \<Rightarrow> daemon_state \<Rightarrow> bool" where
  "honest ds i d \<longleftrightarrow> (\<forall>a p. peer_map (speers (d_p2p d)) a = Some p \<longrightarrow>
     (\<exists>k. k \<noteq> i \<and> a = s_self_address (d_p2p (ds k)) \<and> truthful (ds k) p))"

definition net_inv :: "('n \<Rightarrow> daemon_state) \<Rightarrow> 'n network \<Rightarrow> bool" where
  "net_inv ds N \<longleftrightarrow> (\<forall>i. loop_inv (ds i) (n_node N i)) \<and> (\<forall>f\<in>n_air N. \<exists>k. transmitted_by (ds k) f) \<and>
     (\<forall>i. honest ds i (l_daemon (n_node N i)))"

lemma honest_entry:
  assumes "network_of ds" and "honest ds i d" and "peer_map (speers (d_p2p d)) (s_self_address (d_p2p (ds k))) = Some p"
  shows "truthful (ds k) p"
proof -
  obtain j where "s_self_address (d_p2p (ds k)) = s_self_address (d_p2p (ds j))" and p: "truthful (ds j) p"
    using assms(2,3) unfolding honest_def by blast
  then have "k = j" using assms(1) unfolding network_of_def inj_def by blast
  then show ?thesis using p by simp
qed

lemma honest_less:
  assumes "honest ds i d" and le: "peer_map (speers (d_p2p d')) \<subseteq>\<^sub>m peer_map (speers (d_p2p d))"
  shows "honest ds i d'"
  unfolding honest_def
proof (intro allI impI)
  fix a p
  assume p: "peer_map (speers (d_p2p d')) a = Some p"
  then have "peer_map (speers (d_p2p d)) a = Some p" using le by (force simp: map_le_def)
  then show "\<exists>k. k \<noteq> i \<and> a = s_self_address (d_p2p (ds k)) \<and> truthful (ds k) p" using assms(1) unfolding honest_def by blast
qed

lemma honest_update:
  assumes "honest ds i d" and "peer_map (speers (d_p2p d')) = (peer_map (speers (d_p2p d)))(s_self_address (d_p2p (ds k)) \<mapsto> p)"
    and "truthful (ds k) p" and "k \<noteq> i"
  shows "honest ds i d'"
  using assms unfolding honest_def by (metis fun_upd_apply option.inject)

text \<open>Hearing a transmission: it is processed, and the table stays honest.\<close>

lemma hear:
  assumes net: "network_of ds" and inv: "daemon_inv d" and same: "same_node (ds i) d" and tab: "honest ds i d"
    and env: "rx_ok env" and f: "transmitted_by (ds k) f" and cap: "captured f signal c"
  shows "\<exists>d' effs. apple_p2p_receive_frame env c d = Some (d', effs) \<and> sent effs = {} \<and> honest ds i d'"
proof -
  have started: "started (ds k)" for k using net by (simp add: network_of_def)
  have std: "standard_node d" "standard_node (ds k)"
    using startedD(3) [OF started] standard_same [OF same] by blast+
  consider (action) ty where "action_by (ds k) ty f" | (data) src dst payload where "data_by src dst payload f"
    using f by (auto simp: transmitted_by_def)
  then show ?thesis
  proof cases
    case action
    show ?thesis
    proof (cases "s_self_address (d_p2p (ds k)) = s_self_address (d_p2p d)")
      case True
      from receive_own [OF inv env action cap this] tab show ?thesis by simp
    next
      case False
      then have "k \<noteq> i" using same by (auto simp: same_node_def)
      have "\<forall>q. peer_map (speers (d_p2p d)) (s_self_address (d_p2p (ds k))) = Some q \<longrightarrow> truthful (ds k) q"
        using honest_entry [OF net tab] by blast
      from receive_action [OF inv env action cap std False this] show ?thesis
        using honest_less [OF tab] honest_update [OF tab] \<open>k \<noteq> i\<close> by metis
    qed
  next
    case data
    from receive_data [OF inv env data cap] obtain d' effs where "apple_p2p_receive_frame env c d = Some (d', effs)"
      "sent effs = {}" "speers (d_p2p d') = speers (d_p2p d)" by blast
    moreover from this have "honest ds i d'" using honest_less [OF tab, of d'] by simp
    ultimately show ?thesis by blast
  qed
qed

text \<open>One event at one node.\<close>

lemma node_event:
  assumes net: "network_of ds" and inv: "loop_inv (ds i) l" and tab: "honest ds i (l_daemon l)"
    and air: "\<forall>f\<in>air. \<exists>k. transmitted_by (ds k) f" and ok: "event_ok ev" and heard: "heard ev air"
  shows "\<exists>d' effs. handle_event ev (l_daemon l) = Some (d', effs) \<and> step_ok l (armed_at ev (l_armed l)) d' effs \<and>
    transmits (ds i) effs \<and> honest ds i d'"
proof -
  let ?d = "l_daemon l"
  have start: "short_name (ds i)" "standard_node (ds i)" using net startedD by (auto simp: network_of_def)
  have dinv: "daemon_inv ?d" and same: "same_node (ds i) ?d" using inv by (simp_all add: loop_inv_def)
  have name: "short_name ?d" and fcs: "\<not> i_fcs (d_80211 ?d)"
    using start short_name_same [OF same] standard_same [OF same] by (simp_all add: standard_node_def)
  have quiet: "transmits (ds i) effs \<and> honest ds i d'" if "quiet ?d d' effs" for d' effs
    using that transmitted_same [OF same] honest_less [OF tab] by (auto simp: quiet_def transmits_def)
  note progress = event_progress [OF inv start(1) ok]
  have "\<exists>d' effs. handle_event ev ?d = Some (d', effs) \<and> transmits (ds i) effs \<and> honest ds i d'"
  proof (cases ev)
    case (Timer_Fires t env)
    then obtain d' effs where run: "handle_event ev ?d = Some (d', effs)" using progress(1) by auto
    have "clocks_ok env" using ok Timer_Fires by simp
    from timer_quiet [OF dinv name fcs this] run quiet show ?thesis unfolding Timer_Fires by blast
  next
    case (Host_Ready env env_m env_u)
    then obtain d' effs where run: "handle_event ev ?d = Some (d', effs)" using progress(1) by auto
    from host_quiet [OF dinv fcs] ok run quiet show ?thesis unfolding Host_Ready by blast
  next
    case (Wlan_Ready env packet)
    show ?thesis
    proof (cases packet)
      case None
      then show ?thesis using tab Wlan_Ready by (simp add: wlan_device_ready_def)
    next
      case (Some c)
      have env: "rx_ok env" using ok Wlan_Ready by simp
      have "damaged c \<or> (\<exists>f k signal. transmitted_by (ds k) f \<and> captured f signal c)"
        using heard air Wlan_Ready Some by auto
      then obtain d' effs where "apple_p2p_receive_frame env c ?d = Some (d', effs)" "sent effs = {}" "honest ds i d'"
        using hear [OF net dinv same tab env] receive_damaged [OF dinv env] tab by fastforce
      then show ?thesis using Wlan_Ready Some by (simp add: wlan_device_ready_def transmits_def)
    qed
  qed
  then show ?thesis using progress(2) by blast
qed

lemma net_event:
  assumes net: "network_of ds" and inv: "net_inv ds N" and "net_ok (i, ev)" and "net_ready N (i, ev)"
  shows "\<exists>res. handle_event ev (l_daemon (n_node N i)) = Some res \<and> net_inv ds (net_apply i ev N res)"
proof -
  let ?l = "n_node N i"
  have l: "loop_inv (ds i) ?l" "honest ds i (l_daemon ?l)" and air: "\<forall>f\<in>n_air N. \<exists>k. transmitted_by (ds k) f"
    using inv by (auto simp: net_inv_def)
  obtain d' effs where run: "handle_event ev (l_daemon ?l) = Some (d', effs)"
    and ok: "step_ok ?l (armed_at ev (l_armed ?l)) d' effs" and out: "transmits (ds i) effs" "honest ds i d'"
    using node_event [OF net l air, of ev] assms(3,4) by (auto simp: net_ok_def net_ready_def)
  from step_ok_inv [OF l(1) ok] have "net_inv ds (net_apply i ev N (d', effs))"
    using inv out by (auto simp: net_inv_def net_apply_def apply_effects_def transmits_def)
  then show ?thesis using run by blast
qed

interpretation network_loop: event_loop net_step net_ok net_ready "\<lambda>N ie. True" "\<lambda>N. network_of ds \<and> net_inv ds N" for ds
proof
  fix N ie N'
  assume inv: "network_of ds \<and> net_inv ds N" and ok: "net_ok ie" and step: "net_step N ie N'"
  obtain i ev where ie: "ie = (i, ev)" by force
  have "net_ready N (i, ev)" using step by (auto simp: ie net_step_iff net_ready_def)
  with net_event [of ds N i ev] inv ok step show "network_of ds \<and> net_inv ds N'" by (auto simp: ie net_step_iff)
next
  fix N ie
  assume inv: "network_of ds \<and> net_inv ds N" and ok: "net_ok ie" and ready: "net_ready N ie"
  obtain i ev where ie: "ie = (i, ev)" by force
  show "(\<exists>N'. net_step N ie N') \<longleftrightarrow> True"
    using net_event [of ds N i ev] inv ok ready by (auto simp: ie net_step_iff net_ready_def)
next
  fix N ie N' N''
  assume "net_step N ie N'" "net_step N ie N''"
  then show "N' = N''" by (cases ie) (auto simp: net_step_iff)
qed

lemma net_start_inv: "network_of ds \<Longrightarrow> net_inv ds (net_start ds)"
  using startedD(1,4) by (auto simp: network_of_def net_inv_def net_start_def honest_def loop_start_def)

lemma net_reaches_inv:
  assumes "network_of ds" and "net_reaches ds N"
  shows "net_inv ds N"
  using assms net_start_inv [OF assms(1)] network_loop.run_keeps [of "net_start ds" _ N ds] by (auto simp: net_reaches_def)

section \<open>Between a transmission and its arrival\<close>

lemma node_facts:
  assumes "network_of ds" and "net_inv ds N"
  shows "daemon_inv (l_daemon (n_node N i))" and "same_node (ds i) (l_daemon (n_node N i))"
    and "short_name (l_daemon (n_node N i))" and "\<not> i_fcs (d_80211 (l_daemon (n_node N i)))"
    and "standard_node (l_daemon (n_node N i))" and "standard_node (ds i)" and "honest ds i (l_daemon (n_node N i))"
proof -
  have start: "short_name (ds i)" "standard_node (ds i)" using assms(1) startedD by (auto simp: network_of_def)
  show "standard_node (ds i)" by (rule start(2))
  show inv: "daemon_inv (l_daemon (n_node N i))" "honest ds i (l_daemon (n_node N i))"
    and same: "same_node (ds i) (l_daemon (n_node N i))"
    using assms(2) by (simp_all add: net_inv_def loop_inv_def)
  show "short_name (l_daemon (n_node N i))" "standard_node (l_daemon (n_node N i))"
    "\<not> i_fcs (d_80211 (l_daemon (n_node N i)))"
    using start short_name_same [OF same] standard_same [OF same] by (simp_all add: standard_node_def)
qed

text \<open>Some time after the sender's step, another node hears the frame.\<close>

lemma heard_later:
  assumes "network_of ds" and "net_reaches ds N0" and ev: "event_ok ev" "enabled ev (l_armed (n_node N0 k))" "heard ev (n_air N0)"
    and run: "handle_event ev (l_daemon (n_node N0 k)) = Some (d, effs)" and f: "f \<in> sent effs"
    and later: "list_all net_ok es" "runs net_step (net_apply k ev N0 (d, effs)) es N"
  shows "net_reaches ds N" and "net_inv ds N" and "f \<in> n_air N" and "net_inv ds N0"
proof -
  have "net_step N0 (k, ev) (net_apply k ev N0 (d, effs))" using ev(2,3) run by (rule net_step.step)
  then have r: "net_reaches ds (net_apply k ev N0 (d, effs))"
    using net_reaches_step [OF assms(2), of "(k, ev)"] ev(1) by (simp add: net_ok_def)
  obtain es0 where "list_all net_ok es0" "runs net_step (net_start ds) es0 (net_apply k ev N0 (d, effs))"
    using r by (auto simp: net_reaches_def)
  then show reach: "net_reaches ds N"
    using later unfolding net_reaches_def by (intro exI [of _ "es0 @ es"]) (auto simp: runs_append)
  show "net_inv ds N" "net_inv ds N0" using net_reaches_inv assms(1,2) reach by blast+
  have "f \<in> n_air M'" if "runs net_step M es M'" "f \<in> n_air M" for M M' es
    using that
  proof (induction es arbitrary: M)
    case (Cons ie es)
    then obtain M1 where "net_step M ie M1" "runs net_step M1 es M'" by auto
    moreover from this Cons.prems(2) have "f \<in> n_air M1" by (cases ie) (auto simp: net_step_iff net_apply_def)
    ultimately show ?case using Cons.IH by blast
  qed simp
  from this [OF later(2)] f show "f \<in> n_air N" by (simp add: net_apply_def)
qed

lemma network_discovery_correct:
  assumes "network_of ds" and "net_reaches ds N0" and "clocks_ok env0" and "Mif_Timer \<in> l_armed (n_node N0 k)"
    and "handle_event (Timer_Fires Mif_Timer env0) (l_daemon (n_node N0 k)) = Some (d, effs)" and "Inject f \<in> set effs"
    and "list_all net_ok es" and "runs net_step (net_apply k (Timer_Fires Mif_Timer env0) N0 (d, effs)) es N"
    and "i \<noteq> k" and "rx_ok env" and "captured f signal c" and "-65 \<le> sint signal"
  defines "a \<equiv> s_self_address (d_p2p (ds k))"
  shows "\<exists>N'. net_step N (i, Wlan_Ready env (Some c)) N' \<and>
    ((\<exists>tsft. no_room (ce_rx env) (d_p2p (l_daemon (n_node N i))) a tsft) \<or>
     (\<exists>p. peer_map (speers (d_p2p (l_daemon (n_node N' i)))) a = Some p \<and> p_is_valid p \<and>
       c_string (s_name (d_p2p (ds k))) = Some (p_name p) \<and> p_sequence p = ch_sequence (s_channel (d_p2p (ds k))) \<and>
       rfc4291_addr a \<in> l_neighbors (n_node N' i)))"
proof -
  let ?ev = "Timer_Fires Mif_Timer env0" and ?hear = "Wlan_Ready env (Some c)" and ?d = "l_daemon (n_node N i)"
  have f: "f \<in> sent effs" using assms(6) by (simp add: sent_def)
  have ok: "event_ok ?ev" "enabled ?ev (l_armed (n_node N0 k))" "heard ?ev (n_air N0)" using assms(3,4) by simp_all
  note later = heard_later [OF assms(1,2) ok assms(5) f assms(7,8)]
  note k = node_facts [OF assms(1) later(4), of k] and d = node_facts [OF assms(1) later(2), of i]
  have act: "action_by (ds k) APPLE_P2P_ACTION_MIF f"
    using action_by_same [OF k(2)] mif_transmits [OF k(1,3,4) assms(3,5) f] by blast
  have other: "a \<noteq> s_self_address (d_p2p ?d)"
    using assms(1,9) d(2) by (auto simp: a_def network_of_def inj_def same_node_def)
  have old: "\<forall>q. peer_map (speers (d_p2p ?d)) a = Some q \<longrightarrow> truthful (ds k) q"
    using honest_entry [OF assms(1) d(7)] by (simp add: a_def)
  obtain d' es' where run: "apple_p2p_receive_frame env c ?d = Some (d', es')"
    and alt: "(\<exists>tsft. no_room (ce_rx env) (d_p2p ?d) a tsft) \<or>
      (\<exists>p. peer_map (speers (d_p2p d')) = (peer_map (speers (d_p2p ?d)))(a \<mapsto> p) \<and> truthful (ds k) p \<and> p_is_valid p)"
    using receive_action [OF d(1) assms(10) act assms(11) d(5) k(6) other [unfolded a_def] old [unfolded a_def]] assms(12)
    unfolding a_def [symmetric] by (elim exE conjE disjE) auto
  let ?N' = "net_apply i ?hear N (d', es' @ [Feed_Event Read_Wlan])"
  have handled: "handle_event ?hear ?d = Some (d', es' @ [Feed_Event Read_Wlan])"
    using run by (simp add: wlan_device_ready_def)
  have "\<exists>f\<in>n_air N. \<exists>signal. captured f signal c" using later(3) assms(11) by blast
  then have ready: "net_ok (i, ?hear)" "net_ready N (i, ?hear)" using assms(10) by (simp_all add: net_ok_def net_ready_def)
  from net_event [OF assms(1) later(2) ready] handled have inv: "net_inv ds ?N'" by simp
  have "net_step N (i, ?hear) ?N'" using ready handled by (intro net_step.step) (simp_all add: net_ready_def)
  then obtain N' where step: "net_step N (i, ?hear) N'" and N': "l_daemon (n_node N' i) = d'" "net_inv ds N'"
    using inv by (fastforce simp: net_apply_def apply_effects_def)
  have "neighbor_inv (l_daemon (n_node N' i)) (l_neighbors (n_node N' i))"
    using N'(2) by (simp add: net_inv_def loop_inv_def)
  then have "rfc4291_addr a \<in> l_neighbors (n_node N' i)" if "peer_map (speers (d_p2p d')) a = Some p" "p_is_valid p" for p
    using that unfolding N'(1) neighbor_inv_def valid_peers_def by blast
  then have "(\<exists>tsft. no_room (ce_rx env) (d_p2p ?d) a tsft) \<or> (\<exists>p. peer_map (speers (d_p2p d')) a = Some p \<and>
      p_is_valid p \<and> truthful (ds k) p \<and> rfc4291_addr a \<in> l_neighbors (n_node N' i))"
    using alt by fastforce
  then show ?thesis using step N'(1) unfolding truthful_def by blast
qed

end
