(* ===== verification/Network_Sample.thy ===== *)
theory Network_Sample
  imports Network Core_Specs
begin

text \<open>
  A network of two nodes, to instantiate properties with: one finds its channel and announces itself,
  the other hears it; then the first sends a multicast frame of its host.
\<close>

definition sample_node :: "ether_addr \<Rightarrow> daemon_state \<Rightarrow> bool" where
  "sample_node a d \<longleftrightarrow> started d \<and> s_self_address (d_p2p d) = a \<and> wlan_handle (d_io d) \<noteq> None \<and>
     host_fd (d_io d) \<noteq> 0 \<and> ch_current (s_channel (d_p2p d)) = CHAN_NULL \<and>
     s_sync (d_p2p d) = apple_p2p_sync_state_init 1000000 \<and>
     apple_p2p_peers_init (\<lambda>n. n \<le> 4096) = Some (speers (d_p2p d)) \<and>
     (\<exists>n chan. channel_of n = Some chan \<and> (\<forall>i<16. ch_sequence (s_channel (d_p2p d)) ! i = chan))"

lemma sample_node_exists:
  obtains d where "sample_node a d"
proof -
  obtain m d effs L where run: "main (sample_start_at a) sample_args (sample_daemon m) = Some ([], Runs d effs L)"
    and d: "wlan_handle (d_io d) \<noteq> None" "host_fd (d_io d) \<noteq> 0"
      "ch_current (s_channel (d_p2p d)) = CHAN_NULL" "s_self_address (d_p2p d) = a"
      "s_sync (d_p2p d) = apple_p2p_sync_state_init 1000000"
      "apple_p2p_peers_init (\<lambda>n. n \<le> 4096) = Some (speers (d_p2p d))"
    by (rule sample_main_at)
  have names: "length (s_name (d_p2p (sample_daemon m))) = 65" "0 \<notin> set (ie_hostname (st_init (sample_start_at a)))"
    "length (ie_hostname (st_init (sample_start_at a))) \<le> 50"
    using sample_init_name by (simp_all add: sample_start_at_def)
  then have "started d" unfolding started_def using run by blast
  moreover obtain n chan where "channel_of n = Some chan" "\<forall>i<16. ch_sequence (s_channel (d_p2p d)) ! i = chan"
    by (rule program_start [OF run names])
  ultimately show thesis using that d unfolding sample_node_def by blast
qed

abbreviation "env0 \<equiv> sample_core_env 0 []"

lemma env0_ok: "clocks_ok (sample_core_env n reads)" "clock_time_us (ce_clock env0 k) = Some 1000000" "rx_ok env0"
  using sample_clocks_ok sample_env_ok
  by (simp_all add: rx_ok_def sample_core_env_def clock_time_us_def clocks_ok_def)
    (simp_all add: sample_env_def sample_iterator_def)

text \<open>After its first switch of the channel the node announces itself.\<close>

lemma sample_announces:
  assumes "sample_node a d"
  obtains d1 es1 es2 f where "handle_event (Timer_Fires Chan_Timer env0) d = Some (d1, es1)"
    and "handle_event (Timer_Fires Mif_Timer env0) d1 = Some (counted_action d1, es2)" and "Inject f \<in> set es2"
    and "same_node d d1" and "s_sync (d_p2p d1) = s_sync (d_p2p d)" and "d_next d1 = None" and "ring_list (d_queue d1) = []"
    and "daemon_inv d1"
proof -
  have started: "started d" and d: "ch_current (s_channel (d_p2p d)) = CHAN_NULL" "wlan_handle (d_io d) \<noteq> None"
    using assms by (simp_all add: sample_node_def)
  note start = startedD [OF started]
  have inv: "daemon_inv d" using start(1) by (simp add: loop_inv_def loop_start_def)
  obtain n chan where n: "channel_of n = Some chan" and chan: "\<forall>i<16. ch_sequence (s_channel (d_p2p d)) ! i = chan"
    using assms by (auto simp: sample_node_def)
  have enc: "ch_enc (s_channel (d_p2p d)) = APPLE_P2P_CHAN_ENC_OPCLASS"
    using inv by (simp add: daemon_inv_def p2p_inv_def state_wf_def)
  have num: "apple_p2p_chan_num chan APPLE_P2P_CHAN_ENC_OPCLASS \<noteq> 0" "apple_p2p_chan_num CHAN_NULL APPLE_P2P_CHAN_ENC_OPCLASS = 0"
    using channel_of_num [OF n] by (auto simp: apple_p2p_chan_num_def CHAN_NULL_def)
  let ?d1 = "d\<lparr>d_p2p := (d_p2p d)\<lparr>s_channel := (s_channel (d_p2p d))\<lparr>ch_current := chan\<rparr>\<rparr>\<rparr>"
  obtain es1 where switch: "apple_p2p_switch_channel env0 d = Some (?d1, es1)"
    using num d by (simp add: switch_channel_correct [OF inv env0_ok(2)] chan enc Let_def)
  from switch_keeps [OF inv env0_ok(1) switch] have d1: "daemon_inv ?d1" "same_node d ?d1" by (simp_all add: keeps_def)
  have name: "short_name ?d1" using start(2) by (simp add: short_name_def)
  obtain es2 f where "apple_p2p_send_mif env0 ?d1 = Some (counted_action ?d1, es2)" and "Inject f \<in> set es2"
    using num d(2) enc by (simp add: send_mif_correct [OF d1(1) name env0_ok(1,2,2,2)] Let_def injected_def word_neq_0_conv [symmetric])
  then show thesis using that [of ?d1 es1 es2 f] switch d1 start(5,6) by simp
qed

text \<open>A multicast frame of the host that is read outside the multicast windows waits in the queue.\<close>

abbreviation sample_host_frame :: "u8 list" where
  "sample_host_frame \<equiv> [0x33, 0x33, 0, 0, 0, 1, 2, 0, 0, 0, 0, 1, 0x86, 0xdd, 1, 2, 3]"

lemma sample_queues:
  assumes inv: "daemon_inv d" and empty: "d_next d = None" "ring_list (d_queue d) = []" and host: "host_fd (d_io d) \<noteq> 0"
    and shut: "\<not> mcast_window (d_p2p d) 1000000"
  obtains d' effs b where "handle_event (Host_Ready (sample_core_env 0 [sample_host_frame]) env0 env0) d = Some (d', effs)"
    and "ring_list (d_queue d') = [b]" and "buf_view b = sample_host_frame" and "d_p2p d' = d_p2p d" and "keeps d d'"
proof -
  let ?env = "sample_core_env 0 [sample_host_frame]"
  have reads: "reads_ok ?env" by (rule sample_reads_ok) simp
  have bytes: "host_bytes ?env (d_io d) 0 = Some sample_host_frame" "group_bytes sample_host_frame"
    "host_bytes ?env (d_io d) (Suc k) = None" for k
    using host by (simp_all add: host_bytes_def sample_core_env_def group_bytes_def)
  have q: "queue_inv (d_queue d)" using inv by (simp add: daemon_inv_def)
  from poll_loop_spec [OF reads q, of 0 0] obtain ms u d1 where
    poll: "poll_host_device ?env d = Some (flags (ms \<noteq> []) (u \<noteq> None), d1)" and res: "poll_result ?env 0 d ms u d1"
    by (auto simp: poll_host_device_def)
  note r = res [unfolded poll_result_def Let_def] and f = poll_result_fields [OF res]
  define fs where "fs = ms @ (case u of None \<Rightarrow> [] | Some b \<Rightarrow> [b])"
  note r = r [folded fs_def]
  have nth: "Some (buf_view (fs ! k)) = host_bytes ?env (d_io d) k" if "k < length fs" for k
  proof -
    have "map (Some \<circ> buf_view) fs ! k = map (host_bytes ?env (d_io d)) [0..<0 + length fs] ! k"
      using r by (metis (no_types))
    then show ?thesis using that by simp
  qed
  have short: "length fs \<le> 1" using nth [of 1] bytes(3) [of 0] by (cases "1 < length fs") auto
  have "\<not> circular_buf_full (d_queue d1)" if "ms = []"
    using that r empty(2) queue_facts(2) [of "d_queue d1"] by simp
  moreover have "ms = []" "u = None" if "fs = []" using that by (auto simp: fs_def split: option.splits)
  moreover have "d_next d1 \<noteq> None \<or> circular_buf_full (d_queue d1) \<or> host_bytes ?env (d_io d) (0 + length fs) = None"
    using r by (elim conjE) assumption
  ultimately have some: "fs \<noteq> []" using f(1) empty(1) bytes(1) by auto
  have u: "u = None"
  proof (rule ccontr)
    assume "u \<noteq> None"
    then obtain b where "u = Some b" "\<not> group_bytes (buf_view b)" using r by auto
    then show False using nth [of 0] short bytes(1,2) by (cases ms) (auto simp: fs_def)
  qed
  then obtain b where ms: "ms = [b]" using some short by (cases ms) (auto simp: fs_def)
  then have b: "buf_view b = sample_host_frame" using nth [of 0] bytes(1) u by (simp add: fs_def)
  have d1: "keeps d d1"
    using poll_keeps [OF inv reads] poll by (metis option.inject prod.inject)
  have ring: "ring_list (d_queue d1) = [b]" using r ms empty(2) by simp
  have inv1: "daemon_inv d1" using d1 by (simp add: keeps_def)
  have "\<not> mcast_window (d_p2p d1) 1000000" using shut f(3) by simp
  from multicast_shut [OF inv1 env0_ok(1) env0_ok(2) ring this] obtain effs where
    "apple_p2p_send_multicast env0 d1 = Some (d1, effs)" by blast
  then have "handle_event (Host_Ready ?env env0 env0) d = Some (d1, effs)"
    by (simp add: host_device_ready_def poll flags_and ms u)
  then show thesis using that ring b f(3) d1 by blast
qed

lemma sample_windows:
  assumes "s_sync p = apple_p2p_sync_state_init 1000000"
  shows "\<not> mcast_window p 1000000" and "mcast_window p 1032768"
  using assms current_eaw_nat [of "s_sync p" 1032768]
  by (simp_all add: mcast_window_def position_def)

section \<open>Two nodes\<close>

abbreviation "first_addr \<equiv> EtherAddr 2 0 0 0 0 1"
abbreviation "second_addr \<equiv> EtherAddr 2 0 0 0 0 2"

lemma sample_network:
  obtains ds :: "bool \<Rightarrow> daemon_state" where "network_of ds" and "sample_node first_addr (ds True)"
    and "sample_node second_addr (ds False)"
proof -
  obtain d1 where d1: "sample_node first_addr d1" by (rule sample_node_exists)
  obtain d2 where d2: "sample_node second_addr d2" by (rule sample_node_exists)
  let ?ds = "\<lambda>i. if i then d1 else d2"
  have "network_of ?ds" using d1 d2 by (auto simp: network_of_def inj_def sample_node_def)
  with d1 d2 show thesis by (intro that [of ?ds]) simp_all
qed

lemma net_apply_step:
  assumes "net_reaches ds N" and "event_ok ev" and "enabled ev (l_armed (n_node N i))" and "heard ev (n_air N)"
    and "handle_event ev (l_daemon (n_node N i)) = Some res"
  shows "net_reaches ds (net_apply i ev N res)"
  using net_reaches_step [OF assms(1), of "(i, ev)"] net_step.step [OF assms(3-5)] assms(2) by (simp add: net_ok_def)

lemma net_apply_node [simp]:
  "l_daemon (n_node (net_apply i ev N (d, effs)) i) = d"
  "k \<noteq> i \<Longrightarrow> n_node (net_apply i ev N (d, effs)) k = n_node N k"
  by (simp_all add: net_apply_def apply_effects_def)

lemma net_armed:
  assumes "network_of ds" and "net_reaches ds N"
  shows "Mif_Timer \<in> l_armed (n_node N i)" and "Chan_Timer \<in> l_armed (n_node N i)"
    and "ring_list (d_queue (l_daemon (n_node N i))) \<noteq> [] \<Longrightarrow> Tx_Mcast_Timer \<in> l_armed (n_node N i)"
  using net_reaches_inv [OF assms] by (auto simp: net_inv_def loop_inv_def)

lemma sample_heard:
  obtains ds :: "bool \<Rightarrow> daemon_state" and N0 d es f where "network_of ds" and "sample_node first_addr (ds True)"
    and "sample_node second_addr (ds False)" and "net_reaches ds N0"
    and "handle_event (Timer_Fires Mif_Timer env0) (l_daemon (n_node N0 True)) = Some (d, es)" and "Inject f \<in> set es"
    and "\<And>t. \<not> no_room (ce_rx env0) (d_p2p (l_daemon (n_node N0 False))) first_addr t"
    and "d_next d = None" and "ring_list (d_queue d) = []" and "s_sync (d_p2p d) = apple_p2p_sync_state_init 1000000"
proof -
  obtain ds :: "bool \<Rightarrow> daemon_state" where net: "network_of ds"
    and s: "sample_node first_addr (ds True)" "sample_node second_addr (ds False)"
    by (rule sample_network)
  obtain d1 es1 es2 f where chan: "handle_event (Timer_Fires Chan_Timer env0) (ds True) = Some (d1, es1)"
    and mif: "handle_event (Timer_Fires Mif_Timer env0) d1 = Some (counted_action d1, es2)" "Inject f \<in> set es2"
    and d1: "s_sync (d_p2p d1) = s_sync (d_p2p (ds True))" "d_next d1 = None" "ring_list (d_queue d1) = []"
    by (rule sample_announces [OF s(1)]) blast
  let ?N0 = "net_apply True (Timer_Fires Chan_Timer env0) (net_start ds) (d1, es1)"
  have start: "l_daemon (n_node (net_start ds) i) = ds i" for i by (simp add: net_start_def loop_start_def)
  have reach: "net_reaches ds ?N0"
    by (rule net_apply_step [OF net_reaches_start])
      (use chan in \<open>simp_all add: env0_ok net_armed [OF net net_reaches_start] start\<close>)
  have room: "\<not> no_room (ce_rx env0) (d_p2p (l_daemon (n_node ?N0 False))) first_addr t" for t
    using s(2) fresh_room by (auto simp: start sample_node_def)
  show thesis
    by (rule that [of ds ?N0 "counted_action d1" es2 f, OF net s reach _ mif(2) room])
      (use mif(1) d1 s(1) in \<open>simp_all add: counted_action_def sample_node_def\<close>)
qed

text \<open>The second node hears the announcement of the first.\<close>

lemma sample_known:
  obtains ds :: "bool \<Rightarrow> daemon_state" and N p where "network_of ds" and "sample_node first_addr (ds True)"
    and "sample_node second_addr (ds False)" and "net_reaches ds N"
    and "peer_map (speers (d_p2p (l_daemon (n_node N False)))) first_addr = Some p" and "p_is_valid p"
    and "d_next (l_daemon (n_node N True)) = None" and "ring_list (d_queue (l_daemon (n_node N True))) = []"
    and "s_sync (d_p2p (l_daemon (n_node N True))) = apple_p2p_sync_state_init 1000000"
proof -
  obtain ds :: "bool \<Rightarrow> daemon_state" and N0 d es f where net: "network_of ds"
    and s: "sample_node first_addr (ds True)" "sample_node second_addr (ds False)" and reach: "net_reaches ds N0"
    and mif: "handle_event (Timer_Fires Mif_Timer env0) (l_daemon (n_node N0 True)) = Some (d, es)" and f: "Inject f \<in> set es"
    and room: "\<And>t. \<not> no_room (ce_rx env0) (d_p2p (l_daemon (n_node N0 False))) first_addr t"
    and d: "d_next d = None" "ring_list (d_queue d) = []" "s_sync (d_p2p d) = apple_p2p_sync_state_init 1000000"
    by (rule sample_heard) blast
  let ?N1 = "net_apply True (Timer_Fires Mif_Timer env0) N0 (d, es)"
  have armed: "Mif_Timer \<in> l_armed (n_node N0 True)" by (rule net_armed [OF net reach])
  have reach1: "net_reaches ds ?N1"
    by (rule net_apply_step [OF reach]) (use mif armed in \<open>simp_all add: env0_ok\<close>)
  have addr: "s_self_address (d_p2p (ds True)) = first_addr" using s(1) by (simp add: sample_node_def)
  have "\<exists>N'. net_step ?N1 (False, Wlan_Ready env0 (Some (sample_capture f))) N' \<and>
    ((\<exists>t. no_room (ce_rx env0) (d_p2p (l_daemon (n_node ?N1 False))) first_addr t) \<or>
     (\<exists>p. peer_map (speers (d_p2p (l_daemon (n_node N' False)))) first_addr = Some p \<and> p_is_valid p \<and>
       c_string (s_name (d_p2p (ds True))) = Some (p_name p) \<and> p_sequence p = ch_sequence (s_channel (d_p2p (ds True))) \<and>
       rfc4291_addr first_addr \<in> l_neighbors (n_node N' False)))"
    using network_discovery_correct [OF net reach env0_ok(1) armed mif f, where es = "[]" and N = ?N1 and i = False and env = env0 and
        signal = 200 and c = "sample_capture f"] env0_ok(3) captured_sample by (simp add: addr)
  moreover have "n_node ?N1 False = n_node N0 False" by simp
  ultimately obtain N' p where step: "net_step ?N1 (False, Wlan_Ready env0 (Some (sample_capture f))) N'"
    and p: "peer_map (speers (d_p2p (l_daemon (n_node N' False)))) first_addr = Some p" "p_is_valid p"
    using room by metis
  have "net_reaches ds N'"
    by (rule net_reaches_step [OF reach1 _ step]) (simp add: net_ok_def env0_ok)
  moreover have "l_daemon (n_node N' True) = d" using net_step_node(2) [OF step, of True] by simp
  ultimately show thesis using that [OF net s _ p] d by simp
qed

text \<open>Then the first node sends a multicast frame of its host.\<close>

abbreviation "env1 \<equiv> sample_core_env 32768000 []"

lemma sample_multicast:
  obtains ds :: "bool \<Rightarrow> daemon_state" and N d effs b f where "network_of ds" and "net_reaches ds N"
    and "Tx_Mcast_Timer \<in> l_armed (n_node N True)"
    and "handle_event (Timer_Fires Tx_Mcast_Timer env1) (l_daemon (n_node N True)) = Some (d, effs)" and "Inject f \<in> set effs"
    and "waiting Tx_Mcast_Timer (l_daemon (n_node N True)) = Some b" and "buf_view b = sample_host_frame"
    and "s_self_address (d_p2p (ds False)) = second_addr" and "host_fd (d_io (ds False)) \<noteq> 0"
    and "peer_map (speers (d_p2p (l_daemon (n_node N False)))) first_addr \<noteq> None"
proof -
  obtain ds :: "bool \<Rightarrow> daemon_state" and N0 p where net: "network_of ds"
    and s: "sample_node first_addr (ds True)" "sample_node second_addr (ds False)" and reach0: "net_reaches ds N0"
    and p: "peer_map (speers (d_p2p (l_daemon (n_node N0 False)))) first_addr = Some p" "p_is_valid p"
    and d: "d_next (l_daemon (n_node N0 True)) = None" "ring_list (d_queue (l_daemon (n_node N0 True))) = []"
      "s_sync (d_p2p (l_daemon (n_node N0 True))) = apple_p2p_sync_state_init 1000000"
    by (rule sample_known)
  let ?d = "l_daemon (n_node N0 True)" and ?ev = "Host_Ready (sample_core_env 0 [sample_host_frame]) env0 env0"
  have n: "daemon_inv ?d" "same_node (ds True) ?d"
    using node_facts [OF net net_reaches_inv [OF net reach0], of True] by blast+
  have io: "host_fd (d_io ?d) \<noteq> 0" "wlan_handle (d_io ?d) \<noteq> None" using s(1) n(2) by (simp_all add: sample_node_def same_node_def)
  obtain d1 effs1 b where q: "handle_event ?ev ?d = Some (d1, effs1)" "ring_list (d_queue d1) = [b]"
    and b: "buf_view b = sample_host_frame" and d1: "d_p2p d1 = d_p2p ?d" "keeps ?d d1"
    by (rule sample_queues [OF n(1) d(1,2) io(1) sample_windows(1) [OF d(3)]])
  let ?N = "net_apply True ?ev N0 (d1, effs1)"
  have "reads_ok (sample_core_env 0 [sample_host_frame])" by (rule sample_reads_ok) simp
  then have reach: "net_reaches ds ?N"
    by (intro net_apply_step [OF reach0 _ _ _ q(1)]) (simp_all add: env0_ok)
  have inv1: "daemon_inv d1" and io1: "wlan_handle (d_io d1) \<noteq> None"
    using d1(2) io by (simp_all add: keeps_def same_node_def)
  have b14: "14 \<le> b_len b"
    using inv1 q(2) b by (simp add: daemon_inv_def queued_ok_def host_frame_def b_len_view)
  have clk: "clock_time_us (ce_clock env1 0) = Some 1032768" by (simp add: sample_core_env_def clock_time_us_def)
  have "mcast_window (d_p2p d1) 1032768" using sample_windows(2) d(3) d1(1) by simp
  from multicast_open [OF inv1 env0_ok(1) clk q(2) this] obtain d2 effs2 f where
    send: "apple_p2p_send_multicast env1 d1 = Some (d2, effs2)" and f: "Inject f \<in> set effs2"
    using b14 io1 by fastforce
  have "Tx_Mcast_Timer \<in> l_armed (n_node ?N True)" by (rule net_armed [OF net reach]) (simp add: q(2))
  then show thesis
    using that [OF net reach _ _ f] send q(2) b s(2) p(1) by (simp add: sample_node_def)
qed

end
