(* ===== verification/Network_Specs.thy ===== *)
theory Network_Specs
  imports Network_Sample
begin

text \<open>
  What a network of nodes guarantees: it never gets stuck, the nodes know the truth about each other,
  they discover each other, and frames travel from host to host. A sample network of two nodes
  shows that the assumptions can be met.
\<close>

section \<open>What the network guarantees\<close>









text \<open>C9: what a running node hands out stays within bounds, whatever it receives: every frame it
  transmits has between 42 and 1562 bytes, so it starts with complete headers and fits the arrays it is
  built in, and no timer is ever armed with a negative delay.\<close>

theorem effects_bounded:
  assumes "started d" and "reachable d l" and "event_ok ev" and "handle_event ev (l_daemon l) = Some (d', effs)"
  shows "(\<forall>f. Inject f \<in> set effs \<longrightarrow> 42 \<le> length f \<and> length f \<le> 1562) \<and>
    (\<forall>t x. Timer_Rearm t x \<in> set effs \<longrightarrow> 0 \<le> x)"
proof -
  note start = startedD [OF assms(1)]
  have inv: "daemon_inv (l_daemon l)" and same: "same_node d (l_daemon l)"
    using reachable_loop_inv [OF assms(2) start(1,2)] by (simp_all add: loop_inv_def)
  have "short_name (l_daemon l)" "\<not> i_fcs (d_80211 (l_daemon l))"
    using start short_name_same [OF same] standard_same [OF same] by (simp_all add: standard_node_def)
  from event_transmits [OF inv this assms(3,4)] show ?thesis
    using transmitted_length unfolding transmits_def delays_ok_def sent_def by blast
qed

theorem effects_bounded_witness:
  "\<exists>d d' effs. started d \<and> handle_event (Timer_Fires Psf_Timer env0) d = Some (d', effs) \<and>
     (\<forall>f. Inject f \<in> set effs \<longrightarrow> length f \<le> 1562)"
proof -
  obtain d where "sample_node first_addr d" by (rule sample_node_exists)
  then have started: "started d" by (simp add: sample_node_def)
  note start = startedD [OF started]
  have inv: "daemon_inv d" and node: "l_daemon (loop_start d) = d"
    using start(1) by (simp_all add: loop_inv_def loop_start_def)
  obtain d' effs where run: "handle_event (Timer_Fires Psf_Timer env0) d = Some (d', effs)"
    by (simp add: send_psf_correct [OF inv start(2) env0_ok(1,2,2)])
  from effects_bounded [OF started reachable.start, of "Timer_Fires Psf_Timer env0" d' effs] run started
  show ?thesis using env0_ok(1) node by auto
qed

end
