(* ===== verification/Spec2Isabelle.thy ===== *)
theory Spec2Isabelle
  imports Siphash Crc32 Circular_Buffer Election Schedule Tx_Rx Core_Liveness Program Network_Specs
begin

text \<open>
  Verification of the daemon of this repository: the C code in src/jni/src and src/jni/include,
  a node of the wireless peer-to-peer protocol that runs on a radio interface in monitor mode
  and offers its peers to the host as a network interface.

  \<^bold>\<open>The program and its parts.\<close> \<open>main\<close> (main.c) reads the options, becomes a daemon if asked, and
  calls \<open>apple_p2p_init\<close> (core.c), which opens the two interfaces (io.c, netutils.c) and sets up the
  node (state.c). From then on libev calls the handlers of core.c: timers send the periodic and
  master indication frames (tx.c, response.c, schedule.c), send the waiting unicast and multicast
  frames in their slots (schedule.c, circular\_buffer.c), switch the channel (channel.c) and age
  the peers (peers.c over hashmap.c and siphash24.c) with the election that follows (election.c);
  the two watchers read frames from the host into the queue, and captured frames through the
  receive path (radiotap.c, wire.c, rx.c), which updates the sender's entry in the peer table and
  the synchronisation with the master (sync.c) and delivers data to the host. The kernel learns of
  valid peers as neighbours (netutils.c).

  \<^bold>\<open>Theories and sources.\<close>
  \<^item> Prelude: machine integers of the target (armeabi-v7a, 32-bit \<open>long\<close>), memory as lists of bytes,
    and the contracts \<open>finite_table\<close> and \<open>updatable_table\<close>. Emit, Printing: stores through pointers and
    the \<open>snprintf\<close> idiom, both with their bounds. Ether, Frame, Packed: addresses, the numbers of
    frame.h and ieee80211.h, and the packed structures of frame.h, ieee80211.h and radiotap.h.
  \<^item> Wire: wire.c and wire.h. Radiotap: radiotap.c. Siphash: siphash24.c. Hashmap: hashmap.c.
    Crc32: crc32.c. Circular\_Buffer: circular\_buffer.c. Logging: log.c.
  \<^item> Channel: channel.c and version.c. Sync: sync.c. Schedule: schedule.c. Election\_State and
    Election: election.c. Peers: peers.c. State: state.c and state.h.
  \<^item> Response: response.c. Tx, with the byte layouts in Tx\_Layout: tx.c. Rx, Rx\_Data, Rx\_Path: rx.c.
    Capture: what the driver of a receiver makes of a transmitted frame. Tx\_Rx: transmitter and
    receiver together.
  \<^item> Io: io.c and the address functions of netutils.c. Netutils: the rest of netutils.c.
    Core, with the proofs in Core\_Poll, Core\_Handlers, Core\_Peers, Core\_Loop, Core\_System,
    Core\_Specs and Core\_Liveness: core.c. Program: main.c.
  \<^item> Air, Network, Network\_Sample and Network\_Specs: any number of nodes that run the program, on a
    shared medium that may lose, delay, repeat, reorder and damage frames but invents none. They add
    no model of code: a node is the result of \<open>main\<close>, a step is a handler of core.c at one node, and
    a captured packet is a frame that some node has transmitted (\<open>captured\<close>), or one that the driver
    marks as damaged.
  Definitions have the names of the C functions and types; a structure is a record whose fields
  have a prefix in place of the structure's name.

  \<^bold>\<open>How C is modelled.\<close> Integers keep their width, and arithmetic wraps where C's unsigned arithmetic
  does; an overflow of a signed value, a store outside an array, a read past a captured frame and
  the use of a NULL or unset pointer have the value \<open>None\<close>, so that a theorem that a result exists
  also says that nothing undefined happens. Uninitialised memory is an argument (\<open>heap\<close>, \<open>mem\<close>, the
  stack of \<open>rx_env\<close> and \<open>core_env\<close>). A function that changes a structure through a pointer returns
  the new structure. A handler of core.c returns the new state and its effects in order (frames
  injected or written to the host, timers and watchers armed, netlink requests, neighbours).
  Results of the C library, the kernel, libpcap, libnl and libev are arguments, in the records
  \<open>pcap_results\<close>, \<open>tun_results\<close>, \<open>link_results\<close>, \<open>nl_env\<close>, \<open>rx_env\<close>, \<open>core_env\<close>, \<open>init_env\<close> and
  \<open>start_env\<close>.

  \<^bold>\<open>What the theorems show.\<close>
  \<^item> Buffers and parsers: Wire refines lists of bytes; every read and write of a buffer is an instance
    of one contract (\<open>packet_field\<close>); the radiotap iterator ends, stays inside the header and yields
    the fields the present words announce; the record loop of rx.c is a parser of records, and
    for every captured packet \<open>apple_p2p_rx\<close> returns and reads only the frame.
  \<^item> Data structures: the hash map is a finite map up to failed allocations, the peer table one
    of addresses; both meet the contracts of Prelude. The ring meets \<open>bounded_fifo\<close>. SipHash and CRC
    equal their reference definitions.
  \<^item> Protocol: frames written by tx.c are read back by rx.c with the values the sender holds;
    synchronisation converges to the master up to the threshold; the schedule sends in the windows of
    common channels; the election chooses the greatest of the candidates.
  \<^item> Daemon: the handlers refine short specifications (Core\_Specs), the loop is a transition
    relation with the contract \<open>event_loop\<close>, and its invariant gives the properties of the whole
    program: it never gets stuck, forgets no frame, keeps the kernel's neighbours complete and asks
    only for channels that exist. A waiting multicast frame is sent after at most eleven retries
    (Core\_Liveness).
  \<^item> Network: nodes that run the program never bring each other into an undefined state, so the
    condition \<open>fits\<close> on captured packets disappears; their peer tables tell the truth about other
    nodes; a node that captures a master indication frame with a sufficient signal knows its sender as
    a valid peer, except when it has no memory for the entry (\<open>no_room\<close>); and a frame of a host
    arrives at the host of every node that captures it and knows its source. Whatever a node receives, the frames it transmits and
    the delays it asks for stay within bounds.

  \<^bold>\<open>Interfaces.\<close> \<open>packet_field\<close> (six interpretations in Wire), \<open>finite_table\<close> (hash map),
  \<open>updatable_table\<close>, which extends it (peer table, used by rx.c), \<open>bounded_fifo\<close> (ring, used by core.c)
  and \<open>event_loop\<close>, with two interpretations: the handlers of one node, used for the runs of the
  program, and the network.

  \<^bold>\<open>Bounds and fuel.\<close> Insertion into the hash map doubles the table until a slot is free and so
  may repeat: it has fuel \<open>re_fuel\<close>, and theorems that it returns assume that every allocation that
  succeeds has at most \<open>limit\<close> elements with \<open>2 * limit < 2 ^ fuel\<close>, which bounds the number of
  doublings. The loop that polls the host interface has no bound of its own and is a partial
  function; given \<open>reads_ok\<close> it is shown to end: the interface runs dry, the queue is full or a
  unicast frame waits. All other loops are total,
  with measures. Host names have up to 50 characters, a larger one makes the records of a master
  indication frame not fit. A packet may deliver up to sixteen frames, the size of the array in
  \<open>apple_p2p_receive_frame\<close>; \<open>fits\<close> is that condition, and without it the theorems state that
  the handler has no defined result.

  \<^bold>\<open>Assumptions.\<close> \<open>clocks_ok\<close>: \<open>clock_time_us\<close> has a defined value, which by its 32-bit product means
  less than 2148 seconds since boot (see State), and the array on the stack of the sender has its
  size of 65535 bytes. \<open>reads_ok\<close>: a read from the host interface fails with a positive error number or
  returns at most the bytes that were asked for. \<open>rx_ok\<close>: the fuel of the hash map, the clock at reception, and that the
  pointer the iterator leaves unset in some cases points low enough in memory. Each theorem with
  such an assumption has a witness on concrete values. \<open>network_of\<close>: the nodes of a network are started by
  \<open>main\<close> with host names of at most 50 characters, and their link-layer addresses differ.
  \<open>captured\<close>: the driver replaces the header of the sender by one with a single bitmap of known
  fields, flags and signal among them (\<open>driver_header\<close>), and leaves the checksum of the radio
  exactly when the flags say so.

  \<^bold>\<open>Not modelled.\<close> The parts for macOS (io.c, netutils.c and the Objective-C file), code under
  \<open>#if TEST\<close>, and the overrides a build can define for the radiotap parser. \<open>double\<close> arithmetic of
  schedule.c, sync.c and core.c is exact rational arithmetic, so rounding is left out. Release of memory
  is modelled for the buffer and the peer table only. The texts of log messages are left out, except
  for the tree of the election. libev, libpcap and libnl, vendored in the repository, are
  parameters; the Android application has no program logic.
\<close>

end
